(* ===== verification/Prelude.thy ===== *)
theory Prelude
  imports Main "HOL-Library.Word" "HOL-Library.Monad_Syntax"
begin

unbundle bit_operations_syntax

text \<open>
  Shared vocabulary of the development: the fixed-width integers of the C++ code, undefined
  behaviour as a value, \<open>std::vector\<close> reads, \<open>std::size_t\<close> subtraction, and the lemmas on
  lists and words that the components share.

  Undefined behaviour. A value of type \<^typ>\<open>'a option\<close>, written \<open>'a ub\<close> where it
  is used in this sense, is \<open>None\<close> when the C++ expression has no defined behaviour (a read of a
  \<open>std::vector\<close> outside its bounds, a dereferenced null pointer) and \<open>Some x\<close> when it evaluates
  to \<open>x\<close>. A \<open>std::optional\<close> result is an \<open>option\<close> inside: \<open>Some None\<close> is a call that
  returns \<open>std::nullopt\<close>, \<open>None\<close> a call with no defined result.
\<close>

section \<open>Integer types and undefined behaviour\<close>

type_synonym u8 = "8 word"
type_synonym u16 = "16 word"
type_synonym u32 = "32 word"
type_synonym u64 = "64 word"

type_synonym 'a ub = "'a option"

text \<open>An IEEE-754 binary32 value, by its bit pattern; a \<open>steady_clock\<close> reading in nanoseconds.\<close>

type_synonym f32 = "32 word"
type_synonym time = int

text \<open>Rewrite rules that evaluate the codec on symbolic bytes.\<close>
named_theorems byte_simps

text \<open>Closed forms of the operations that may be undefined, where they are defined.\<close>
named_theorems ub_simps

section \<open>Vectors\<close>

text \<open>\<open>v[i]\<close> of a \<open>std::vector\<close>: undefined outside the bounds.\<close>

definition rd :: "'a list \<Rightarrow> nat \<Rightarrow> 'a ub" where
  "rd xs i = (if i < length xs then Some (xs ! i) else None)"

text \<open>\<open>v[i] = x\<close>: undefined outside the bounds as well.\<close>

definition wr :: "'a list \<Rightarrow> nat \<Rightarrow> 'a \<Rightarrow> 'a list ub" where
  "wr xs i x = (if i < length xs then Some (xs[i := x]) else None)"

text \<open>Copying \<open>n\<close> elements from offset \<open>i\<close>: undefined unless the whole range is inside.\<close>

definition rd_range :: "'a list \<Rightarrow> nat \<Rightarrow> nat \<Rightarrow> 'a list ub" where
  "rd_range xs i n = (if i + n \<le> length xs then Some (take n (drop i xs)) else None)"

text \<open>Subtraction of \<open>std::size_t\<close> values wraps around at 64 bits.\<close>

definition size_sub :: "nat \<Rightarrow> nat \<Rightarrow> nat" where
  "size_sub a b = (if b \<le> a then a - b else 2 ^ 64 + a - b)"

lemma rd_in [simp, ub_simps]: "i < length xs \<Longrightarrow> rd xs i = Some (xs ! i)"
  by (simp add: rd_def)

lemma rd_out [simp]: "length xs \<le> i \<Longrightarrow> rd xs i = None"
  by (simp add: rd_def)

lemma wr_in [simp, ub_simps]: "i < length xs \<Longrightarrow> wr xs i x = Some (xs[i := x])"
  by (simp add: wr_def)

lemma wr_length: "wr xs i x = Some ys \<Longrightarrow> length ys = length xs"
  by (auto simp: wr_def split: if_splits)

lemma rd_within: "k \<le> length xs \<Longrightarrow> i < k \<Longrightarrow> rd xs i = Some (xs ! i)"
  by simp

lemma rd_eq_Some_iff: "rd xs i = Some x \<longleftrightarrow> i < length xs \<and> xs ! i = x"
  by (auto simp: rd_def)

lemma rd_range_in [simp, ub_simps]:
  "i + n \<le> length xs \<Longrightarrow> rd_range xs i n = Some (take n (drop i xs))"
  by (simp add: rd_range_def)

lemma size_sub_ge [simp, ub_simps]: "b \<le> a \<Longrightarrow> size_sub a b = a - b"
  by (simp add: size_sub_def)

section \<open>Evaluating a partial operation over a list\<close>

fun traverse :: "('a \<Rightarrow> 'b ub) \<Rightarrow> 'a list \<Rightarrow> 'b list ub" where
  "traverse f [] = Some []"
| "traverse f (x # xs) = do { y \<leftarrow> f x; ys \<leftarrow> traverse f xs; Some (y # ys) }"

lemma traverse_total:
  "(\<And>x. x \<in> set xs \<Longrightarrow> f x = Some (g x)) \<Longrightarrow> traverse f xs = Some (map g xs)"
  by (induction xs) auto

lemma traverse_length: "traverse f xs = Some ys \<Longrightarrow> length ys = length xs"
  by (induction xs arbitrary: ys) (auto simp: Option.bind_eq_Some_conv)

section \<open>Lists\<close>

lemma list_eq_append_last2:
  assumes "2 \<le> length xs"
  shows "xs = take (length xs - 2) xs @ [xs ! (length xs - 2), xs ! (length xs - 1)]"
proof -
  let ?n = "length xs - 2"
  have "xs = take ?n xs @ drop ?n xs" by simp
  also have "drop ?n xs = [xs ! ?n, xs ! (length xs - 1)]"
    using assms by (intro nth_equalityI) (auto simp: nth_Cons split: nat.splits)
  finally show ?thesis .
qed

lemma take_4_eq:
  "take 4 xs = [a, b, c, d] \<longleftrightarrow>
     4 \<le> length xs \<and> xs ! 0 = a \<and> xs ! 1 = b \<and> xs ! 2 = c \<and> xs ! 3 = d"
  by (cases xs; cases "tl xs"; cases "tl (tl xs)"; cases "tl (tl (tl xs))")
    (auto simp: numeral_eq_Suc)

lemma sum_list_update_word:
  fixes xs :: "'a::len word list"
  shows "i < length xs \<Longrightarrow> sum_list (xs[i := b]) = sum_list xs + b - xs ! i"
  by (induction xs arbitrary: i) (auto simp: algebra_simps split: nat.splits)

lemma take_update: "take n (xs[i := x]) = (take n xs)[i := x]"
  by (rule take_update_swap)

section \<open>Words\<close>

text \<open>Narrowing to a byte commutes with addition, so a byte checksum may be summed at any width.\<close>

lemma take_bit_8_add_32:
  "take_bit 8 (take_bit 32 a + take_bit 32 b) = take_bit 8 (a + b :: int)"
proof -
  have "take_bit 8 (take_bit 32 a + take_bit 32 b)
      = take_bit 8 (take_bit 8 (take_bit 32 a) + take_bit 8 (take_bit 32 b))"
    by (simp only: take_bit_add)
  also have "\<dots> = take_bit 8 (a + b)"
    by (simp add: take_bit_add)
  finally show ?thesis .
qed

lemma ucast_u8_add [simp]: "(ucast (a + b :: u32) :: u8) = ucast a + ucast b"
  by transfer (simp add: take_bit_add take_bit_8_add_32)

lemma ucast_u8_up [simp]: "(ucast (ucast (b :: u8) :: u32) :: u8) = b"
  by transfer simp

lemma byte_mask: "(0xFF :: 'a::len word) = mask 8"
  by (simp add: mask_eq_exp_minus_1)

lemma ucast_u8_mask [simp]: "(ucast (w AND 0xFF :: 'a::len word) :: u8) = ucast w"
  by (rule bit_word_eqI) (auto simp: byte_mask bit_simps dest: bit_imp_le_length)

lemma unat_of_nat_u8: "n < 256 \<Longrightarrow> unat (of_nat n :: u8) = n"
  by (simp add: unat_of_nat)

end
