(* ===== verification/Packet_Frame.thy ===== *)
theory Packet_Frame
  imports Prelude
begin

text \<open>
  The outer packet of the UDP protocol (\<open>include/joyson_glove/protocol.hpp\<close> and the first half of
  \<open>src/protocol.cpp\<close>): the protocol constants, \<open>struct Packet\<close>, its two additive checksums,
  \<open>serialize\<close> and \<open>deserialize\<close> with the firmware workarounds. The lemmas give the checksums in
  closed form, the exact set of byte strings \<open>deserialize\<close> accepts, both round trips, and what
  the checksum detects.
\<close>

section \<open>Protocol constants\<close>

definition PACKET_HEADER :: u8 where "PACKET_HEADER = 0xEE"
definition PACKET_TAIL :: u8 where "PACKET_TAIL = 0x7E"
definition MODULE_ID :: u8 where "MODULE_ID = 0x01"

definition TARGET_MOTOR :: u8 where "TARGET_MOTOR = 0x01"
definition TARGET_ENCODER :: u8 where "TARGET_ENCODER = 0x02"
definition TARGET_IMU :: u8 where "TARGET_IMU = 0x03"
definition TARGET_LRA :: u8 where "TARGET_LRA = 0x04"

definition CMD_READ_MOTOR_ID :: u8 where "CMD_READ_MOTOR_ID = 0x10"
definition CMD_READ_STATUS :: u8 where "CMD_READ_STATUS = 0x20"
definition CMD_SET_MODE :: u8 where "CMD_SET_MODE = 0x30"
definition CMD_SET_POSITION :: u8 where "CMD_SET_POSITION = 0x31"
definition CMD_SET_SPEED :: u8 where "CMD_SET_SPEED = 0x32"
definition CMD_SET_FORCE :: u8 where "CMD_SET_FORCE = 0x33"

definition MOTOR_HEADER_REQ_1 :: u8 where "MOTOR_HEADER_REQ_1 = 0x55"
definition MOTOR_HEADER_REQ_2 :: u8 where "MOTOR_HEADER_REQ_2 = 0xAA"
definition MOTOR_HEADER_RESP_1 :: u8 where "MOTOR_HEADER_RESP_1 = 0xAA"
definition MOTOR_HEADER_RESP_2 :: u8 where "MOTOR_HEADER_RESP_2 = 0x55"

definition MOTOR_INSTR_READ_REG :: u8 where "MOTOR_INSTR_READ_REG = 0x31"
definition MOTOR_INSTR_HOST_CMD :: u8 where "MOTOR_INSTR_HOST_CMD = 0x30"
definition MOTOR_INSTR_READ_WRITE :: u8 where "MOTOR_INSTR_READ_WRITE = 0x32"

definition MODE_POSITION :: u8 where "MODE_POSITION = 0x00"
definition MODE_SERVO :: u8 where "MODE_SERVO = 0x01"
definition MODE_SPEED :: u8 where "MODE_SPEED = 0x02"
definition MODE_FORCE :: u8 where "MODE_FORCE = 0x03"
definition MODE_VOLTAGE :: u8 where "MODE_VOLTAGE = 0x04"
definition MODE_SPEED_FORCE :: u8 where "MODE_SPEED_FORCE = 0x05"

definition REG_MOTOR_ID :: u8 where "REG_MOTOR_ID = 0x16"
definition REG_MODE :: u8 where "REG_MODE = 0x25"
definition REG_FORCE :: u8 where "REG_FORCE = 0x27"
definition REG_SPEED :: u8 where "REG_SPEED = 0x28"
definition REG_POSITION :: u8 where "REG_POSITION = 0x29"

definition NUM_MOTORS :: nat where "NUM_MOTORS = 6"
definition NUM_ENCODER_CHANNELS :: nat where "NUM_ENCODER_CHANNELS = 16"
definition MOTOR_POSITION_MAX :: u16 where "MOTOR_POSITION_MAX = 2000"
definition MOTOR_FORCE_MAX :: u16 where "MOTOR_FORCE_MAX = 4095"

lemmas frame_consts = PACKET_HEADER_def PACKET_TAIL_def MODULE_ID_def
  MOTOR_HEADER_REQ_1_def MOTOR_HEADER_REQ_2_def MOTOR_HEADER_RESP_1_def MOTOR_HEADER_RESP_2_def

lemmas target_consts = TARGET_MOTOR_def TARGET_ENCODER_def TARGET_IMU_def

lemmas command_consts = CMD_READ_MOTOR_ID_def CMD_READ_STATUS_def CMD_SET_MODE_def
  CMD_SET_POSITION_def CMD_SET_SPEED_def CMD_SET_FORCE_def
  MOTOR_INSTR_READ_REG_def MOTOR_INSTR_HOST_CMD_def MOTOR_INSTR_READ_WRITE_def
  REG_MOTOR_ID_def REG_MODE_def REG_FORCE_def REG_SPEED_def REG_POSITION_def

section \<open>The packet and its serialisation\<close>

record Packet =
  pkt_header :: u8
  pkt_length :: u8
  pkt_module_id :: u8
  pkt_target :: u8
  pkt_command :: u8
  pkt_body :: "u8 list"
  pkt_checksum :: u8
  pkt_tail :: u8

text \<open>A default-initialised \<open>Packet packet;\<close>.\<close>

definition Packet_default :: Packet where
  "Packet_default = \<lparr>pkt_header = PACKET_HEADER, pkt_length = 0, pkt_module_id = MODULE_ID,
     pkt_target = 0, pkt_command = 0, pkt_body = [], pkt_checksum = 0, pkt_tail = PACKET_TAIL\<rparr>"

definition serialize :: "Packet \<Rightarrow> u8 list" where
  "serialize p =
     [pkt_header p, pkt_length p, pkt_module_id p, pkt_target p, pkt_command p]
     @ pkt_body p @ [pkt_checksum p, pkt_tail p]"

section \<open>Checksums\<close>

text \<open>
  The summing loop \<open>for (size_t i = i0; i < n; ++i) sum += data[i]\<close> of both checksums. The bound
  is a wrapped \<open>size_t\<close>, so on a vector that is too short the loop runs past the end.
\<close>

function checksum_loop :: "u8 list \<Rightarrow> nat \<Rightarrow> nat \<Rightarrow> u32 \<Rightarrow> u32 ub" where
  "checksum_loop data i n acc =
     (if i < n then do { b \<leftarrow> rd data i; checksum_loop data (Suc i) n (acc + ucast b) }
      else Some acc)"
  by pat_completeness auto
termination
  by (relation "measure (\<lambda>(data, i, n, acc). n - i)") auto

declare checksum_loop.simps [simp del]

definition calculate_checksum :: "u8 list \<Rightarrow> u8 ub" where
  "calculate_checksum data = do {
     acc \<leftarrow> checksum_loop data 0 (size_sub (length data) 2) 0;
     Some (ucast (acc AND 0xFF)) }"

definition calculate_motor_checksum :: "u8 list \<Rightarrow> u8 ub" where
  "calculate_motor_checksum inner_data = do {
     acc \<leftarrow> checksum_loop inner_data 2 (size_sub (length inner_data) 1) 0;
     Some (ucast (acc AND 0xFF)) }"

definition validate_checksum :: "Packet \<Rightarrow> bool ub" where
  "validate_checksum p = do {
     calculated \<leftarrow> calculate_checksum (serialize p);
     Some (calculated = pkt_checksum p) }"

definition validate_motor_checksum :: "Packet \<Rightarrow> bool ub" where
  "validate_motor_checksum p =
     (let body = pkt_body p in
      if length body < 4 then Some True
      else do {
        b0 \<leftarrow> rd body 0;
        b1 \<leftarrow> rd body 1;
        let is_motor_request = (b0 = MOTOR_HEADER_REQ_1 \<and> b1 = MOTOR_HEADER_REQ_2);
        let is_motor_response = (b0 = MOTOR_HEADER_RESP_1 \<and> b1 = MOTOR_HEADER_RESP_2);
        if \<not> is_motor_request \<and> \<not> is_motor_response then Some True
        else do {
          expected \<leftarrow> calculate_motor_checksum body;
          actual \<leftarrow> rd body (length body - 1);
          Some (expected = actual) } })"

section \<open>Deserialisation\<close>

definition is_imu_response :: "u8 list \<Rightarrow> bool" where
  "is_imu_response data \<longleftrightarrow> 4 \<le> length data \<and>
     data ! 0 = PACKET_HEADER \<and> data ! 1 = 0x11 \<and> data ! 2 = 0x01 \<and> data ! 3 = 0x02"

definition is_encoder_response :: "u8 list \<Rightarrow> bool" where
  "is_encoder_response data \<longleftrightarrow> 4 \<le> length data \<and>
     data ! 0 = PACKET_HEADER \<and> data ! 1 = 0x25 \<and> data ! 2 = 0x01 \<and> data ! 3 = 0x02"

definition deserialize :: "u8 list \<Rightarrow> Packet option ub" where
  "deserialize data =
     (if length data < 7 then Some None
      else do {
        header \<leftarrow> rd data 0;
        if header \<noteq> PACKET_HEADER then Some None
        else do {
          len \<leftarrow> rd data 1;
          let skip_length_check = (is_imu_response data \<or> is_encoder_response data);
          let expected_total_length = unat len + 5;
          if \<not> skip_length_check \<and> expected_total_length \<noteq> length data then Some None
          else do {
            module_id \<leftarrow> rd data 2;
            target \<leftarrow> rd data 3;
            command \<leftarrow> rd data 4;
            let body_size = size_sub (length data) 7;
            body \<leftarrow> rd_range data 5 body_size;
            checksum \<leftarrow> rd data (5 + body_size);
            tail \<leftarrow> rd data (5 + body_size + 1);
            let packet = \<lparr>pkt_header = header, pkt_length = len, pkt_module_id = module_id,
                  pkt_target = target, pkt_command = command, pkt_body = body,
                  pkt_checksum = checksum, pkt_tail = tail\<rparr>;
            if tail \<noteq> PACKET_TAIL then Some None
            else do {
              outer_ok \<leftarrow> (if is_imu_response data then Some True else validate_checksum packet);
              if \<not> outer_ok then Some None
              else do {
                inner_ok \<leftarrow> validate_motor_checksum packet;
                if \<not> inner_ok then Some None else Some (Some packet) } } } } })"

section \<open>The checksums in closed form\<close>

lemma checksum_loop_in:
  "n \<le> length data \<Longrightarrow>
   checksum_loop data i n s = Some (s + sum_list (map ucast (take (n - i) (drop i data))))"
proof (induction data i n s rule: checksum_loop.induct)
  case (1 data i n s)
  show ?case
  proof (cases "i < n")
    case True
    with "1.prems" have "take (n - i) (drop i data) = data ! i # take (n - Suc i) (drop (Suc i) data)"
      by (metis Cons_nth_drop_Suc Suc_diff_Suc dual_order.strict_trans1 take_Suc_Cons)
    with True 1 show ?thesis
      by (simp add: checksum_loop.simps [of data i n s] add.assoc)
  next
    case False
    then show ?thesis by (simp add: checksum_loop.simps [of data i n s])
  qed
qed

lemma checksum_loop_out: "length data < n \<Longrightarrow> i < n \<Longrightarrow> checksum_loop data i n s = None"
proof (induction data i n s rule: checksum_loop.induct)
  case (1 data i n s)
  then show ?case
    by (cases "i < length data") (auto simp: checksum_loop.simps [of data i n s])
qed

lemma ucast_byte_sum: "(ucast (sum_list (map ucast xs) :: u32) :: u8) = sum_list xs"
  by (induction xs) auto

lemma calculate_checksum_in [ub_simps]:
  "2 \<le> length data \<Longrightarrow>
   calculate_checksum data = Some (sum_list (take (length data - 2) data))"
  by (simp add: calculate_checksum_def checksum_loop_in ucast_byte_sum)

lemma calculate_checksum_out: "length data < 2 \<Longrightarrow> calculate_checksum data = None"
  by (simp add: calculate_checksum_def size_sub_def checksum_loop_out)

lemma calculate_motor_checksum_in [ub_simps]:
  "1 \<le> length inner \<Longrightarrow>
   calculate_motor_checksum inner = Some (sum_list (take (length inner - 3) (drop 2 inner)))"
  by (simp add: calculate_motor_checksum_def checksum_loop_in ucast_byte_sum numeral_3_eq_3)

lemma calculate_motor_checksum_out: "calculate_motor_checksum [] = None"
  by (simp add: calculate_motor_checksum_def size_sub_def checksum_loop_out)

lemma length_serialize [simp]: "length (serialize p) = length (pkt_body p) + 7"
  by (simp add: serialize_def)

definition outer_sum :: "Packet \<Rightarrow> u8" where
  "outer_sum p = pkt_header p + pkt_length p + pkt_module_id p + pkt_target p + pkt_command p
     + sum_list (pkt_body p)"

lemma sum_take_serialize:
  "sum_list (take (length (serialize p) - 2) (serialize p)) = outer_sum p"
  by (simp add: serialize_def outer_sum_def add.assoc)

lemma calculate_checksum_serialize [ub_simps]:
  "calculate_checksum (serialize p) = Some (outer_sum p)"
  using sum_take_serialize [of p] by (simp add: calculate_checksum_in)

lemma validate_checksum_eq [ub_simps]:
  "validate_checksum p = Some (outer_sum p = pkt_checksum p)"
  by (simp add: validate_checksum_def calculate_checksum_serialize)

text \<open>The inner motor checksum is only looked at behind a motor header.\<close>

definition motor_header :: "u8 list \<Rightarrow> bool" where
  "motor_header b \<longleftrightarrow> 4 \<le> length b \<and>
     (b ! 0 = 0x55 \<and> b ! 1 = 0xAA \<or> b ! 0 = 0xAA \<and> b ! 1 = 0x55)"

definition inner_ok :: "u8 list \<Rightarrow> bool" where
  "inner_ok b \<longleftrightarrow> (motor_header b \<longrightarrow> last b = sum_list (butlast (drop 2 b)))"

lemma validate_motor_checksum_eq [ub_simps]:
  "validate_motor_checksum p = Some (inner_ok (pkt_body p))"
proof (cases "4 \<le> length (pkt_body p)")
  case True
  let ?b = "pkt_body p"
  have "take (length ?b - 3) (drop 2 ?b) = butlast (drop 2 ?b)"
    by (simp add: butlast_conv_take)
  moreover have "?b \<noteq> []" using True by auto
  ultimately show ?thesis using True
    by (auto simp: validate_motor_checksum_def inner_ok_def motor_header_def Let_def frame_consts
        calculate_motor_checksum_in last_conv_nth)
next
  case False
  then show ?thesis
    by (simp add: validate_motor_checksum_def inner_ok_def motor_header_def)
qed

section \<open>What deserialize accepts\<close>

text \<open>
  The abstract specification of the parser: a predicate on the received bytes, and the packet the
  bytes stand for. \<open>deserialize\<close> refines it (\<open>deserialize_spec\<close>).
\<close>

definition frame_body :: "u8 list \<Rightarrow> u8 list" where
  "frame_body data = take (length data - 7) (drop 5 data)"

text \<open>The two firmware frames, by their first four bytes, that are exempt from checks.\<close>

definition length_ok :: "u8 list \<Rightarrow> bool" where
  "length_ok data \<longleftrightarrow> unat (data ! 1) + 5 = length data
     \<or> take 4 data \<in> {[0xEE, 0x11, 0x01, 0x02], [0xEE, 0x25, 0x01, 0x02]}"

definition outer_ok :: "u8 list \<Rightarrow> bool" where
  "outer_ok data \<longleftrightarrow> take 4 data = [0xEE, 0x11, 0x01, 0x02]
     \<or> data ! (length data - 2) = sum_list (take (length data - 2) data)"

lemma exempt_frames:
  "length_ok data \<longleftrightarrow> unat (data ! 1) + 5 = length data
     \<or> is_imu_response data \<or> is_encoder_response data"
  "outer_ok data \<longleftrightarrow> is_imu_response data
     \<or> data ! (length data - 2) = sum_list (take (length data - 2) data)"
  by (auto simp: length_ok_def outer_ok_def take_4_eq is_imu_response_def is_encoder_response_def
      PACKET_HEADER_def)

definition frame_ok :: "u8 list \<Rightarrow> bool" where
  "frame_ok data \<longleftrightarrow> 7 \<le> length data \<and> data ! 0 = 0xEE \<and> data ! (length data - 1) = 0x7E
     \<and> length_ok data \<and> outer_ok data \<and> inner_ok (frame_body data)"

definition unpack_frame :: "u8 list \<Rightarrow> Packet" where
  "unpack_frame data = \<lparr>pkt_header = data ! 0, pkt_length = data ! 1, pkt_module_id = data ! 2,
     pkt_target = data ! 3, pkt_command = data ! 4, pkt_body = frame_body data,
     pkt_checksum = data ! (length data - 2), pkt_tail = data ! (length data - 1)\<rparr>"

lemma frame_split:
  assumes "7 \<le> length data"
  shows "data = [data ! 0, data ! 1, data ! 2, data ! 3, data ! 4] @ frame_body data
     @ [data ! (length data - 2), data ! (length data - 1)]"
proof -
  have d5: "data = [data ! 0, data ! 1, data ! 2, data ! 3, data ! 4] @ drop 5 data"
    using assms
    by (intro nth_equalityI) (auto simp: nth_Cons nth_append numeral_eq_Suc split: nat.splits)
  have "drop 5 data = take (length (drop 5 data) - 2) (drop 5 data)
      @ [drop 5 data ! (length (drop 5 data) - 2), drop 5 data ! (length (drop 5 data) - 1)]"
    by (rule list_eq_append_last2) (use assms in simp)
  also have "\<dots> = frame_body data @ [data ! (length data - 2), data ! (length data - 1)]"
    using assms by (simp add: frame_body_def)
  finally show ?thesis using d5 by simp
qed

lemma serialize_unpack_frame: "7 \<le> length data \<Longrightarrow> serialize (unpack_frame data) = data"
  using frame_split [of data] by (simp add: serialize_def unpack_frame_def)

lemma outer_sum_unpack_frame:
  "7 \<le> length data \<Longrightarrow> outer_sum (unpack_frame data) = sum_list (take (length data - 2) data)"
  using sum_take_serialize [of "unpack_frame data"] serialize_unpack_frame [of data] by simp

lemma unpack_frame_serialize [simp]: "unpack_frame (serialize p) = p"
  by (simp add: unpack_frame_def frame_body_def serialize_def nth_append)

lemma deserialize_step:
  assumes "7 \<le> length data"
  shows "deserialize data =
    (if data ! 0 \<noteq> PACKET_HEADER then Some None
     else if \<not> length_ok data then Some None
     else if data ! (length data - 1) \<noteq> PACKET_TAIL then Some None
     else do {
       outer_ok \<leftarrow> (if is_imu_response data then Some True
                    else validate_checksum (unpack_frame data));
       if \<not> outer_ok then Some None
       else do {
         inner_ok \<leftarrow> validate_motor_checksum (unpack_frame data);
         if \<not> inner_ok then Some None else Some (Some (unpack_frame data)) } })"
proof -
  let ?n = "length data - 7"
  have idx: "5 + ?n = length data - 2" "length data - 2 + 1 = length data - 1"
    using assms by simp_all
  have "rd data (5 + ?n) = Some (data ! (length data - 2))"
    "rd data (5 + ?n + 1) = Some (data ! (length data - 1))"
    "rd_range data 5 ?n = Some (frame_body data)"
    using assms by (simp_all only: idx rd_in rd_range_in frame_body_def)
  moreover have "size_sub (length data) 7 = ?n" "\<not> length data < 7" using assms by simp_all
  moreover have "rd data 0 = Some (data ! 0)" "rd data 1 = Some (data ! 1)"
    "rd data 2 = Some (data ! 2)" "rd data 3 = Some (data ! 3)" "rd data 4 = Some (data ! 4)"
    by (rule rd_within [OF assms], simp)+
  ultimately show ?thesis
    unfolding deserialize_def exempt_frames unpack_frame_def Let_def
    by (simp cong: if_cong del: One_nat_def)
qed

lemma deserialize_eq:
  "deserialize data = Some (if frame_ok data then Some (unpack_frame data) else None)"
proof (cases "7 \<le> length data")
  case True
  have [simp]: "pkt_checksum (unpack_frame data) = data ! (length data - 2)"
    "pkt_body (unpack_frame data) = frame_body data"
    by (simp_all add: unpack_frame_def)
  show ?thesis using True
    by (auto simp: deserialize_step frame_ok_def exempt_frames frame_consts validate_checksum_eq
        validate_motor_checksum_eq outer_sum_unpack_frame)
next
  case False
  then show ?thesis by (simp add: deserialize_def frame_ok_def)
qed


lemma deserialize_accepts_iff:
  "deserialize data = Some (Some p) \<longleftrightarrow> frame_ok data \<and> p = unpack_frame data"
  by (auto simp: deserialize_eq)

lemma deserialize_rejects_iff: "deserialize data = Some None \<longleftrightarrow> \<not> frame_ok data"
  by (simp add: deserialize_eq)

section \<open>Well-formed packets\<close>

definition wf_packet :: "Packet \<Rightarrow> bool" where
  "wf_packet p \<longleftrightarrow> pkt_header p = 0xEE \<and> pkt_tail p = 0x7E
     \<and> unat (pkt_length p) = length (pkt_body p) + 2
     \<and> pkt_checksum p = outer_sum p \<and> inner_ok (pkt_body p)"

lemma frame_ok_serialize:
  assumes "wf_packet p"
  shows "frame_ok (serialize p)"
proof -
  let ?d = "serialize p"
  have "?d ! (length ?d - 2) = pkt_checksum p" "?d ! (length ?d - 1) = pkt_tail p"
    "?d ! 0 = pkt_header p" "?d ! 1 = pkt_length p" "frame_body ?d = pkt_body p"
    by (simp_all add: serialize_def nth_append frame_body_def)
  then show ?thesis
    using assms sum_take_serialize [of p]
    by (simp add: frame_ok_def exempt_frames wf_packet_def)
qed

lemma deserialize_serialize:
  "wf_packet p \<Longrightarrow> deserialize (serialize p) = Some (Some p)"
  by (simp add: deserialize_eq frame_ok_serialize)

text \<open>One changed byte of a frame whose checksum is enforced is always noticed.\<close>

lemma frame_ok_one_byte:
  assumes ok: "frame_ok data" and i: "i < length data" and b: "b \<noteq> data ! i"
    and imu: "\<not> is_imu_response data" "\<not> is_imu_response (data[i := b])"
  shows "\<not> frame_ok (data[i := b])"
proof
  assume ok': "frame_ok (data[i := b])"
  let ?n = "length data"
  have n: "7 \<le> ?n" using ok by (simp add: frame_ok_def)
  have sum: "data ! (?n - 2) = sum_list (take (?n - 2) data)"
    "data[i := b] ! (?n - 2) = sum_list ((take (?n - 2) data)[i := b])"
    using ok ok' imu by (simp_all add: frame_ok_def exempt_frames take_update)
  consider "i < ?n - 2" | "i = ?n - 2" | "i = ?n - 1" using i by linarith
  then show False
  proof cases
    case 1
    then show ?thesis using sum b by (simp add: sum_list_update_word)
  next
    case 2
    then show ?thesis using sum b n by (simp add: list_update_beyond)
  next
    case 3
    then show ?thesis using ok ok' b n by (auto simp: frame_ok_def)
  qed
qed

section \<open>Properties\<close>

text \<open>
  C1. \<open>Packet::deserialize\<close> refines its specification on every input: it never reads outside the
  received bytes, it returns a packet exactly for the frames of \<open>frame_ok\<close> (size, header, length
  or one of the two firmware exceptions, tail, outer checksum unless the frame looks like an IMU
  response, inner checksum behind a motor header), and the packet is the one the bytes spell.
\<close>

theorem deserialize_spec:
  "deserialize data = Some (if frame_ok data then Some (unpack_frame data) else None)"
  by (rule deserialize_eq)

text \<open>
  Parsing loses nothing: whatever \<open>deserialize\<close> accepts, \<open>serialize\<close> turns back into
  the same bytes, for the frames with the wrong length field too.
\<close>

lemma deserialize_then_serialize:
  "deserialize data = Some (Some p) \<Longrightarrow> serialize p = data"
  by (auto simp: deserialize_accepts_iff frame_ok_def serialize_unpack_frame)

lemma deserialize_then_serialize_instance:
  "\<exists>p. serialize p = [0xEE, 0x11, 0x01, 0x02, 0x00, 0x2A, 0x3A, 0x7E] \<and> pkt_body p = [0x2A]"
proof -
  let ?d = "[0xEE, 0x11, 0x01, 0x02, 0x00, 0x2A, 0x3A, 0x7E] :: u8 list"
  have "deserialize ?d = Some (Some (unpack_frame ?d))"
    by (simp add: deserialize_eq frame_ok_def exempt_frames is_imu_response_def
        inner_ok_def motor_header_def frame_body_def frame_consts)
  from deserialize_then_serialize [OF this] show ?thesis
    by (intro exI [of _ "unpack_frame ?d"]) (simp add: unpack_frame_def frame_body_def)
qed

text \<open>
  C20. Building loses nothing: every packet with the protocol's header and tail, a length field that
  counts target, command and body, and matching checksums survives the wire.
\<close>

theorem serialize_then_deserialize:
  "wf_packet p \<Longrightarrow> deserialize (serialize p) = Some (Some p)"
  by (rule deserialize_serialize)

theorem serialize_then_deserialize_witness:
  "deserialize (serialize (Packet_default\<lparr>pkt_length := 2, pkt_target := 3, pkt_checksum := 0xF4\<rparr>))
   = Some (Some (Packet_default\<lparr>pkt_length := 2, pkt_target := 3, pkt_checksum := 0xF4\<rparr>))"
  by (rule serialize_then_deserialize)
    (simp add: wf_packet_def Packet_default_def outer_sum_def inner_ok_def motor_header_def
      frame_consts)

text \<open>
  Both checksums are the sum of the covered bytes modulo 256 (the 32-bit accumulator never shows),
  and they are undefined exactly on the vectors too short for the wrapped loop bound: fewer than two
  bytes for the outer one, none for the inner one.
\<close>

lemma checksums_closed_form:
  "calculate_checksum data =
     (if length data < 2 then None else Some (sum_list (take (length data - 2) data)))
   \<and> calculate_motor_checksum inner =
     (if inner = [] then None else Some (sum_list (take (length inner - 3) (drop 2 inner))))"
  by (auto simp: calculate_checksum_in calculate_checksum_out calculate_motor_checksum_in
      calculate_motor_checksum_out Suc_le_eq)

text \<open>
  C21. Error detection: changing any one byte of an accepted frame, to any other value, makes
  \<open>deserialize\<close> reject it, as long as neither frame has the IMU shape that switches the outer
  checksum off.
\<close>

theorem one_byte_corruption_rejected:
  assumes "deserialize data = Some (Some p)" and "i < length data" and "b \<noteq> data ! i"
    and "\<not> is_imu_response data" and "\<not> is_imu_response (data[i := b])"
  shows "deserialize (data[i := b]) = Some None"
  using assms frame_ok_one_byte by (simp add: deserialize_accepts_iff deserialize_rejects_iff)

theorem one_byte_corruption_rejected_witness:
  "deserialize ([0xEE, 0x02, 0x01, 0x03, 0x00, 0xF4, 0x7E][3 := 0x02]) = Some None"
proof (rule one_byte_corruption_rejected)
  show "deserialize [0xEE, 0x02, 0x01, 0x03, 0x00, 0xF4, 0x7E]
      = Some (Some (unpack_frame [0xEE, 0x02, 0x01, 0x03, 0x00, 0xF4, 0x7E]))"
    by (simp add: deserialize_eq frame_ok_def exempt_frames is_imu_response_def
        inner_ok_def motor_header_def frame_body_def frame_consts)
qed (simp_all add: is_imu_response_def)

text \<open>
  The IMU exception, exactly: a frame that starts with EE 11 01 02 is accepted whatever its length
  and whatever its outer checksum, provided it has seven bytes, the tail, and a consistent inner
  checksum if its body happens to start like a motor packet.
\<close>

lemma imu_shaped_frame_unchecked:
  assumes "is_imu_response data"
  shows "deserialize data =
    Some (if 7 \<le> length data \<and> data ! (length data - 1) = 0x7E \<and> inner_ok (frame_body data)
          then Some (unpack_frame data) else None)"
  using assms
  by (simp add: deserialize_eq frame_ok_def exempt_frames)
    (simp add: is_imu_response_def frame_consts)

lemma imu_shaped_frame_unchecked_instance:
  "deserialize [0xEE, 0x11, 0x01, 0x02, 0x00, 0x2A, 0x7E]
   = Some (Some (unpack_frame [0xEE, 0x11, 0x01, 0x02, 0x00, 0x2A, 0x7E]))"
proof -
  have "is_imu_response [0xEE, 0x11, 0x01, 0x02, 0x00, 0x2A, 0x7E]"
    by (simp add: is_imu_response_def frame_consts)
  from imu_shaped_frame_unchecked [OF this] show ?thesis
    by (simp add: inner_ok_def motor_header_def frame_body_def)
qed

end
