(* ===== verification/Codec.thy ===== *)
theory Codec
  imports Packet_Frame
begin

text \<open>
  \<open>class ProtocolCodec\<close> (\<open>src/protocol.cpp\<close> from \<open>write_uint16_le\<close> on): the eight request encoders and
  the three response parsers. The value of \<open>steady_clock::now()\<close> that a parser stores is its last
  argument. The lemmas give every encoder in closed form as one well-formed packet, every parser on
  every body, and the round trips between the two.
\<close>

section \<open>Parsed data\<close>

record MotorStatus =
  ms_motor_id :: u8
  ms_target_position :: u16
  ms_actual_position :: u16
  ms_actual_current :: u16
  ms_force_value :: u16
  ms_force_raw :: u16
  ms_temperature :: u8
  ms_fault_code :: u8
  ms_timestamp :: time

record EncoderData =
  ed_adc_values :: "u16 list"
  ed_timestamp :: time

record ImuData =
  imu_roll :: f32
  imu_pitch :: f32
  imu_yaw :: f32
  imu_timestamp :: time

section \<open>Byte order\<close>

definition write_uint16_le :: "u8 list \<Rightarrow> u16 \<Rightarrow> u8 list" where
  "write_uint16_le data v = data @ [ucast (v AND 0xFF), ucast (drop_bit 8 v AND 0xFF)]"

definition read_uint16_le :: "u8 list \<Rightarrow> nat \<Rightarrow> u16 ub" where
  "read_uint16_le data offset = do {
     b0 \<leftarrow> rd data offset;
     b1 \<leftarrow> rd data (offset + 1);
     Some (ucast ((ucast b0 :: u32) OR push_bit 8 (ucast b1))) }"

definition read_uint16_be :: "u8 list \<Rightarrow> nat \<Rightarrow> u16 ub" where
  "read_uint16_be data offset = do {
     b0 \<leftarrow> rd data offset;
     b1 \<leftarrow> rd data (offset + 1);
     Some (ucast (push_bit 8 (ucast b0 :: u32) OR ucast b1)) }"

definition read_float_be :: "u8 list \<Rightarrow> nat \<Rightarrow> f32 ub" where
  "read_float_be data offset = do {
     b0 \<leftarrow> rd data offset;
     b1 \<leftarrow> rd data (offset + 1);
     b2 \<leftarrow> rd data (offset + 2);
     b3 \<leftarrow> rd data (offset + 3);
     Some (push_bit 24 (ucast b0) OR push_bit 16 (ucast b1) OR push_bit 8 (ucast b2) OR ucast b3) }"

section \<open>Encoders\<close>

text \<open>\<open>inner.back() = Packet::calculate_motor_checksum(inner);\<close>\<close>

definition seal_inner :: "u8 list \<Rightarrow> u8 list ub" where
  "seal_inner inner = do {
     c \<leftarrow> calculate_motor_checksum inner;
     Some (inner[length inner - 1 := c]) }"

text \<open>The last lines of every encoder: the length field, then the outer checksum.\<close>

definition finish_packet :: "Packet \<Rightarrow> Packet ub" where
  "finish_packet packet = do {
     let packet = packet\<lparr>pkt_length := 2 + of_nat (length (pkt_body packet))\<rparr>;
     c \<leftarrow> calculate_checksum (serialize packet);
     Some (packet\<lparr>pkt_checksum := c\<rparr>) }"

definition encode_read_motor_id :: "u8 \<Rightarrow> Packet ub" where
  "encode_read_motor_id motor_id = do {
     let packet = Packet_default\<lparr>pkt_module_id := MODULE_ID, pkt_target := TARGET_MOTOR,
           pkt_command := CMD_READ_MOTOR_ID\<rparr>;
     let inner = [MOTOR_HEADER_REQ_1, MOTOR_HEADER_REQ_2, 0x04, motor_id, MOTOR_INSTR_READ_REG,
           REG_MOTOR_ID, 0x00, 0x01, 0x00];
     inner \<leftarrow> seal_inner inner;
     finish_packet (packet\<lparr>pkt_body := inner\<rparr>) }"

definition encode_read_motor_status :: "u8 \<Rightarrow> Packet ub" where
  "encode_read_motor_status motor_id = do {
     let packet = Packet_default\<lparr>pkt_module_id := MODULE_ID, pkt_target := TARGET_MOTOR,
           pkt_command := CMD_READ_STATUS\<rparr>;
     let inner = [MOTOR_HEADER_REQ_1, MOTOR_HEADER_REQ_2, 0x03, motor_id, MOTOR_INSTR_HOST_CMD,
           0x00, 0x00, 0x00];
     inner \<leftarrow> seal_inner inner;
     finish_packet (packet\<lparr>pkt_body := inner\<rparr>) }"

definition encode_set_motor_mode :: "u8 \<Rightarrow> u8 \<Rightarrow> Packet ub" where
  "encode_set_motor_mode motor_id mode = do {
     let packet = Packet_default\<lparr>pkt_module_id := MODULE_ID, pkt_target := TARGET_MOTOR,
           pkt_command := CMD_SET_MODE\<rparr>;
     let inner = [MOTOR_HEADER_REQ_1, MOTOR_HEADER_REQ_2, 0x05, motor_id, MOTOR_INSTR_READ_WRITE,
           REG_MODE, 0x00];
     let inner = write_uint16_le inner (ucast mode);
     let inner = inner @ [0x00];
     inner \<leftarrow> seal_inner inner;
     finish_packet (packet\<lparr>pkt_body := inner\<rparr>) }"

definition encode_set_motor_position :: "u8 \<Rightarrow> u16 \<Rightarrow> Packet ub" where
  "encode_set_motor_position motor_id position = do {
     let packet = Packet_default\<lparr>pkt_module_id := MODULE_ID, pkt_target := TARGET_MOTOR,
           pkt_command := CMD_SET_POSITION\<rparr>;
     let inner = [MOTOR_HEADER_REQ_1, MOTOR_HEADER_REQ_2, 0x05, motor_id, MOTOR_INSTR_READ_WRITE,
           REG_POSITION, 0x00];
     let inner = write_uint16_le inner position;
     let inner = inner @ [0x00];
     inner \<leftarrow> seal_inner inner;
     finish_packet (packet\<lparr>pkt_body := inner\<rparr>) }"

definition encode_set_motor_force :: "u8 \<Rightarrow> u16 \<Rightarrow> Packet ub" where
  "encode_set_motor_force motor_id force = do {
     let packet = Packet_default\<lparr>pkt_module_id := MODULE_ID, pkt_target := TARGET_MOTOR,
           pkt_command := CMD_SET_FORCE\<rparr>;
     let inner = [MOTOR_HEADER_REQ_1, MOTOR_HEADER_REQ_2, 0x05, motor_id, MOTOR_INSTR_READ_WRITE,
           REG_FORCE, 0x00];
     let inner = write_uint16_le inner force;
     let inner = inner @ [0x00];
     inner \<leftarrow> seal_inner inner;
     finish_packet (packet\<lparr>pkt_body := inner\<rparr>) }"

definition encode_set_motor_speed :: "u8 \<Rightarrow> u16 \<Rightarrow> u16 \<Rightarrow> Packet ub" where
  "encode_set_motor_speed motor_id speed target_position = do {
     let packet = Packet_default\<lparr>pkt_module_id := MODULE_ID, pkt_target := TARGET_MOTOR,
           pkt_command := CMD_SET_SPEED\<rparr>;
     let inner = [MOTOR_HEADER_REQ_1, MOTOR_HEADER_REQ_2, 0x07, motor_id, MOTOR_INSTR_READ_WRITE,
           REG_SPEED, 0x00];
     let inner = write_uint16_le inner speed;
     let inner = write_uint16_le inner target_position;
     let inner = inner @ [0x00];
     inner \<leftarrow> seal_inner inner;
     finish_packet (packet\<lparr>pkt_body := inner\<rparr>) }"

definition encode_read_all_encoders :: "Packet ub" where
  "encode_read_all_encoders = do {
     let packet = Packet_default\<lparr>pkt_module_id := MODULE_ID, pkt_target := TARGET_ENCODER,
           pkt_command := 0x00\<rparr>;
     let packet = packet\<lparr>pkt_body := pkt_body packet @ [0xFF]\<rparr>;
     let packet = packet\<lparr>pkt_body := pkt_body packet @ [0xFF]\<rparr>;
     finish_packet packet }"

definition encode_read_imu :: "Packet ub" where
  "encode_read_imu = do {
     let packet = Packet_default\<lparr>pkt_module_id := MODULE_ID, pkt_target := TARGET_IMU,
           pkt_command := 0x00, pkt_body := []\<rparr>;
     finish_packet packet }"

section \<open>Response parsers\<close>

definition parse_motor_status :: "Packet \<Rightarrow> time \<Rightarrow> MotorStatus option ub" where
  "parse_motor_status packet now =
     (let body = pkt_body packet in
      if pkt_module_id packet \<noteq> MODULE_ID \<or> pkt_target packet \<noteq> TARGET_MOTOR then Some None
      else if length body < 18 then Some None
      else do {
        b0 \<leftarrow> rd body 0;
        b1 \<leftarrow> rd body 1;
        if b0 \<noteq> MOTOR_HEADER_RESP_1 \<or> b1 \<noteq> MOTOR_HEADER_RESP_2 then Some None
        else do {
          motor_id \<leftarrow> rd body 3;
          let data_offset = 7;
          target_position \<leftarrow> read_uint16_le body data_offset;
          actual_position \<leftarrow> read_uint16_le body (data_offset + 2);
          actual_current \<leftarrow> read_uint16_le body (data_offset + 4);
          force_value \<leftarrow> read_uint16_le body (data_offset + 6);
          force_raw \<leftarrow> read_uint16_le body (data_offset + 8);
          temperature \<leftarrow> rd body (data_offset + 10);
          fault_code \<leftarrow> rd body (data_offset + 11);
          Some (Some \<lparr>ms_motor_id = motor_id, ms_target_position = target_position,
            ms_actual_position = actual_position, ms_actual_current = actual_current,
            ms_force_value = force_value, ms_force_raw = force_raw, ms_temperature = temperature,
            ms_fault_code = fault_code, ms_timestamp = now\<rparr>) } })"

definition parse_encoder_data :: "Packet \<Rightarrow> time \<Rightarrow> EncoderData option ub" where
  "parse_encoder_data packet now =
     (let body = pkt_body packet in
      if pkt_module_id packet \<noteq> MODULE_ID \<or> pkt_target packet \<noteq> TARGET_ENCODER then Some None
      else if length body < 32 then Some None
      else do {
        adc_values \<leftarrow> traverse (\<lambda>i. read_uint16_be body (i * 2)) [0..<NUM_ENCODER_CHANNELS];
        Some (Some \<lparr>ed_adc_values = adc_values, ed_timestamp = now\<rparr>) })"

definition parse_imu_data :: "Packet \<Rightarrow> time \<Rightarrow> ImuData option ub" where
  "parse_imu_data packet now =
     (let body = pkt_body packet in
      if pkt_module_id packet \<noteq> MODULE_ID then Some None
      else if length body < 12 then Some None
      else do {
        roll \<leftarrow> read_float_be body 0;
        pitch \<leftarrow> read_float_be body 4;
        yaw \<leftarrow> read_float_be body 8;
        Some (Some \<lparr>imu_roll = roll, imu_pitch = pitch, imu_yaw = yaw, imu_timestamp = now\<rparr>) })"

section \<open>Bytes of integers and back\<close>

definition le_bytes :: "u16 \<Rightarrow> u8 list" where
  "le_bytes v = [ucast v, ucast (drop_bit 8 v)]"

definition be_bytes :: "u16 \<Rightarrow> u8 list" where
  "be_bytes v = [ucast (drop_bit 8 v), ucast v]"

definition float_bytes :: "f32 \<Rightarrow> u8 list" where
  "float_bytes v = [ucast (drop_bit 24 v), ucast (drop_bit 16 v), ucast (drop_bit 8 v), ucast v]"

lemma write_uint16_le_eq [byte_simps]: "write_uint16_le data v = data @ le_bytes v"
  by (simp add: write_uint16_le_def le_bytes_def)

lemma length_bytes [simp]:
  "length (le_bytes v) = 2" "length (be_bytes v) = 2" "length (float_bytes w) = 4"
  by (simp_all add: le_bytes_def be_bytes_def float_bytes_def)

text \<open>The code's shift-and-or expressions are the concatenation of the two bytes.\<close>

lemma u16_of_bytes [byte_simps]:
  "(ucast ((ucast (lo :: u8) :: u32) OR push_bit 8 (ucast (hi :: u8))) :: u16) = word_cat hi lo"
  "(ucast (push_bit 8 (ucast (hi :: u8) :: u32) OR ucast (lo :: u8)) :: u16) = word_cat hi lo"
  by (rule bit_word_eqI; auto simp: bit_simps bit_word_cat_iff dest: bit_imp_le_length)+

lemma word_cat_split [byte_simps]:
  "word_cat (ucast (drop_bit 8 (v :: u16)) :: u8) (ucast v :: u8) = v"
  by (rule bit_word_eqI) (auto simp: bit_simps bit_word_cat_iff)

lemma unat_word_cat_bytes: "unat (word_cat (hi :: u8) (lo :: u8) :: u16) = unat lo + 256 * unat hi"
proof -
  have lt: "uint lo < 256" "uint hi < 256" "0 \<le> uint lo" "0 \<le> uint hi"
    using uint_lt2p [of lo] uint_lt2p [of hi] by simp_all
  have "uint (word_cat hi lo :: u16) = (uint lo + 256 * uint hi) mod 65536"
    using lt unfolding word_cat_eq'
    by (simp add: uint_word_of_int concat_bit_eq take_bit_eq_mod push_bit_eq_mult mult.commute
        del: of_int_add)
  also have "\<dots> = uint lo + 256 * uint hi"
    using lt by (intro mod_pos_pos_trivial) simp_all
  finally have "int (unat (word_cat hi lo :: u16)) = int (unat lo + 256 * unat hi)" by simp
  then show ?thesis by (simp only: of_nat_eq_iff)
qed

lemma float_of_bytes [byte_simps]:
  "push_bit 24 (ucast (ucast (drop_bit 24 v) :: u8)) OR push_bit 16 (ucast (ucast (drop_bit 16 v) :: u8))
   OR push_bit 8 (ucast (ucast (drop_bit 8 v) :: u8)) OR ucast (ucast v :: u8) = (v :: f32)" (is "?l = _")
proof (rule bit_word_eqI)
  fix n assume n: "n < LENGTH(32)"
  consider "n < 8" | "8 \<le> n" "n < 16" | "16 \<le> n" "n < 24" | "24 \<le> n" by linarith
  then show "bit ?l n = bit v n" using n by cases (auto simp: bit_simps)
qed

lemma read_uint16_le_eq [ub_simps]:
  "i + 1 < length data \<Longrightarrow> read_uint16_le data i = Some (word_cat (data ! (i + 1)) (data ! i))"
  by (simp add: read_uint16_le_def byte_simps)

lemma read_uint16_be_eq [ub_simps]:
  "i + 1 < length data \<Longrightarrow> read_uint16_be data i = Some (word_cat (data ! i) (data ! (i + 1)))"
  by (simp add: read_uint16_be_def byte_simps)

lemma read_float_be_defined:
  "i + 3 < length data \<Longrightarrow> \<exists>v. read_float_be data i = Some v"
  by (simp add: read_float_be_def)

lemma read_float_be_append [byte_simps]:
  "read_float_be (xs @ float_bytes v @ ys) (length xs) = Some v"
  by (simp add: read_float_be_def float_bytes_def nth_append byte_simps)

section \<open>The encoders in closed form\<close>

definition motor_packet :: "u8 \<Rightarrow> u8 list \<Rightarrow> Packet" where
  "motor_packet cmd payload =
     (let p = Packet_default\<lparr>pkt_length := of_nat (length payload + 5),
                pkt_target := TARGET_MOTOR, pkt_command := cmd,
                pkt_body := [0x55, 0xAA] @ payload @ [sum_list payload]\<rparr>
      in p\<lparr>pkt_checksum := outer_sum p\<rparr>)"

definition plain_packet :: "u8 \<Rightarrow> u8 list \<Rightarrow> Packet" where
  "plain_packet tgt bytes =
     (let p = Packet_default\<lparr>pkt_length := of_nat (length bytes + 2), pkt_target := tgt,
                pkt_body := bytes\<rparr>
      in p\<lparr>pkt_checksum := outer_sum p\<rparr>)"

lemma seal_inner_request:
  "seal_inner (a # b # payload @ [0]) = Some (a # b # payload @ [sum_list payload])"
  by (simp add: seal_inner_def calculate_motor_checksum_in)

lemma finish_packet_eq:
  "finish_packet p = (let p = p\<lparr>pkt_length := 2 + of_nat (length (pkt_body p))\<rparr>
     in Some (p\<lparr>pkt_checksum := outer_sum p\<rparr>))"
  by (simp add: finish_packet_def calculate_checksum_serialize Let_def)

lemmas encoder_defs = encode_read_motor_id_def encode_read_motor_status_def
  encode_set_motor_mode_def encode_set_motor_position_def encode_set_motor_force_def
  encode_set_motor_speed_def encode_read_all_encoders_def encode_read_imu_def

lemmas encoder_simps = encoder_defs frame_consts target_consts command_consts finish_packet_eq
  Let_def Packet_default_def write_uint16_le_eq le_bytes_def

lemma encode_read_motor_id_eq: "encode_read_motor_id i =
  Some (motor_packet CMD_READ_MOTOR_ID [0x04, i, 0x31, 0x16, 0x00, 0x01])"
  using seal_inner_request [of "0x55" "0xAA" "[0x04, i, 0x31, 0x16, 0x00, 0x01]"]
  by (simp add: encoder_simps motor_packet_def)

lemma encode_read_motor_status_eq: "encode_read_motor_status i =
  Some (motor_packet CMD_READ_STATUS [0x03, i, 0x30, 0x00, 0x00])"
  using seal_inner_request [of "0x55" "0xAA" "[0x03, i, 0x30, 0x00, 0x00]"]
  by (simp add: encoder_simps motor_packet_def)

lemma encode_set_motor_mode_eq: "encode_set_motor_mode i m =
  Some (motor_packet CMD_SET_MODE ([0x05, i, 0x32, 0x25, 0x00] @ le_bytes (ucast m)))"
  using seal_inner_request [of "0x55" "0xAA" "[0x05, i, 0x32, 0x25, 0x00] @ le_bytes (ucast m)"]
  by (simp add: encoder_simps motor_packet_def)

lemma encode_set_motor_position_eq: "encode_set_motor_position i v =
  Some (motor_packet CMD_SET_POSITION ([0x05, i, 0x32, 0x29, 0x00] @ le_bytes v))"
  using seal_inner_request [of "0x55" "0xAA" "[0x05, i, 0x32, 0x29, 0x00] @ le_bytes v"]
  by (simp add: encoder_simps motor_packet_def)

lemma encode_set_motor_force_eq: "encode_set_motor_force i v =
  Some (motor_packet CMD_SET_FORCE ([0x05, i, 0x32, 0x27, 0x00] @ le_bytes v))"
  using seal_inner_request [of "0x55" "0xAA" "[0x05, i, 0x32, 0x27, 0x00] @ le_bytes v"]
  by (simp add: encoder_simps motor_packet_def)

lemma encode_set_motor_speed_eq: "encode_set_motor_speed i s v =
  Some (motor_packet CMD_SET_SPEED ([0x07, i, 0x32, 0x28, 0x00] @ le_bytes s @ le_bytes v))"
  using seal_inner_request [of "0x55" "0xAA" "[0x07, i, 0x32, 0x28, 0x00] @ le_bytes s @ le_bytes v"]
  by (simp add: encoder_simps motor_packet_def)

lemma encode_read_all_encoders_eq:
  "encode_read_all_encoders = Some (plain_packet TARGET_ENCODER [0xFF, 0xFF])"
  by (simp add: encoder_simps plain_packet_def)

lemma encode_read_imu_eq: "encode_read_imu = Some (plain_packet TARGET_IMU [])"
  by (simp add: encoder_simps plain_packet_def)

lemmas encode_eqs [ub_simps] = encode_read_motor_id_eq encode_read_motor_status_eq
  encode_set_motor_mode_eq encode_set_motor_position_eq encode_set_motor_force_eq
  encode_set_motor_speed_eq encode_read_all_encoders_eq encode_read_imu_eq

lemma wf_motor_packet:
  assumes "length payload \<le> 250"
  shows "wf_packet (motor_packet cmd payload)"
proof -
  have "unat (of_nat (length payload + 5) :: u8) = length payload + 5"
    by (rule unat_of_nat_u8) (use assms in simp)
  then show ?thesis
    by (simp add: wf_packet_def motor_packet_def Let_def Packet_default_def frame_consts
        outer_sum_def inner_ok_def butlast_append)
qed

text \<open>The documented frame: header, length, module, target, command, inner packet, checksum, tail.\<close>

definition motor_frame :: "u8 \<Rightarrow> u8 \<Rightarrow> u8 list \<Rightarrow> u8 list" where
  "motor_frame len cmd data =
     (let inner = [0x55, 0xAA] @ data @ [sum_list data];
          front = [0xEE, len, 0x01, 0x01, cmd] @ inner
      in front @ [sum_list front, 0x7E])"

lemma serialize_motor_packet:
  "serialize (motor_packet cmd data) = motor_frame (of_nat (length data + 5)) cmd data"
  by (simp add: serialize_def motor_packet_def motor_frame_def Let_def Packet_default_def
      frame_consts target_consts outer_sum_def add.assoc del: of_nat_add of_nat_Suc)

lemma wf_plain_packet:
  assumes "length bytes \<le> 253" and "\<not> motor_header bytes"
  shows "wf_packet (plain_packet tgt bytes)"
proof -
  have "unat (of_nat (length bytes + 2) :: u8) = length bytes + 2"
    by (rule unat_of_nat_u8) (use assms in simp)
  then show ?thesis using assms(2)
    by (simp add: wf_packet_def plain_packet_def Let_def Packet_default_def frame_consts
        outer_sum_def inner_ok_def)
qed

lemma motor_packet_inject [simp]:
  "motor_packet c xs = motor_packet d ys \<longleftrightarrow> c = d \<and> xs = ys"
  by (auto simp: motor_packet_def Let_def dest: arg_cong [of _ _ pkt_body] arg_cong [of _ _ pkt_command])

lemma motor_packet_neq_plain [simp]:
  "tgt \<noteq> TARGET_MOTOR \<Longrightarrow> motor_packet c xs \<noteq> plain_packet tgt bytes"
  "tgt \<noteq> TARGET_MOTOR \<Longrightarrow> plain_packet tgt bytes \<noteq> motor_packet c xs"
  by (auto simp: motor_packet_def plain_packet_def Let_def dest!: arg_cong [of _ _ pkt_target])

lemma le_bytes_inject [simp]: "le_bytes v = le_bytes w \<longleftrightarrow> v = w"
  by (metis le_bytes_def list.inject word_cat_split)

section \<open>The requests as a language\<close>

text \<open>
  The requests the SDK can send, and the encoder each one stands for. No two of them are the same
  bytes on the wire.
\<close>

datatype request = Read_Motor_Id u8 | Read_Status u8 | Set_Mode u8 u8 | Set_Position u8 u16
  | Set_Force u8 u16 | Set_Speed u8 u16 u16 | Read_Encoders | Read_Imu

fun encode_request :: "request \<Rightarrow> Packet ub" where
  "encode_request (Read_Motor_Id i) = encode_read_motor_id i"
| "encode_request (Read_Status i) = encode_read_motor_status i"
| "encode_request (Set_Mode i m) = encode_set_motor_mode i m"
| "encode_request (Set_Position i v) = encode_set_motor_position i v"
| "encode_request (Set_Force i v) = encode_set_motor_force i v"
| "encode_request (Set_Speed i s v) = encode_set_motor_speed i s v"
| "encode_request Read_Encoders = encode_read_all_encoders"
| "encode_request Read_Imu = encode_read_imu"

fun request_size :: "request \<Rightarrow> nat" where
  "request_size (Read_Motor_Id i) = 16"
| "request_size (Read_Status i) = 15"
| "request_size (Set_Mode i m) = 17"
| "request_size (Set_Position i v) = 17"
| "request_size (Set_Force i v) = 17"
| "request_size (Set_Speed i s v) = 19"
| "request_size Read_Encoders = 9"
| "request_size Read_Imu = 7"

lemma ucast_u16_u8_inject: "(ucast (m :: u8) :: u16) = ucast m' \<longleftrightarrow> m = m'"
proof -
  have "(ucast (ucast k :: u16) :: u8) = k" for k :: u8 by transfer simp
  then show ?thesis by metis
qed

lemma byte_of_byte:
  "(ucast (ucast (m :: u8) :: u16) :: u8) = m"
  "(ucast (drop_bit 8 (ucast (m :: u8) :: u16)) :: u8) = 0"
  by (transfer; simp add: drop_bit_take_bit)+

lemma targets_distinct: "TARGET_ENCODER \<noteq> TARGET_MOTOR" "TARGET_IMU \<noteq> TARGET_MOTOR"
  by (simp_all add: target_consts)

lemma plain_packet_eq_iff:
  "plain_packet TARGET_IMU xs \<noteq> plain_packet TARGET_ENCODER ys"
  "plain_packet TARGET_ENCODER xs \<noteq> plain_packet TARGET_IMU ys"
  by (auto simp: plain_packet_def Let_def target_consts dest!: arg_cong [of _ _ pkt_target])

lemma encode_request_inject: "encode_request r = encode_request r' \<longleftrightarrow> r = r'"
  by (cases r; cases r')
    (simp_all add: encode_eqs command_consts ucast_u16_u8_inject plain_packet_eq_iff targets_distinct)

lemma encode_request_wf: "\<exists>p. encode_request r = Some p \<and> wf_packet p"
  by (cases r) (simp_all add: encode_eqs wf_motor_packet wf_plain_packet motor_header_def)

lemma encode_request_size: "encode_request r = Some p \<Longrightarrow> length (serialize p) = request_size r"
  by (cases r)
    (auto simp: encode_eqs motor_packet_def plain_packet_def Let_def Packet_default_def)

section \<open>Properties\<close>

text \<open>
  C19. Every request the SDK can build is defined, has the size the protocol gives it, and is accepted
  unchanged by the SDK's own parser: length field, inner and outer checksum are all consistent.
\<close>

theorem request_roundtrip:
  "\<exists>p. encode_request r = Some p \<and> length (serialize p) = request_size r
     \<and> deserialize (serialize p) = Some (Some p)"
  using encode_request_wf [of r] encode_request_size deserialize_serialize by blast

text \<open>
  The request language is unambiguous: two requests with the same bytes on the wire are the same
  command with the same motor and the same parameters.
\<close>

lemma requests_unambiguous:
  "map_option serialize (encode_request r) = map_option serialize (encode_request r') \<longleftrightarrow> r = r'"
proof -
  have "inj serialize" by (metis injI unpack_frame_serialize)
  then show ?thesis
    using encode_request_inject [of r r'] by (metis option.inj_map_strong injD)
qed

text \<open>
  The bytes of the parameterised motor commands, as PROTOCOL.md lays them out: \<open>motor_frame\<close>
  with the documented length byte, command byte and inner data (little-endian values behind the
  register address).
\<close>

lemma motor_command_bytes:
  "map_option serialize (encode_read_motor_id i) =
     Some (motor_frame 0x0B 0x10 [0x04, i, 0x31, 0x16, 0x00, 0x01])
   \<and> map_option serialize (encode_read_motor_status i) =
     Some (motor_frame 0x0A 0x20 [0x03, i, 0x30, 0x00, 0x00])
   \<and> map_option serialize (encode_set_motor_mode i m) =
     Some (motor_frame 0x0C 0x30 [0x05, i, 0x32, 0x25, 0x00, m, 0x00])
   \<and> map_option serialize (encode_set_motor_position i v) =
     Some (motor_frame 0x0C 0x31 [0x05, i, 0x32, 0x29, 0x00, ucast v, ucast (drop_bit 8 v)])
   \<and> map_option serialize (encode_set_motor_force i v) =
     Some (motor_frame 0x0C 0x33 [0x05, i, 0x32, 0x27, 0x00, ucast v, ucast (drop_bit 8 v)])
   \<and> map_option serialize (encode_set_motor_speed i s v) =
     Some (motor_frame 0x0E 0x32 [0x07, i, 0x32, 0x28, 0x00, ucast s, ucast (drop_bit 8 s),
       ucast v, ucast (drop_bit 8 v)])"
  by (simp add: encode_eqs serialize_motor_packet command_consts le_bytes_def byte_of_byte)

text \<open>
  The worked examples of PROTOCOL.md section 3, byte for byte: read id and status of motor 1,
  mode 0, position 1000, force 2048, speed 500 to position 1000.
\<close>

lemma protocol_document_examples:
  "map_option serialize (encode_read_motor_id 1) = Some [0xEE, 0x0B, 0x01, 0x01, 0x10, 0x55, 0xAA,
     0x04, 0x01, 0x31, 0x16, 0x00, 0x01, 0x4D, 0xA4, 0x7E]
   \<and> map_option serialize (encode_read_motor_status 1) = Some [0xEE, 0x0A, 0x01, 0x01, 0x20, 0x55, 0xAA,
     0x03, 0x01, 0x30, 0x00, 0x00, 0x34, 0x81, 0x7E]
   \<and> map_option serialize (encode_set_motor_mode 1 0) = Some [0xEE, 0x0C, 0x01, 0x01, 0x30, 0x55, 0xAA,
     0x05, 0x01, 0x32, 0x25, 0x00, 0x00, 0x00, 0x5D, 0xE5, 0x7E]
   \<and> map_option serialize (encode_set_motor_position 1 1000) = Some [0xEE, 0x0C, 0x01, 0x01, 0x31, 0x55,
     0xAA, 0x05, 0x01, 0x32, 0x29, 0x00, 0xE8, 0x03, 0x4C, 0xC4, 0x7E]
   \<and> map_option serialize (encode_set_motor_force 1 2048) = Some [0xEE, 0x0C, 0x01, 0x01, 0x33, 0x55,
     0xAA, 0x05, 0x01, 0x32, 0x27, 0x00, 0x00, 0x08, 0x67, 0xFC, 0x7E]
   \<and> map_option serialize (encode_set_motor_speed 1 500 1000) = Some [0xEE, 0x0E, 0x01, 0x01, 0x32, 0x55,
     0xAA, 0x07, 0x01, 0x32, 0x28, 0x00, 0xF4, 0x01, 0xE8, 0x03, 0x42, 0xB3, 0x7E]"
  by (intro conjI; code_simp)

end
