(* ===== verification/Responses.thy ===== *)
theory Responses
  imports Codec
begin

text \<open>
  The response side of the codec: what each parser of \<open>ProtocolCodec\<close> returns on every packet, the
  frames a device sends (as the parsers expect them, as PROTOCOL.md documents them, and as the
  firmware workarounds of \<open>deserialize\<close> describe them), and what becomes of each of them on the way
  from the wire to the parsed value.
\<close>

section \<open>The parsers in closed form\<close>

definition motor_reply_shape :: "Packet \<Rightarrow> bool" where
  "motor_reply_shape p \<longleftrightarrow> pkt_module_id p = 0x01 \<and> pkt_target p = 0x01
     \<and> 18 \<le> length (pkt_body p) \<and> pkt_body p ! 0 = 0xAA \<and> pkt_body p ! 1 = 0x55"

definition status_of_body :: "u8 list \<Rightarrow> time \<Rightarrow> MotorStatus" where
  "status_of_body b now = \<lparr>ms_motor_id = b ! 3,
     ms_target_position = word_cat (b ! 8) (b ! 7), ms_actual_position = word_cat (b ! 10) (b ! 9),
     ms_actual_current = word_cat (b ! 12) (b ! 11), ms_force_value = word_cat (b ! 14) (b ! 13),
     ms_force_raw = word_cat (b ! 16) (b ! 15), ms_temperature = b ! 17, ms_fault_code = b ! 18,
     ms_timestamp = now\<rparr>"

lemma parse_motor_status_eq:
  "parse_motor_status p now =
    (if \<not> motor_reply_shape p then Some None
     else if length (pkt_body p) = 18 then None
     else Some (Some (status_of_body (pkt_body p) now)))"
proof (cases "18 \<le> length (pkt_body p)")
  case True
  let ?b = "pkt_body p"
  have r: "rd ?b 0 = Some (?b ! 0)" "rd ?b 1 = Some (?b ! 1)" "rd ?b 3 = Some (?b ! 3)"
    "rd ?b 17 = Some (?b ! 17)"
    by (rule rd_within [OF True], simp)+
  have r18: "rd ?b 18 = (if length ?b = 18 then None else Some (?b ! 18))"
    using True by (simp add: rd_def)
  show ?thesis
    using True r r18
    by (simp add: parse_motor_status_def motor_reply_shape_def status_of_body_def Let_def
        frame_consts target_consts read_uint16_le_eq)
next
  case False
  then show ?thesis
    by (simp add: parse_motor_status_def motor_reply_shape_def Let_def)
qed

definition encoder_reply_shape :: "Packet \<Rightarrow> bool" where
  "encoder_reply_shape p \<longleftrightarrow> pkt_module_id p = 0x01 \<and> pkt_target p = 0x02
     \<and> 32 \<le> length (pkt_body p)"

definition adc_of_body :: "u8 list \<Rightarrow> u16 list" where
  "adc_of_body b = map (\<lambda>i. word_cat (b ! (i * 2)) (b ! (i * 2 + 1))) [0..<16]"

lemma length_adc_of_body [simp]: "length (adc_of_body b) = 16"
  by (simp add: adc_of_body_def)

lemma parse_encoder_data_eq:
  "parse_encoder_data p now =
    Some (if encoder_reply_shape p
          then Some \<lparr>ed_adc_values = adc_of_body (pkt_body p), ed_timestamp = now\<rparr> else None)"
proof (cases "32 \<le> length (pkt_body p)")
  case True
  then have "traverse (\<lambda>i. read_uint16_be (pkt_body p) (i * 2)) [0..<16]
      = Some (adc_of_body (pkt_body p))"
    unfolding adc_of_body_def by (intro traverse_total) (auto simp: read_uint16_be_eq)
  then show ?thesis using True
    by (simp add: parse_encoder_data_def encoder_reply_shape_def Let_def frame_consts target_consts
        NUM_ENCODER_CHANNELS_def)
next
  case False
  then show ?thesis by (simp add: parse_encoder_data_def encoder_reply_shape_def Let_def)
qed

definition imu_reply_shape :: "Packet \<Rightarrow> bool" where
  "imu_reply_shape p \<longleftrightarrow> pkt_module_id p = 0x01 \<and> 12 \<le> length (pkt_body p)"

definition float_at :: "u8 list \<Rightarrow> nat \<Rightarrow> f32" where
  "float_at b i = push_bit 24 (ucast (b ! i)) OR push_bit 16 (ucast (b ! (i + 1)))
     OR push_bit 8 (ucast (b ! (i + 2))) OR ucast (b ! (i + 3))"

lemma read_float_be_eq [ub_simps]:
  "i + 3 < length data \<Longrightarrow> read_float_be data i = Some (float_at data i)"
  by (simp add: read_float_be_def float_at_def)

lemma parse_imu_data_eq:
  "parse_imu_data p now =
    Some (if imu_reply_shape p
          then Some \<lparr>imu_roll = float_at (pkt_body p) 0, imu_pitch = float_at (pkt_body p) 4,
                 imu_yaw = float_at (pkt_body p) 8, imu_timestamp = now\<rparr> else None)"
  by (cases "12 \<le> length (pkt_body p)")
    (simp_all add: parse_imu_data_def imu_reply_shape_def Let_def frame_consts read_float_be_eq)

section \<open>Device frames\<close>

text \<open>A frame with a correct outer checksum, for any length and target byte.\<close>

definition device_frame :: "u8 \<Rightarrow> u8 \<Rightarrow> u8 \<Rightarrow> u8 list \<Rightarrow> u8 list" where
  "device_frame len target cmd body =
     (let front = [0xEE, len, 0x01, target, cmd] @ body in front @ [sum_list front, 0x7E])"

definition device_packet :: "u8 \<Rightarrow> u8 \<Rightarrow> u8 \<Rightarrow> u8 list \<Rightarrow> Packet" where
  "device_packet len target cmd body =
     (let front = [0xEE, len, 0x01, target, cmd] @ body
      in \<lparr>pkt_header = 0xEE, pkt_length = len, pkt_module_id = 0x01, pkt_target = target,
          pkt_command = cmd, pkt_body = body, pkt_checksum = sum_list front, pkt_tail = 0x7E\<rparr>)"

lemma device_frame_serialize: "device_frame len target cmd body = serialize (device_packet len target cmd body)"
  by (simp add: device_frame_def device_packet_def serialize_def Let_def)

lemma device_packet_sel [simp]:
  "pkt_module_id (device_packet len target cmd body) = 0x01"
  "pkt_target (device_packet len target cmd body) = target"
  "pkt_body (device_packet len target cmd body) = body"
  by (simp_all add: device_packet_def Let_def)

lemma deserialize_device_frame:
  assumes "inner_ok body"
    and "unat len = length body + 2 \<or> target = 0x02 \<and> (len = 0x11 \<or> len = 0x25)"
  shows "deserialize (device_frame len target cmd body) =
    Some (Some (device_packet len target cmd body))"
proof -
  let ?p = "device_packet len target cmd body"
  let ?d = "serialize ?p"
  have d: "?d ! 0 = 0xEE" "?d ! 1 = len" "?d ! 2 = 0x01" "?d ! 3 = target"
    "?d ! (length ?d - 2) = outer_sum ?p" "?d ! (length ?d - 1) = 0x7E" "frame_body ?d = body"
    by (simp_all add: serialize_def device_packet_def Let_def nth_append outer_sum_def frame_body_def
        add.assoc)
  have "length_ok ?d" "outer_ok ?d"
    using assms(2) d sum_take_serialize [of ?p]
    by (auto simp: exempt_frames is_imu_response_def is_encoder_response_def frame_consts)
  then have "frame_ok ?d"
    using d assms(1) by (simp add: frame_ok_def)
  then show ?thesis
    by (simp add: device_frame_serialize deserialize_eq)
qed

text \<open>The motor status reply as the parser reads it: a 20-byte inner packet behind target and command.\<close>

definition status_payload :: "MotorStatus \<Rightarrow> u8 list" where
  "status_payload s = [ms_motor_id s, 0x30, 0x00, 0x00] @ le_bytes (ms_target_position s)
     @ le_bytes (ms_actual_position s) @ le_bytes (ms_actual_current s) @ le_bytes (ms_force_value s)
     @ le_bytes (ms_force_raw s) @ [ms_temperature s, ms_fault_code s]"

definition status_body :: "MotorStatus \<Rightarrow> u8 list" where
  "status_body s = [0xAA, 0x55, 0x0F] @ status_payload s @ [0x0F + sum_list (status_payload s)]"

lemma length_status_body [simp]: "length (status_body s) = 20"
  by (simp add: status_body_def status_payload_def)

lemma inner_ok_status_body: "inner_ok (status_body s)"
  by (simp add: inner_ok_def status_body_def butlast_append)

lemma status_of_status_body:
  "status_of_body (status_body s) now = s\<lparr>ms_timestamp := now\<rparr>"
  by (simp add: status_of_body_def status_body_def status_payload_def le_bytes_def word_cat_split)

text \<open>
  The status reply of PROTOCOL.md section 3.1: 25 bytes, length 0x14, and no target and command bytes
  between the module id and the motor header.
\<close>

definition documented_status_reply :: "MotorStatus \<Rightarrow> u8 list" where
  "documented_status_reply s =
     (let front = [0xEE, 0x14, 0x01] @ status_body s in front @ [sum_list front, 0x7E])"

lemma documented_status_reply_frame:
  "documented_status_reply s = device_frame 0x14 0xAA 0x55 (drop 2 (status_body s))"
  by (simp add: documented_status_reply_def device_frame_def status_body_def Let_def)

text \<open>
  All replies to motor requests have that form in sections 3.0 to 3.5: the length byte is the size of the inner
  packet, which stands right behind the module id; the inner packet of motor \<open>i\<close> carries the instruction
  byte, the register and the data.
\<close>

definition motor_reply :: "u8 \<Rightarrow> u8 list \<Rightarrow> u8 list" where
  "motor_reply i data = (let body = [of_nat (length data), i] @ data in [0xAA, 0x55] @ body @ [sum_list body])"

definition documented_motor_reply :: "u8 list \<Rightarrow> u8 list" where
  "documented_motor_reply inner = (let front = [0xEE, of_nat (length inner), 0x01] @ inner in front @ [sum_list front, 0x7E])"

definition status_fields :: "MotorStatus \<Rightarrow> u8 list" where
  "status_fields s = le_bytes (ms_target_position s) @ le_bytes (ms_actual_position s) @ le_bytes (ms_actual_current s)
     @ le_bytes (ms_force_value s) @ le_bytes (ms_force_raw s) @ [ms_temperature s, ms_fault_code s]"

lemma length_status_fields [simp]: "length (status_fields s) = 12"
  by (simp add: status_fields_def)

lemma documented_status_reply_eq:
  "documented_status_reply s = documented_motor_reply (motor_reply (ms_motor_id s) ([0x30, 0x00, 0x00] @ status_fields s))"
  by (simp add: documented_status_reply_def documented_motor_reply_def motor_reply_def status_body_def status_payload_def
      status_fields_def Let_def add.assoc)

text \<open>Encoder replies: sixteen big-endian ADC values.\<close>

definition encoder_body :: "u16 list \<Rightarrow> u8 list" where
  "encoder_body vs = concat (map be_bytes vs)"

lemma length_encoder_body [simp]: "length (encoder_body vs) = 2 * length vs"
  by (induction vs) (simp_all add: encoder_body_def)

lemma encoder_body_Cons: "encoder_body (v # vs) = be_bytes v @ encoder_body vs"
  by (simp add: encoder_body_def)

lemma encoder_body_nth:
  "i < length vs \<Longrightarrow> encoder_body vs ! (i * 2) = ucast (drop_bit 8 (vs ! i))"
  "i < length vs \<Longrightarrow> encoder_body vs ! Suc (i * 2) = ucast (vs ! i)"
  by (induction vs arbitrary: i)
    (auto simp: encoder_body_Cons be_bytes_def nth_Cons split: nat.splits)

lemma adc_of_encoder_body:
  assumes "length vs = 16"
  shows "adc_of_body (encoder_body vs) = vs"
proof -
  have "adc_of_body (encoder_body vs) = map ((!) vs) [0..<16]"
    unfolding adc_of_body_def
    by (rule map_cong) (use assms in \<open>simp_all add: encoder_body_nth word_cat_split\<close>)
  then show ?thesis using assms by (metis map_nth)
qed

lemma be_bytes_motor_mark:
  "ucast (drop_bit 8 v) = (0x55 :: u8) \<and> ucast v = (0xAA :: u8) \<longleftrightarrow> v = (0x55AA :: u16)"
  "ucast (drop_bit 8 v) = (0xAA :: u8) \<and> ucast v = (0x55 :: u8) \<longleftrightarrow> v = (0xAA55 :: u16)"
proof -
  have "word_cat (0x55 :: u8) (0xAA :: u8) = (0x55AA :: u16)"
    "word_cat (0xAA :: u8) (0x55 :: u8) = (0xAA55 :: u16)"
    by code_simp+
  moreover have "ucast (drop_bit 8 (0x55AA :: u16)) = (0x55 :: u8)" "ucast (0x55AA :: u16) = (0xAA :: u8)"
    "ucast (drop_bit 8 (0xAA55 :: u16)) = (0xAA :: u8)" "ucast (0xAA55 :: u16) = (0x55 :: u8)"
    by code_simp+
  ultimately show
    "ucast (drop_bit 8 v) = (0x55 :: u8) \<and> ucast v = (0xAA :: u8) \<longleftrightarrow> v = (0x55AA :: u16)"
    "ucast (drop_bit 8 v) = (0xAA :: u8) \<and> ucast v = (0x55 :: u8) \<longleftrightarrow> v = (0xAA55 :: u16)"
    by (metis word_cat_split)+
qed

lemma motor_header_encoder_body:
  "length vs = 15 \<Longrightarrow> motor_header (encoder_body (v # vs)) \<longleftrightarrow> v = 0x55AA \<or> v = 0xAA55"
  by (simp add: motor_header_def encoder_body_Cons be_bytes_motor_mark [symmetric])
    (simp add: be_bytes_def)

lemma encoder_body_tail:
  "last (encoder_body (v # vs)) = ucast (last (v # vs))"
  "drop 2 (encoder_body (v # vs)) = encoder_body vs"
proof -
  show "drop 2 (encoder_body (v # vs)) = encoder_body vs"
    by (simp add: encoder_body_Cons)
  have "last (encoder_body (us @ [u])) = ucast u" for us u
    by (simp add: encoder_body_def be_bytes_def)
  from this [of "butlast (v # vs)" "last (v # vs)"]
  show "last (encoder_body (v # vs)) = ucast (last (v # vs))"
    by (simp only: append_butlast_last_id [OF list.distinct(2)])
qed

text \<open>IMU replies: three big-endian floats, behind the header the firmware really sends.\<close>

definition imu_body :: "f32 \<Rightarrow> f32 \<Rightarrow> f32 \<Rightarrow> u8 list" where
  "imu_body r p y = float_bytes r @ float_bytes p @ float_bytes y"

lemma length_imu_body [simp]: "length (imu_body r p y) = 12"
  by (simp add: imu_body_def)

definition firmware_imu_frame :: "u8 list \<Rightarrow> u8 list" where
  "firmware_imu_frame body = [0xEE, 0x11, 0x01, 0x02, 0x00] @ body @ [0x3A, 0x7E]"

lemma float_at_imu_body:
  "float_at (imu_body r p y) 0 = r" "float_at (imu_body r p y) 4 = p" "float_at (imu_body r p y) 8 = y"
  by (simp_all add: float_at_def imu_body_def float_bytes_def float_of_bytes)

section \<open>Properties\<close>

text \<open>
  C2. \<open>parse_motor_status\<close> on every packet. It rejects other modules and targets, bodies below 18
  bytes and bodies without the response header; from 19 bytes on it returns the eight fields at their
  documented offsets; and on a body of exactly 18 bytes, which its size check lets through, it reads
  \<open>body[18]\<close> outside the vector.
\<close>

theorem parse_motor_status_spec:
  "parse_motor_status p now =
    (if \<not> motor_reply_shape p then Some None
     else if length (pkt_body p) = 18 then None
     else Some (Some (status_of_body (pkt_body p) now)))"
  by (rule parse_motor_status_eq)

text \<open>
  The out-of-bounds read is reachable from the network: a frame with an 18-byte inner packet, the
  size the comment above the check calls expected, passes \<open>deserialize\<close> with every checksum right,
  and parsing it is undefined, whatever its 15 data bytes.
\<close>

lemma short_status_reply_overreads:
  assumes "length xs = 15"
  shows "\<exists>p. deserialize (device_frame 0x14 0x01 0x20 ([0xAA, 0x55] @ xs @ [sum_list xs]))
             = Some (Some p)
           \<and> parse_motor_status p now = None"
proof -
  let ?body = "[0xAA, 0x55] @ xs @ [sum_list xs]"
  have "inner_ok ?body" by (simp add: inner_ok_def butlast_append)
  then have "deserialize (device_frame 0x14 0x01 0x20 ?body)
      = Some (Some (device_packet 0x14 0x01 0x20 ?body))"
    using assms by (intro deserialize_device_frame) simp_all
  moreover have "parse_motor_status (device_packet 0x14 0x01 0x20 ?body) now = None"
    using assms by (simp add: parse_motor_status_eq motor_reply_shape_def)
  ultimately show ?thesis by blast
qed

lemma short_status_reply_overreads_instance:
  "\<exists>p. deserialize (device_frame 0x14 0x01 0x20 ([0xAA, 0x55] @ replicate 15 0 @ [sum_list (replicate 15 0)]))
       = Some (Some p)
     \<and> parse_motor_status p 7 = None"
  by (rule short_status_reply_overreads) simp

text \<open>
  Status round trip: a reply with the full inner packet behind target and command (length byte
  0x16) comes out of \<open>deserialize\<close> and \<open>parse_motor_status\<close> as the status it was built from.
\<close>

lemma motor_status_roundtrip:
  "\<exists>p. deserialize (device_frame 0x16 0x01 cmd (status_body s)) = Some (Some p)
     \<and> parse_motor_status p now = Some (Some (s\<lparr>ms_timestamp := now\<rparr>))"
proof -
  have "deserialize (device_frame 0x16 0x01 cmd (status_body s))
      = Some (Some (device_packet 0x16 0x01 cmd (status_body s)))"
    by (intro deserialize_device_frame inner_ok_status_body) simp
  moreover have "motor_reply_shape (device_packet 0x16 0x01 cmd (status_body s))"
    by (simp add: motor_reply_shape_def) (simp add: status_body_def)
  ultimately show ?thesis
    by (auto simp: parse_motor_status_eq status_of_status_body)
qed

text \<open>
  The reply PROTOCOL.md documents is never understood: its 25 bytes pass \<open>deserialize\<close>, which
  takes the motor header for target and command, and \<open>parse_motor_status\<close> then rejects the packet,
  for every status.
\<close>

lemma documented_status_reply_rejected:
  "\<exists>p. deserialize (documented_status_reply s) = Some (Some p)
     \<and> parse_motor_status p now = Some None"
proof -
  let ?b = "drop 2 (status_body s)"
  have "inner_ok ?b"
    by (simp add: inner_ok_def motor_header_def) (simp add: status_body_def)
  then have "deserialize (documented_status_reply s) = Some (Some (device_packet 0x14 0xAA 0x55 ?b))"
    unfolding documented_status_reply_frame by (intro deserialize_device_frame) simp_all
  then show ?thesis
    by (simp add: parse_motor_status_eq motor_reply_shape_def)
qed

text \<open>
  So it is with every documented reply to a motor request: it is accepted as an answer, so that the commands succeed, and
  holds no status for the parser.
\<close>

lemma documented_motor_reply_accepted:
  assumes "length data \<le> 80"
  shows "\<exists>p. deserialize (documented_motor_reply (motor_reply i data)) = Some (Some p)
     \<and> parse_motor_status p now = Some None"
proof -
  define l n :: u8 where "l = of_nat (length data)" and "n = of_nat (length data + 5)"
  let ?b = "[l, i] @ data @ [l + (i + sum_list data)]"
  have frame: "documented_motor_reply (motor_reply i data) = device_frame n 0xAA 0x55 ?b"
    by (simp add: documented_motor_reply_def motor_reply_def device_frame_def l_def n_def Let_def add.assoc)
  have unats: "unat l = length data" "unat n = length ?b + 2"
    using assms by (simp_all only: l_def n_def) (simp_all add: unat_of_nat_u8 del: of_nat_add)
  have "x \<noteq> l" if "80 < unat x" for x using that unats(1) assms by auto
  from this [of "0x55"] this [of "0xAA"] have "l \<noteq> 0x55" "l \<noteq> 0xAA" by auto
  then have "inner_ok ?b" by (simp add: inner_ok_def motor_header_def)
  then have "deserialize (device_frame n 0xAA 0x55 ?b) = Some (Some (device_packet n 0xAA 0x55 ?b))"
    using unats(2) by (intro deserialize_device_frame) simp_all
  then show ?thesis unfolding frame by (simp add: parse_motor_status_eq motor_reply_shape_def)
qed

text \<open>
  Encoder round trip: sixteen ADC values sent big-endian, with the documented length byte or with
  the firmware's wrong one, come back in channel order, if channel 0 does not spell a motor header.
\<close>

lemma encoder_reply_roundtrip:
  assumes "length vs = 16" and "vs ! 0 \<noteq> 0x55AA" and "vs ! 0 \<noteq> 0xAA55"
    and "len = 0x22 \<or> len = 0x25"
  shows "\<exists>p. deserialize (device_frame len 0x02 0x00 (encoder_body vs)) = Some (Some p)
     \<and> parse_encoder_data p now = Some (Some \<lparr>ed_adc_values = vs, ed_timestamp = now\<rparr>)"
proof -
  obtain v ws where vs: "vs = v # ws" "length ws = 15"
    using assms(1) by (cases vs) auto
  then have "inner_ok (encoder_body vs)"
    using assms(2,3) by (simp add: inner_ok_def motor_header_encoder_body)
  then have "deserialize (device_frame len 0x02 0x00 (encoder_body vs))
      = Some (Some (device_packet len 0x02 0x00 (encoder_body vs)))"
    using assms(1,4) by (intro deserialize_device_frame) auto
  then show ?thesis
    using assms(1) by (simp add: parse_encoder_data_eq encoder_reply_shape_def adc_of_encoder_body)
qed

lemma encoder_reply_roundtrip_instance:
  "\<exists>p. deserialize (device_frame 0x25 0x02 0x00 (encoder_body (replicate 16 513))) = Some (Some p)
     \<and> parse_encoder_data p 9 = Some (Some \<lparr>ed_adc_values = replicate 16 513, ed_timestamp = 9\<rparr>)"
  by (rule encoder_reply_roundtrip) simp_all

text \<open>
  A legitimate encoder reading is lost: when channel 0 reads 0x55AA, the reply body starts like a
  motor packet, and \<open>deserialize\<close> drops the whole frame unless the low byte of channel 15 happens to
  be the inner checksum of the others.
\<close>

lemma encoder_reply_taken_for_motor:
  assumes "length vs = 15" and "len = 0x22 \<or> len = 0x25"
  shows "deserialize (device_frame len 0x02 0x00 (encoder_body (0x55AA # vs))) = Some None
     \<longleftrightarrow> ucast (last vs) \<noteq> sum_list (butlast (encoder_body vs))"
proof -
  let ?b = "encoder_body (0x55AA # vs)"
  let ?p = "device_packet len 0x02 0x00 ?b"
  have inner: "inner_ok ?b \<longleftrightarrow> ucast (last vs) = sum_list (butlast (encoder_body vs))"
    using assms(1) by (auto simp: inner_ok_def motor_header_encoder_body encoder_body_tail)
  have "frame_body (serialize ?p) = ?b" by (simp add: serialize_def frame_body_def)
  then have "\<not> inner_ok ?b \<Longrightarrow> deserialize (device_frame len 0x02 0x00 ?b) = Some None"
    by (simp add: device_frame_serialize deserialize_rejects_iff frame_ok_def)
  moreover have "inner_ok ?b \<Longrightarrow> deserialize (device_frame len 0x02 0x00 ?b) = Some (Some ?p)"
    using assms by (intro deserialize_device_frame) auto
  ultimately show ?thesis using inner by fastforce
qed

lemma encoder_reply_taken_for_motor_instance:
  "deserialize (device_frame 0x25 0x02 0x00 (encoder_body (0x55AA # replicate 15 257))) = Some None"
proof -
  have "ucast (last (replicate 15 257 :: u16 list)) \<noteq> sum_list (butlast (encoder_body (replicate 15 257)))"
    by code_simp
  then show ?thesis
    using encoder_reply_taken_for_motor [of "replicate 15 257" "0x25"] by simp
qed

text \<open>
  IMU round trip through the firmware workarounds: the reply with length byte 0x11, target 0x02 and
  the constant checksum 0x3A is accepted and its three floats come back bit for bit, NaN and infinity
  included, unless the roll value's first two bytes spell a motor header.
\<close>

lemma firmware_imu_roundtrip:
  assumes "\<not> motor_header (imu_body r p y)"
  shows "\<exists>pkt. deserialize (firmware_imu_frame (imu_body r p y)) = Some (Some pkt)
     \<and> parse_imu_data pkt now =
         Some (Some \<lparr>imu_roll = r, imu_pitch = p, imu_yaw = y, imu_timestamp = now\<rparr>)"
proof -
  let ?d = "firmware_imu_frame (imu_body r p y)"
  have body: "frame_body ?d = imu_body r p y"
    by (simp add: firmware_imu_frame_def frame_body_def)
  have "is_imu_response ?d" by (simp add: is_imu_response_def firmware_imu_frame_def frame_consts)
  moreover have "?d ! (length ?d - 1) = 0x7E" "?d ! 0 = 0xEE" "?d ! 2 = 0x01" "7 \<le> length ?d"
    by (simp_all add: firmware_imu_frame_def nth_append)
  ultimately have "deserialize ?d = Some (Some (unpack_frame ?d))"
    "imu_reply_shape (unpack_frame ?d)"
    using assms body by (simp_all add: deserialize_eq frame_ok_def exempt_frames
        inner_ok_def imu_reply_shape_def unpack_frame_def)
  moreover have "pkt_body (unpack_frame ?d) = imu_body r p y"
    using body by (simp add: unpack_frame_def)
  ultimately show ?thesis
    by (simp add: parse_imu_data_eq float_at_imu_body)
qed

lemma firmware_imu_roundtrip_instance:
  "\<exists>pkt. deserialize (firmware_imu_frame (imu_body 0x41280000 0xC1A26666 0x43340000)) = Some (Some pkt)
     \<and> parse_imu_data pkt 5 = Some (Some \<lparr>imu_roll = 0x41280000, imu_pitch = 0xC1A26666,
         imu_yaw = 0x43340000, imu_timestamp = 5\<rparr>)"
proof (rule firmware_imu_roundtrip)
  show "\<not> motor_header (imu_body 0x41280000 0xC1A26666 0x43340000)" by code_simp
qed

text \<open>
  Responses are told apart in one direction only: no packet is both a motor status and an encoder
  reply, but every packet either of those parsers accepts, or reads out of bounds, is accepted by
  \<open>parse_imu_data\<close> too. A late motor or encoder reply read in place of the IMU's becomes an
  orientation.
\<close>

lemma response_confusion:
  assumes "parse_motor_status p now \<noteq> Some None \<or> parse_encoder_data p now \<noteq> Some None"
  shows "(\<exists>d. parse_imu_data p now = Some (Some d))
     \<and> (parse_motor_status p now = Some None \<or> parse_encoder_data p now = Some None)"
  using assms
  by (auto simp: parse_motor_status_eq parse_encoder_data_eq parse_imu_data_eq motor_reply_shape_def
      encoder_reply_shape_def imu_reply_shape_def split: if_splits)

lemma response_confusion_instance:
  "\<exists>d. parse_imu_data (device_packet 0x22 0x02 0x00 (encoder_body (replicate 16 0))) 3 = Some (Some d)"
proof -
  let ?p = "device_packet 0x22 0x02 0x00 (encoder_body (replicate 16 0))"
  have "parse_motor_status ?p 3 \<noteq> Some None \<or> parse_encoder_data ?p 3 \<noteq> Some None"
    by (simp add: parse_encoder_data_eq encoder_reply_shape_def)
  from response_confusion [OF this] show ?thesis by blast
qed

end
