(* ===== verification/Exchange.thy ===== *)
theory Exchange
  imports Responses
begin

text \<open>
  The interface between the UDP client and the components that talk to the hardware through it. Motor
  controller, encoder reader and IMU reader hold a \<open>shared_ptr<UdpClient>\<close> and call only its
  \<open>send_and_receive\<close>; here they take that function as a parameter of type \<open>'s xchg\<close>, over the state
  \<open>'s\<close> behind the pointer. The locale \<open>exchange\<close> states what they rely on.
\<close>

type_synonym 's xchg = "Packet \<Rightarrow> 's \<Rightarrow> (Packet option \<times> 's) ub"

locale exchange =
  fixes xchg :: "'s xchg" and inv :: "'s \<Rightarrow> bool"
  assumes xchg_defined: "\<exists>r s'. xchg p s = Some (r, s')"
    and xchg_inv: "xchg p s = Some (r, s') \<Longrightarrow> inv s \<Longrightarrow> inv s'"

text \<open>A sequence of exchanges, with all responses: what a client of the interface amounts to.\<close>

fun exchange_all :: "'s xchg \<Rightarrow> Packet list \<Rightarrow> 's \<Rightarrow> (Packet option list \<times> 's) ub" where
  "exchange_all xchg [] s = Some ([], s)"
| "exchange_all xchg (p # ps) s = do {
     (r, s) \<leftarrow> xchg p s;
     (rs, s) \<leftarrow> exchange_all xchg ps s;
     Some (r # rs, s) }"

context exchange
begin

lemma xchg_cases:
  obtains r s' where "xchg p s = Some (r, s')"
  using xchg_defined by blast

lemma exchange_all_defined: "\<exists>rs s'. exchange_all xchg ps s = Some (rs, s')"
proof (induction ps arbitrary: s)
  case (Cons p ps)
  obtain r s' where "xchg p s = Some (r, s')" by (rule xchg_cases)
  then show ?case using Cons.IH [of s'] by auto
qed simp

lemma exchange_all_inv: "exchange_all xchg ps s = Some (rs, s') \<Longrightarrow> inv s \<Longrightarrow> inv s'"
  by (induction ps arbitrary: s rs) (auto simp: Option.bind_eq_Some_conv dest: xchg_inv)

end

end
