(* ===== verification/Os_Interface.thy ===== *)
theory Os_Interface
  imports Prelude
begin

text \<open>
  What the SDK uses of the operating system: BSD sockets, the steady clock, sleeping and thread
  creation. None of it is code of the repository, so it is a record of functions over an abstract
  world \<open>'w\<close> that every operation takes as a parameter. The theorems hold for every such record;
  where one relies on documented behaviour of a call, the behaviour is a named hypothesis
  (\<open>fd_laws\<close> here) about it. \<open>sim_os\<close> is a concrete instance, a scripted network, on which the
  witnesses evaluate.
\<close>

section \<open>The calls\<close>

text \<open>
  \<open>recv\<close> delivers a datagram, or fails with \<open>EAGAIN\<close> / \<open>EWOULDBLOCK\<close>, or fails otherwise: the
  three cases the code tells apart. The other calls return their C result, negative on failure.
  \<open>inet_pton\<close> is \<open>None\<close> where it returns 0 or -1.
\<close>

datatype recv_result = Recv_Data "u8 list" | Recv_Again | Recv_Error

datatype sockopt = SO_RCVTIMEO | SO_SNDTIMEO

record 'w os =
  os_socket :: "'w \<Rightarrow> int \<times> 'w"
  os_reuseaddr :: "int \<Rightarrow> 'w \<Rightarrow> int \<times> 'w"
  os_bind :: "int \<Rightarrow> u16 \<Rightarrow> 'w \<Rightarrow> int \<times> 'w"
  os_set_timeout :: "int \<Rightarrow> sockopt \<Rightarrow> int \<times> int \<Rightarrow> 'w \<Rightarrow> int \<times> 'w"
  os_inet_pton :: "string \<Rightarrow> u32 option"
  os_connect :: "int \<Rightarrow> u32 \<Rightarrow> u16 \<Rightarrow> 'w \<Rightarrow> int \<times> 'w"
  os_send :: "int \<Rightarrow> u8 list \<Rightarrow> 'w \<Rightarrow> int \<times> 'w"
  os_recv :: "int \<Rightarrow> nat \<Rightarrow> 'w \<Rightarrow> recv_result \<times> 'w"
  os_close :: "int \<Rightarrow> 'w \<Rightarrow> 'w"
  os_now :: "'w \<Rightarrow> time"
  os_sleep :: "time \<Rightarrow> 'w \<Rightarrow> 'w"
  os_thread_create :: "'w \<Rightarrow> bool \<times> 'w"

section \<open>File descriptors\<close>

text \<open>
  The documented behaviour of descriptors, for a function \<open>fds\<close> that reads the set of open ones off
  the world: \<open>socket\<close> returns a negative number and opens nothing, or a fresh descriptor that is then
  open; \<open>close\<close> closes its argument; all other calls open and close nothing.
\<close>

definition fd_laws :: "'w os \<Rightarrow> ('w \<Rightarrow> int set) \<Rightarrow> bool" where
  "fd_laws os fds \<longleftrightarrow>
     (\<forall>w fd w'. os_socket os w = (fd, w') \<longrightarrow>
        (if fd < 0 then fds w' = fds w else fd \<notin> fds w \<and> fds w' = insert fd (fds w)))
   \<and> (\<forall>fd w. fds (os_close os fd w) = fds w - {fd})
   \<and> (\<forall>fd w. fds (snd (os_reuseaddr os fd w)) = fds w)
   \<and> (\<forall>fd port w. fds (snd (os_bind os fd port w)) = fds w)
   \<and> (\<forall>fd opt tv w. fds (snd (os_set_timeout os fd opt tv w)) = fds w)
   \<and> (\<forall>fd ip port w. fds (snd (os_connect os fd ip port w)) = fds w)
   \<and> (\<forall>fd data w. fds (snd (os_send os fd data w)) = fds w)
   \<and> (\<forall>fd n w. fds (snd (os_recv os fd n w)) = fds w)
   \<and> (\<forall>t w. fds (os_sleep os t w) = fds w)
   \<and> (\<forall>w. fds (snd (os_thread_create os w)) = fds w)"

lemma fd_laws_socket:
  assumes "fd_laws os fds" and "os_socket os w = (fd, w')"
  shows "fd < 0 \<Longrightarrow> fds w' = fds w"
    and "0 \<le> fd \<Longrightarrow> fd \<notin> fds w \<and> fds w' = insert fd (fds w)"
proof -
  have "if fd < 0 then fds w' = fds w else fd \<notin> fds w \<and> fds w' = insert fd (fds w)"
    using assms(1) [unfolded fd_laws_def, THEN conjunct1, THEN spec, THEN spec, THEN spec,
        THEN mp, OF assms(2)] .
  then show "fd < 0 \<Longrightarrow> fds w' = fds w"
    and "0 \<le> fd \<Longrightarrow> fd \<notin> fds w \<and> fds w' = insert fd (fds w)" by auto
qed

lemma fd_laws_close: "fd_laws os fds \<Longrightarrow> fds (os_close os fd w) = fds w - {fd}"
  by (simp add: fd_laws_def)

lemma fd_laws_keep:
  assumes "fd_laws os fds"
  shows "os_reuseaddr os fd w = (r, w') \<Longrightarrow> fds w' = fds w"
    and "os_bind os fd port w = (r, w') \<Longrightarrow> fds w' = fds w"
    and "os_set_timeout os fd opt tv w = (r, w') \<Longrightarrow> fds w' = fds w"
    and "os_connect os fd ip port w = (r, w') \<Longrightarrow> fds w' = fds w"
  using assms unfolding fd_laws_def by (metis snd_conv)+

lemma fd_laws_traffic:
  assumes "fd_laws os fds"
  shows "fds (snd (os_send os fd data w)) = fds w" and "fds (snd (os_recv os fd n w)) = fds w"
    and "fds (os_sleep os t w) = fds w" and "fds (snd (os_thread_create os w)) = fds w"
  using assms by (simp_all add: fd_laws_def)

section \<open>A scripted network\<close>

text \<open>
  A concrete world: the open descriptors, the datagrams sent so far, the results the next \<open>recv\<close>
  calls deliver, and a clock that advances by one millisecond on every call. \<open>sim_fail_bind\<close> makes
  \<open>bind\<close> fail, as it does when the port is taken; an exhausted script times out.
\<close>

record sim =
  sim_fds :: "nat list"
  sim_next :: nat
  sim_sent :: "u8 list list"
  sim_script :: "recv_result list"
  sim_clock :: time
  sim_fail_bind :: bool

definition sim_init :: "recv_result list \<Rightarrow> sim" where
  "sim_init script = \<lparr>sim_fds = [], sim_next = 0, sim_sent = [], sim_script = script,
     sim_clock = 0, sim_fail_bind = False\<rparr>"

definition sim_tick :: "sim \<Rightarrow> sim" where
  "sim_tick w = w\<lparr>sim_clock := sim_clock w + 1000000\<rparr>"

definition sim_recv :: "sim \<Rightarrow> recv_result \<times> sim" where
  "sim_recv w = (case sim_script w of
     [] \<Rightarrow> (Recv_Again, sim_tick w)
   | r # rs \<Rightarrow> (r, sim_tick (w\<lparr>sim_script := rs\<rparr>)))"

definition sim_os :: "sim os" where
  "sim_os = \<lparr>
     os_socket = (\<lambda>w. (int (sim_next w) + 3,
       w\<lparr>sim_fds := sim_next w # filter (\<lambda>n. n < sim_next w) (sim_fds w), sim_next := sim_next w + 1\<rparr>)),
     os_reuseaddr = (\<lambda>fd w. (0, w)),
     os_bind = (\<lambda>fd port w. (if sim_fail_bind w then -1 else 0, w)),
     os_set_timeout = (\<lambda>fd opt tv w. (0, w)),
     os_inet_pton = (\<lambda>ip. if ip = [] then None else Some 0x7F000001),
     os_connect = (\<lambda>fd ip port w. (0, w)),
     os_send = (\<lambda>fd data w. (int (length data), sim_tick (w\<lparr>sim_sent := sim_sent w @ [data]\<rparr>))),
     os_recv = (\<lambda>fd n w. sim_recv w),
     os_close = (\<lambda>fd w. w\<lparr>sim_fds := filter (\<lambda>n. int n + 3 \<noteq> fd) (sim_fds w)\<rparr>),
     os_now = sim_clock,
     os_sleep = (\<lambda>t w. w\<lparr>sim_clock := sim_clock w + t\<rparr>),
     os_thread_create = (\<lambda>w. (True, w))\<rparr>"

text \<open>The same world with a device in it, whose replies depend on the target byte of the last request.\<close>

definition device_os :: "(u8 \<Rightarrow> u8 list) \<Rightarrow> sim os" where
  "device_os reply = sim_os\<lparr>os_recv :=
     (\<lambda>fd n w. (Recv_Data (reply (last (sim_sent w) ! 3)), sim_tick w))\<rparr>"

text \<open>
  The same world with a device that answers every request once, in order: the datagrams of the script are
  the answers on their way.
\<close>

definition sim_queue :: "sim \<Rightarrow> u8 list list" where
  "sim_queue w = concat (map (\<lambda>r. case r of Recv_Data d \<Rightarrow> [d] | _ \<Rightarrow> []) (sim_script w))"

definition fifo_os :: "(u8 list \<Rightarrow> u8 list) \<Rightarrow> sim os" where
  "fifo_os answer = sim_os\<lparr>
     os_send := (\<lambda>fd data w. (int (length data), w\<lparr>sim_sent := sim_sent w @ [data],
       sim_script := sim_script w @ [Recv_Data (answer data)]\<rparr>)),
     os_recv := (\<lambda>fd n w. case sim_queue w of
       [] \<Rightarrow> (Recv_Again, sim_tick w)
     | d # ds \<Rightarrow> (Recv_Data d, sim_tick (w\<lparr>sim_script := map Recv_Data ds\<rparr>)))\<rparr>"

lemma sim_queue_data [simp]: "sim_script w = map Recv_Data ds \<Longrightarrow> sim_queue w = ds"
  by (simp add: sim_queue_def comp_def)

text \<open>The open descriptors of the scripted world, numbered from 3.\<close>

definition sim_open :: "sim \<Rightarrow> int set" where
  "sim_open w = {int n + 3 | n. n \<in> set (sim_fds w) \<and> n < sim_next w}"

lemma fd_laws_sim: "fd_laws sim_os sim_open"
  by (auto simp: fd_laws_def sim_os_def sim_open_def sim_tick_def sim_recv_def split: list.splits)

lemma fd_laws_device: "fd_laws (device_os reply) sim_open"
  by (auto simp: fd_laws_def sim_os_def device_os_def sim_open_def sim_tick_def)

end
