(* ===== verification/Udp_Client.thy ===== *)
theory Udp_Client
  imports Exchange Os_Interface "HOL-Library.Signed_Division"
begin

text \<open>
  \<open>class UdpClient\<close> (\<open>src/udp_client.cpp\<close>): its configuration, socket, connection flag and counters,
  and every public operation. Each operation runs under the client's mutexes, so here it is one
  function on the client and the world. The lemmas give the outcome of each operation with its
  counter, the invariant that ties the flag to the descriptor, the descriptor discipline of
  \<open>connect\<close>, and the accounting of request-response clients.
\<close>

section \<open>State\<close>

record UdpConfig =
  cfg_server_ip :: string
  cfg_server_port :: u16
  cfg_local_port :: u16
  cfg_send_timeout :: int
  cfg_receive_timeout :: int

definition UdpConfig_default :: UdpConfig where
  "UdpConfig_default = \<lparr>cfg_server_ip = ''192.168.10.123'', cfg_server_port = 8080,
     cfg_local_port = 8080, cfg_send_timeout = 100, cfg_receive_timeout = 100\<rparr>"

record NetworkStatistics =
  packets_sent :: u64
  packets_received :: u64
  send_errors :: u64
  receive_errors :: u64
  timeouts :: u64
  checksum_errors :: u64

definition NetworkStatistics_default :: NetworkStatistics where
  "NetworkStatistics_default = \<lparr>packets_sent = 0, packets_received = 0, send_errors = 0,
     receive_errors = 0, timeouts = 0, checksum_errors = 0\<rparr>"

record UdpClient =
  uc_config :: UdpConfig
  uc_socket_fd :: int
  uc_connected :: bool
  uc_stats :: NetworkStatistics

type_synonym 'w link = "UdpClient \<times> 'w"

definition UdpClient_new :: "UdpConfig \<Rightarrow> UdpClient" where
  "UdpClient_new config = \<lparr>uc_config = config, uc_socket_fd = -1, uc_connected = False,
     uc_stats = NetworkStatistics_default\<rparr>"

section \<open>Counters\<close>

definition update_send_stats :: "bool \<Rightarrow> UdpClient \<Rightarrow> UdpClient" where
  "update_send_stats success c =
     (let st = uc_stats c in
      if success then c\<lparr>uc_stats := st\<lparr>packets_sent := packets_sent st + 1\<rparr>\<rparr>
      else c\<lparr>uc_stats := st\<lparr>send_errors := send_errors st + 1\<rparr>\<rparr>)"

definition update_receive_stats :: "bool \<Rightarrow> bool \<Rightarrow> bool \<Rightarrow> UdpClient \<Rightarrow> UdpClient" where
  "update_receive_stats success timeout checksum_error c =
     (let st = uc_stats c in
      if success then c\<lparr>uc_stats := st\<lparr>packets_received := packets_received st + 1\<rparr>\<rparr>
      else if timeout then c\<lparr>uc_stats := st\<lparr>timeouts := timeouts st + 1\<rparr>\<rparr>
      else if checksum_error then c\<lparr>uc_stats := st\<lparr>checksum_errors := checksum_errors st + 1\<rparr>\<rparr>
      else c\<lparr>uc_stats := st\<lparr>receive_errors := receive_errors st + 1\<rparr>\<rparr>)"

definition get_statistics :: "UdpClient \<Rightarrow> NetworkStatistics" where
  "get_statistics c = uc_stats c"

definition reset_statistics :: "UdpClient \<Rightarrow> UdpClient" where
  "reset_statistics c = c\<lparr>uc_stats := NetworkStatistics_default\<rparr>"

section \<open>Connecting\<close>

text \<open>Milliseconds as a \<open>timeval\<close>; C++ integer division truncates towards zero.\<close>

definition set_socket_timeout :: "'w os \<Rightarrow> int \<Rightarrow> sockopt \<Rightarrow> int \<Rightarrow> 'w \<Rightarrow> bool \<times> 'w" where
  "set_socket_timeout os fd option timeout w =
     (let tv = (timeout sdiv 1000, (timeout smod 1000) * 1000);
          (r, w) = os_set_timeout os fd option tv w
      in (\<not> r < 0, w))"

text \<open>The block that binds the local port, when one is configured: whether it went well.\<close>

definition bind_local_port :: "'w os \<Rightarrow> UdpClient \<Rightarrow> 'w \<Rightarrow> bool \<times> 'w" where
  "bind_local_port os c w =
     (if cfg_local_port (uc_config c) > 0 then
        let (_, w) = os_reuseaddr os (uc_socket_fd c) w;
            (r, w) = os_bind os (uc_socket_fd c) (cfg_local_port (uc_config c)) w
        in (\<not> r < 0, w)
      else (True, w))"

text \<open>The error exits of \<open>connect\<close>: \<open>close(socket_fd_); socket_fd_ = -1; return false;\<close>\<close>

definition abandon_socket :: "'w os \<Rightarrow> UdpClient \<Rightarrow> 'w \<Rightarrow> bool \<times> 'w link" where
  "abandon_socket os c w = (False, c\<lparr>uc_socket_fd := -1\<rparr>, os_close os (uc_socket_fd c) w)"

text \<open>\<open>connect\<close> from the binding of the port on, with the socket already in \<open>socket_fd_\<close>.\<close>

definition configure_socket :: "'w os \<Rightarrow> UdpClient \<Rightarrow> 'w \<Rightarrow> bool \<times> 'w link" where
  "configure_socket os c w =
     (let cfg = uc_config c;
          fd = uc_socket_fd c;
          (bound, w) = bind_local_port os c w
      in if \<not> bound then abandon_socket os c w
      else
        let (rcv_ok, w) = set_socket_timeout os fd SO_RCVTIMEO (cfg_receive_timeout cfg) w
        in if \<not> rcv_ok then abandon_socket os c w
        else
          let (snd_ok, w) = set_socket_timeout os fd SO_SNDTIMEO (cfg_send_timeout cfg) w
          in if \<not> snd_ok then abandon_socket os c w
          else (case os_inet_pton os (cfg_server_ip cfg) of
            None \<Rightarrow> abandon_socket os c w
          | Some addr \<Rightarrow>
              let (r, w) = os_connect os fd addr (cfg_server_port cfg) w
              in if r < 0 then abandon_socket os c w
              else (True, c\<lparr>uc_connected := True\<rparr>, w)))"

definition connect :: "'w os \<Rightarrow> 'w link \<Rightarrow> bool \<times> 'w link" where
  "connect os s =
     (let (c, w) = s in
      if uc_connected c then (True, c, w)
      else
        let (fd, w) = os_socket os w;
            c = c\<lparr>uc_socket_fd := fd\<rparr>
        in if fd < 0 then (False, c, w) else configure_socket os c w)"

definition disconnect :: "'w os \<Rightarrow> 'w link \<Rightarrow> 'w link" where
  "disconnect os s =
     (let (c, w) = s;
          (c, w) = (if 0 \<le> uc_socket_fd c
                    then (c\<lparr>uc_socket_fd := -1\<rparr>, os_close os (uc_socket_fd c) w) else (c, w))
      in (c\<lparr>uc_connected := False\<rparr>, w))"

definition is_connected :: "UdpClient \<Rightarrow> bool" where
  "is_connected c = uc_connected c"

definition get_config :: "UdpClient \<Rightarrow> UdpConfig" where
  "get_config c = uc_config c"

text \<open>The destructor disconnects; of the client and its world, the world is left.\<close>

definition destroy_client :: "'w os \<Rightarrow> 'w link \<Rightarrow> 'w" where
  "destroy_client os s = snd (disconnect os s)"

text \<open>
  Moving: the new client takes everything over; the old one keeps no socket. \<open>rest\<close> is the
  unspecified content of the moved-from configuration string.
\<close>

definition move_construct :: "string \<Rightarrow> UdpClient \<Rightarrow> UdpClient \<times> UdpClient" where
  "move_construct rest other =
     (\<lparr>uc_config = uc_config other, uc_socket_fd = uc_socket_fd other,
       uc_connected = uc_connected other, uc_stats = uc_stats other\<rparr>,
      other\<lparr>uc_config := (uc_config other)\<lparr>cfg_server_ip := rest\<rparr>,
        uc_socket_fd := -1, uc_connected := False\<rparr>)"

text \<open>Assignment from another client; assigning a client to itself does nothing.\<close>

definition move_assign :: "'w os \<Rightarrow> string \<Rightarrow> UdpClient \<Rightarrow> 'w link \<Rightarrow> UdpClient \<times> 'w link" where
  "move_assign os rest other s =
     (let (c, w) = disconnect os s;
          (c', other') = move_construct rest other
      in (other', c', w))"

section \<open>Sending and receiving\<close>

definition send_packet :: "'w os \<Rightarrow> Packet \<Rightarrow> 'w link \<Rightarrow> bool \<times> 'w link" where
  "send_packet os packet s =
     (let (c, w) = s in
      if \<not> uc_connected c then (False, update_send_stats False c, w)
      else
        let data = serialize packet;
            (sent, w) = os_send os (uc_socket_fd c) data w
        in if sent < 0 then (False, update_send_stats False c, w)
        else if sent \<noteq> int (length data) then (False, update_send_stats False c, w)
        else (True, update_send_stats True c, w))"

text \<open>\<open>recv\<close> fills at most the 1024 bytes of the buffer; \<open>buffer.resize(received)\<close> keeps those.\<close>

definition receive_packet :: "'w os \<Rightarrow> 'w link \<Rightarrow> (Packet option \<times> 'w link) ub" where
  "receive_packet os s =
     (let (c, w) = s in
      if \<not> uc_connected c then Some (None, update_receive_stats False False False c, w)
      else
        let (received, w) = os_recv os (uc_socket_fd c) 1024 w
        in case received of
             Recv_Again \<Rightarrow> Some (None, update_receive_stats False True False c, w)
           | Recv_Error \<Rightarrow> Some (None, update_receive_stats False False False c, w)
           | Recv_Data bytes \<Rightarrow> do {
               let buffer = take 1024 bytes;
               packet \<leftarrow> deserialize buffer;
               case packet of
                 None \<Rightarrow> Some (None, update_receive_stats False False True c, w)
               | Some p \<Rightarrow> Some (Some p, update_receive_stats True False False c, w) })"

definition send_and_receive :: "'w os \<Rightarrow> Packet \<Rightarrow> 'w link \<Rightarrow> (Packet option \<times> 'w link) ub" where
  "send_and_receive os packet s =
     (let (sent, s) = send_packet os packet s in
      if \<not> sent then Some (None, s) else receive_packet os s)"

definition send_async :: "'w os \<Rightarrow> Packet \<Rightarrow> 'w link \<Rightarrow> bool \<times> 'w link" where
  "send_async os packet s = send_packet os packet s"

section \<open>Outcomes\<close>

lemma disconnect_eq:
  "disconnect os (c, w) = (c\<lparr>uc_socket_fd := if 0 \<le> uc_socket_fd c then -1 else uc_socket_fd c,
     uc_connected := False\<rparr>, if 0 \<le> uc_socket_fd c then os_close os (uc_socket_fd c) w else w)"
  by (simp add: disconnect_def)

lemma send_packet_outcome:
  assumes "send_packet os p (c, w) = (b, c', w')"
  shows "c' = update_send_stats b c"
    and "\<not> uc_connected c \<Longrightarrow> \<not> b \<and> w' = w"
    and "uc_connected c \<Longrightarrow> \<exists>n. os_send os (uc_socket_fd c) (serialize p) w = (n, w')
           \<and> (b \<longleftrightarrow> n = int (length (serialize p)))"
  using assms by (auto simp: send_packet_def Let_def split: prod.splits if_splits)

lemma receive_packet_eq:
  "receive_packet os (c, w) =
    (if \<not> uc_connected c then Some (None, update_receive_stats False False False c, w)
     else case os_recv os (uc_socket_fd c) 1024 w of
       (Recv_Again, w') \<Rightarrow> Some (None, update_receive_stats False True False c, w')
     | (Recv_Error, w') \<Rightarrow> Some (None, update_receive_stats False False False c, w')
     | (Recv_Data bytes, w') \<Rightarrow>
         if frame_ok (take 1024 bytes)
         then Some (Some (unpack_frame (take 1024 bytes)), update_receive_stats True False False c, w')
         else Some (None, update_receive_stats False False True c, w'))"
  by (simp add: receive_packet_def Let_def deserialize_eq split: prod.splits recv_result.splits)

lemma receive_packet_defined: "\<exists>r s'. receive_packet os s = Some (r, s')"
  by (cases s) (simp add: receive_packet_eq split: prod.splits recv_result.splits)

lemma receive_packet_outcome:
  assumes "receive_packet os (c, w) = Some (r, c', w')"
  obtains t e where "c' = update_receive_stats (r \<noteq> None) t e c"
  using assms by (auto simp: receive_packet_eq split: if_splits prod.splits recv_result.splits)

lemma send_and_receive_defined: "\<exists>r s'. send_and_receive os p s = Some (r, s')"
  using receive_packet_defined [of os "snd (send_packet os p s)"]
  by (simp add: send_and_receive_def case_prod_beta)

text \<open>When everything goes well: the request leaves in one piece and the reply parses.\<close>

lemma send_and_receive_delivers:
  assumes "uc_connected c"
    and "os_send os (uc_socket_fd c) (serialize p) w = (int (length (serialize p)), w1)"
    and "os_recv os (uc_socket_fd c) 1024 w1 = (Recv_Data bytes, w2)"
    and "length bytes \<le> 1024" and "deserialize bytes = Some (Some q)"
  shows "send_and_receive os p (c, w)
    = Some (Some q, update_receive_stats True False False (update_send_stats True c), w2)"
  using assms by (simp add: send_and_receive_def send_packet_def receive_packet_def
      update_send_stats_def Let_def)

text \<open>The clock, sleeping and thread creation, on a client together with its world.\<close>

definition link_now :: "'w os \<Rightarrow> 'w link \<Rightarrow> time" where
  "link_now os s = os_now os (snd s)"

definition link_sleep :: "'w os \<Rightarrow> time \<Rightarrow> 'w link \<Rightarrow> 'w link" where
  "link_sleep os t s = (fst s, os_sleep os t (snd s))"

definition link_spawn :: "'w os \<Rightarrow> 'w link \<Rightarrow> bool \<times> 'w link" where
  "link_spawn os s = (let (ok, w) = os_thread_create os (snd s) in (ok, fst s, w))"

lemma link_sleep_sel [simp]: "fst (link_sleep os t s) = fst s"
  by (simp add: link_sleep_def)

section \<open>The connection invariant\<close>

definition udp_inv :: "UdpClient \<Rightarrow> bool" where
  "udp_inv c \<longleftrightarrow> (uc_connected c \<longleftrightarrow> 0 \<le> uc_socket_fd c)"

lemma stats_frame [simp]:
  "uc_config (update_send_stats b c) = uc_config c"
  "uc_socket_fd (update_send_stats b c) = uc_socket_fd c"
  "uc_connected (update_send_stats b c) = uc_connected c"
  "uc_config (update_receive_stats b t e c) = uc_config c"
  "uc_socket_fd (update_receive_stats b t e c) = uc_socket_fd c"
  "uc_connected (update_receive_stats b t e c) = uc_connected c"
  by (simp_all add: update_send_stats_def update_receive_stats_def Let_def)

lemma stats_inv [simp]:
  "udp_inv (update_send_stats b c) = udp_inv c" "udp_inv (update_receive_stats b t e c) = udp_inv c"
  "udp_inv (reset_statistics c) = udp_inv c" "udp_inv (UdpClient_new cfg)"
  by (simp_all add: udp_inv_def reset_statistics_def UdpClient_new_def)

lemmas configure_socket_defs = configure_socket_def bind_local_port_def set_socket_timeout_def
  abandon_socket_def Let_def case_prod_beta

lemma configure_socket_result:
  "configure_socket os c w = (b, c', w') \<Longrightarrow>
   c' = (if b then c\<lparr>uc_connected := True\<rparr> else c\<lparr>uc_socket_fd := -1\<rparr>)"
  by (auto simp: configure_socket_defs split: if_splits option.splits)

lemma configure_socket_fds:
  "fd_laws os fds \<Longrightarrow> configure_socket os c w = (b, c', w') \<Longrightarrow>
   fds w' = (if b then fds w else fds w - {uc_socket_fd c})"
  by (auto simp: configure_socket_defs fd_laws_close fd_laws_keep [OF _ prod.collapse [symmetric]]
      split: if_splits option.splits)

lemma connect_result:
  assumes "connect os (c, w) = (b, c', w')" and "\<not> uc_connected c"
  shows "c' = c\<lparr>uc_socket_fd := uc_socket_fd c', uc_connected := b\<rparr>" and "b \<longleftrightarrow> 0 \<le> uc_socket_fd c'"
  using assms
  by (auto simp: connect_def Let_def split: if_splits prod.splits dest!: configure_socket_result)

lemma connect_connected: "uc_connected c \<Longrightarrow> connect os (c, w) = (True, c, w)"
  by (simp add: connect_def)

lemma connect_inv:
  assumes "connect os (c, w) = (b, c', w')" and "udp_inv c"
  shows "udp_inv c'" and "b = uc_connected c'"
proof -
  have "udp_inv c' \<and> b = uc_connected c'"
  proof (cases "uc_connected c")
    case True
    then show ?thesis using assms by (simp add: connect_connected)
  next
    case False
    from connect_result [OF assms(1) False] show ?thesis
      unfolding udp_inv_def by (metis UdpClient.select_convs(3) UdpClient.surjective UdpClient.update_convs(3))
  qed
  then show "udp_inv c'" and "b = uc_connected c'" by blast+
qed

lemma connect_fds:
  assumes "fd_laws os fds" and "\<not> uc_connected c" and "connect os (c, w) = (b, c', w')"
  shows "b = uc_connected c'
    \<and> (if b then uc_socket_fd c' \<notin> fds w \<and> fds w' = insert (uc_socket_fd c') (fds w)
             \<and> fds (snd (disconnect os (c', w'))) = fds w
       else uc_socket_fd c' < 0 \<and> fds w' = fds w)"
proof -
  obtain fd w1 where so: "os_socket os w = (fd, w1)" by (cases "os_socket os w")
  let ?c = "c\<lparr>uc_socket_fd := fd\<rparr>"
  show ?thesis
  proof (cases "fd < 0")
    case True
    with so assms have "b = False" "c' = ?c" "w' = w1" by (auto simp: connect_def)
    with True so assms(1,2) show ?thesis by (simp add: fd_laws_socket(1))
  next
    case False
    with so assms have cs: "configure_socket os ?c w1 = (b, c', w')" by (simp add: connect_def)
    note fds_laws = fd_laws_socket(2) [OF assms(1) so] configure_socket_fds [OF assms(1) cs]
    show ?thesis
      using configure_socket_result [OF cs] fds_laws False assms(1,2)
      by (auto simp: disconnect_eq fd_laws_close)
  qed
qed

lemma disconnect_inv: "udp_inv (fst (disconnect os s))"
  by (cases s) (simp add: disconnect_eq udp_inv_def)

lemma send_packet_inv: "send_packet os p (c, w) = (b, c', w') \<Longrightarrow> udp_inv c' = udp_inv c"
  by (drule send_packet_outcome(1)) simp

lemma receive_packet_inv: "receive_packet os (c, w) = Some (r, c', w') \<Longrightarrow> udp_inv c' = udp_inv c"
  by (erule receive_packet_outcome) simp

lemma send_and_receive_inv:
  "send_and_receive os p s = Some (r, s') \<Longrightarrow> udp_inv (fst s') = udp_inv (fst s)"
  by (cases s, cases s')
    (auto simp: send_and_receive_def split: prod.splits if_splits
      dest!: send_packet_inv receive_packet_inv)

interpretation udp: exchange "send_and_receive os" "\<lambda>s. udp_inv (fst s)" for os
  by unfold_locales (rule send_and_receive_defined, simp add: send_and_receive_inv)

section \<open>Accounting\<close>

text \<open>
  What the counters say: the sends and the receives that were attempted. A client that only makes
  exchanges, as every component of the SDK does, receives once for every packet it sent.
\<close>

definition sends_counted :: "UdpClient \<Rightarrow> u64" where
  "sends_counted c = packets_sent (uc_stats c) + send_errors (uc_stats c)"

definition receives_counted :: "UdpClient \<Rightarrow> u64" where
  "receives_counted c = packets_received (uc_stats c) + receive_errors (uc_stats c)
     + timeouts (uc_stats c) + checksum_errors (uc_stats c)"

definition balanced :: "UdpClient \<Rightarrow> bool" where
  "balanced c \<longleftrightarrow> receives_counted c = packets_sent (uc_stats c)"

lemma update_stats_counted:
  "sends_counted (update_send_stats b c) = sends_counted c + 1"
  "receives_counted (update_send_stats b c) = receives_counted c"
  "sends_counted (update_receive_stats b t e c) = sends_counted c"
  "receives_counted (update_receive_stats b t e c) = receives_counted c + 1"
  "packets_sent (uc_stats (update_send_stats b c)) = packets_sent (uc_stats c) + of_bool b"
  "packets_sent (uc_stats (update_receive_stats b t e c)) = packets_sent (uc_stats c)"
  "packets_received (uc_stats (update_send_stats b c)) = packets_received (uc_stats c)"
  "packets_received (uc_stats (update_receive_stats b t e c))
     = packets_received (uc_stats c) + of_bool b"
  by (simp_all add: update_send_stats_def update_receive_stats_def sends_counted_def
      receives_counted_def Let_def)

lemma send_and_receive_counted:
  assumes "send_and_receive os p (c, w) = Some (r, c', w')"
  shows "sends_counted c' = sends_counted c + 1"
    and "balanced c \<Longrightarrow> balanced c'"
    and "packets_received (uc_stats c') = packets_received (uc_stats c) + of_bool (r \<noteq> None)"
proof -
  obtain b c1 w1 where sp: "send_packet os p (c, w) = (b, c1, w1)" by (cases "send_packet os p (c, w)")
  note c1 = send_packet_outcome(1) [OF sp]
  have "(sends_counted c' = sends_counted c + 1 \<and> (balanced c \<longrightarrow> balanced c'))
    \<and> packets_received (uc_stats c') = packets_received (uc_stats c) + of_bool (r \<noteq> None)"
  proof (cases b)
    case True
    with assms sp have "receive_packet os (c1, w1) = Some (r, c', w')"
      by (simp add: send_and_receive_def)
    then obtain t e where "c' = update_receive_stats (r \<noteq> None) t e c1"
      by (rule receive_packet_outcome)
    then show ?thesis using c1 True by (simp add: update_stats_counted balanced_def)
  next
    case False
    then show ?thesis
      using assms sp c1 by (auto simp: send_and_receive_def update_stats_counted balanced_def)
  qed
  then show "sends_counted c' = sends_counted c + 1"
    and "balanced c \<Longrightarrow> balanced c'"
    and "packets_received (uc_stats c') = packets_received (uc_stats c) + of_bool (r \<noteq> None)"
    by auto
qed

interpretation accounts: exchange "send_and_receive os" "\<lambda>s. balanced (fst s)" for os
  by unfold_locales
    (rule send_and_receive_defined, auto dest: send_and_receive_counted(2))

lemma exchange_all_counted:
  "exchange_all (send_and_receive os) ps s = Some (rs, s') \<Longrightarrow>
     sends_counted (fst s') = sends_counted (fst s) + of_nat (length ps)
   \<and> packets_received (uc_stats (fst s')) = packets_received (uc_stats (fst s))
       + of_nat (length (filter (\<lambda>r. r \<noteq> None) rs))"
proof (induction ps arbitrary: s rs)
  case (Cons p ps)
  from Cons.prems obtain r s1 rs1 where
    x: "send_and_receive os p s = Some (r, s1)"
    and xs: "exchange_all (send_and_receive os) ps s1 = Some (rs1, s')" and rs: "rs = r # rs1"
    by (auto simp: Option.bind_eq_Some_conv)
  from x send_and_receive_counted [of os p "fst s" "snd s" r "fst s1" "snd s1"]
  have "sends_counted (fst s1) = sends_counted (fst s) + 1"
    "packets_received (uc_stats (fst s1)) = packets_received (uc_stats (fst s)) + of_bool (r \<noteq> None)"
    by simp_all
  with Cons.IH [OF xs] rs show ?case by simp
qed simp

section \<open>The client as a state machine\<close>

text \<open>One step is one call of a public operation by whatever thread holds the mutexes.\<close>

inductive udp_step :: "'w os \<Rightarrow> 'w link \<Rightarrow> 'w link \<Rightarrow> bool" for os where
  step_connect: "connect os s = (b, s') \<Longrightarrow> udp_step os s s'"
| step_disconnect: "disconnect os s = s' \<Longrightarrow> udp_step os s s'"
| step_send: "send_packet os p s = (b, s') \<Longrightarrow> udp_step os s s'"
| step_receive: "receive_packet os s = Some (r, s') \<Longrightarrow> udp_step os s s'"
| step_exchange: "send_and_receive os p s = Some (r, s') \<Longrightarrow> udp_step os s s'"
| step_async: "send_async os p s = (b, s') \<Longrightarrow> udp_step os s s'"
| step_reset: "udp_step os (c, w) (reset_statistics c, w)"

inductive udp_reachable :: "'w os \<Rightarrow> 'w link \<Rightarrow> bool" for os where
  reach_new: "udp_reachable os (UdpClient_new cfg, w)"
| reach_step: "udp_reachable os s \<Longrightarrow> udp_step os s s' \<Longrightarrow> udp_reachable os s'"
| reach_world: "udp_reachable os (c, w) \<Longrightarrow> udp_reachable os (c, w')"

lemma udp_step_inv: "udp_step os s s' \<Longrightarrow> udp_inv (fst s) \<Longrightarrow> udp_inv (fst s')"
proof (induction rule: udp_step.induct)
  case (step_connect s b s')
  then show ?case
    using connect_inv(1) [of os "fst s" "snd s" b "fst s'" "snd s'"] by simp
next
  case (step_send p s b s')
  then show ?case
    using send_packet_inv [of os p "fst s" "snd s" b "fst s'" "snd s'"] by simp
next
  case (step_async p s b s')
  then show ?case
    using send_packet_inv [of os p "fst s" "snd s" b "fst s'" "snd s'"] by (simp add: send_async_def)
next
  case (step_receive s r s')
  then show ?case
    using receive_packet_inv [of os "fst s" "snd s" r "fst s'" "snd s'"] by simp
next
  case (step_exchange p s r s')
  then show ?case by (simp add: send_and_receive_inv)
next
  case (step_disconnect s s')
  then show ?case using disconnect_inv by blast
qed simp

lemma udp_reachable_invariant: "udp_reachable os s \<Longrightarrow> udp_inv (fst s)"
  by (induction rule: udp_reachable.induct) (auto dest: udp_step_inv)

section \<open>Properties\<close>

text \<open>
  In every state the client can reach, through any sequence of its operations and of changes of
  the world by others, it says it is connected exactly when it holds a descriptor.
\<close>

lemma connected_iff_descriptor:
  "udp_reachable os (c, w) \<Longrightarrow> uc_connected c \<longleftrightarrow> 0 \<le> uc_socket_fd c"
  using udp_reachable_invariant [of os "(c, w)"] by (simp add: udp_inv_def)

lemma connected_iff_descriptor_instance:
  "let (c, w) = snd (connect sim_os (UdpClient_new UdpConfig_default, sim_init []))
   in uc_connected c \<and> 0 \<le> uc_socket_fd c"
proof -
  let ?s = "snd (connect sim_os (UdpClient_new UdpConfig_default, sim_init []))"
  obtain c w where s: "?s = (c, w)" by (cases ?s)
  have "udp_reachable sim_os ?s"
    by (rule reach_step [OF reach_new step_connect]) (rule prod.collapse [symmetric])
  then have "uc_connected c \<longleftrightarrow> 0 \<le> uc_socket_fd c"
    unfolding s by (rule connected_iff_descriptor)
  moreover have "uc_connected (fst ?s)" by code_simp
  ultimately show ?thesis using s by simp
qed

text \<open>
  \<open>connect\<close> leaks no descriptor. From a disconnected client it reports success exactly when the
  client ends up connected; on success exactly one fresh descriptor is open more than before, the one
  the client holds, and a later \<open>disconnect\<close> closes it; on each of its failures (no socket, port
  taken, timeouts refused, bad address, \<open>connect\<close> refused) the open descriptors are those of before.
\<close>

lemma connect_leaks_no_descriptor:
  assumes "fd_laws os fds" and "\<not> uc_connected c" and "connect os (c, w) = (b, c', w')"
  shows "b = uc_connected c'
    \<and> (if b then uc_socket_fd c' \<notin> fds w \<and> fds w' = insert (uc_socket_fd c') (fds w)
             \<and> fds (snd (disconnect os (c', w'))) = fds w
       else uc_socket_fd c' < 0 \<and> fds w' = fds w)"
  by (rule connect_fds [OF assms])

lemma connect_leaks_no_descriptor_instance:
  "let w = (sim_init [])\<lparr>sim_fail_bind := True\<rparr>;
       (b, c', w') = connect sim_os (UdpClient_new UdpConfig_default, w)
   in \<not> b \<and> sim_open w' = sim_open w"
proof -
  let ?w = "(sim_init [])\<lparr>sim_fail_bind := True\<rparr>"
  let ?c = "UdpClient_new UdpConfig_default"
  obtain b c' w' where x: "connect sim_os (?c, ?w) = (b, c', w')"
    by (cases "connect sim_os (?c, ?w)")
  have "\<not> fst (connect sim_os (?c, ?w))" by code_simp
  moreover have "\<not> uc_connected ?c" by (simp add: UdpClient_new_def)
  ultimately show ?thesis
    using connect_leaks_no_descriptor [OF fd_laws_sim _ x] x by simp
qed

text \<open>
  \<open>receive_packet\<close> on every branch: the result and the one counter that moves. A datagram that does
  not parse counts as a checksum error whatever is wrong with it (size, header, length, tail or
  checksum); \<open>receive_errors\<close> moves only without a connection or when \<open>recv\<close> itself fails.
\<close>

lemma receive_packet_outcomes:
  "receive_packet os (c, w) =
    (let st = uc_stats c in
     if \<not> uc_connected c
     then Some (None, c\<lparr>uc_stats := st\<lparr>receive_errors := receive_errors st + 1\<rparr>\<rparr>, w)
     else case os_recv os (uc_socket_fd c) 1024 w of
       (Recv_Again, w') \<Rightarrow> Some (None, c\<lparr>uc_stats := st\<lparr>timeouts := timeouts st + 1\<rparr>\<rparr>, w')
     | (Recv_Error, w') \<Rightarrow> Some (None, c\<lparr>uc_stats := st\<lparr>receive_errors := receive_errors st + 1\<rparr>\<rparr>, w')
     | (Recv_Data bytes, w') \<Rightarrow>
         if frame_ok (take 1024 bytes)
         then Some (Some (unpack_frame (take 1024 bytes)),
                c\<lparr>uc_stats := st\<lparr>packets_received := packets_received st + 1\<rparr>\<rparr>, w')
         else Some (None, c\<lparr>uc_stats := st\<lparr>checksum_errors := checksum_errors st + 1\<rparr>\<rparr>, w'))"
  by (simp add: receive_packet_eq update_receive_stats_def Let_def
      split: prod.splits recv_result.splits)

text \<open>
  Where a response comes from: \<open>send_and_receive\<close> returns a packet only after the whole request was
  handed to \<open>send\<close> on the client's socket, and the packet's bytes are those the very next \<open>recv\<close>
  delivered. Nothing else about it relates to the request.
\<close>

lemma response_provenance:
  assumes "send_and_receive os p (c, w) = Some (Some q, c', w')"
  shows "\<exists>w1 bytes. uc_connected c
    \<and> os_send os (uc_socket_fd c) (serialize p) w = (int (length (serialize p)), w1)
    \<and> os_recv os (uc_socket_fd c) 1024 w1 = (Recv_Data bytes, w')
    \<and> frame_ok (take 1024 bytes) \<and> serialize q = take 1024 bytes"
proof -
  obtain b c1 w1 where sp: "send_packet os p (c, w) = (b, c1, w1)" by (cases "send_packet os p (c, w)")
  with assms have b: "b" and rp: "receive_packet os (c1, w1) = Some (Some q, c', w')"
    by (auto simp: send_and_receive_def split: if_splits)
  from send_packet_outcome [OF sp] b have "uc_connected c" "c1 = update_send_stats True c"
    "os_send os (uc_socket_fd c) (serialize p) w = (int (length (serialize p)), w1)" by auto
  moreover from this rp obtain bytes where
    "os_recv os (uc_socket_fd c) 1024 w1 = (Recv_Data bytes, w')"
    "frame_ok (take 1024 bytes)" "q = unpack_frame (take 1024 bytes)"
    by (auto simp: receive_packet_eq split: prod.splits recv_result.splits if_splits)
  ultimately show ?thesis by (auto simp: frame_ok_def serialize_unpack_frame)
qed

lemma response_provenance_instance:
  "\<exists>c w c' w' bytes.
     send_and_receive sim_os (plain_packet TARGET_IMU []) (c, w)
       = Some (Some (plain_packet TARGET_IMU []), c', w')
   \<and> uc_connected c \<and> frame_ok (take 1024 bytes)
   \<and> serialize (plain_packet TARGET_IMU []) = take 1024 bytes"
proof -
  let ?p = "plain_packet TARGET_IMU []"
  let ?s = "snd (connect sim_os (UdpClient_new UdpConfig_default, sim_init [Recv_Data (serialize ?p)]))"
  have "map_option fst (send_and_receive sim_os ?p (fst ?s, snd ?s)) = Some (Some ?p)" by code_simp
  then obtain s' where
    x: "send_and_receive sim_os ?p (fst ?s, snd ?s) = Some (Some ?p, fst s', snd s')"
    by (auto simp: prod_eq_iff)
  from response_provenance [OF x] x show ?thesis by blast
qed

text \<open>
  The counters add up for clients of \<open>send_and_receive\<close>, which is how every component uses the
  connection. After any sequence of requests, answered or not, on a client with fresh counters:
  packets sent and send errors together count the requests, every sent packet is accounted for by
  exactly one of received, timed out, rejected or failed, and packets received counts the responses
  returned; and the sequence always completes.
\<close>

lemma exchange_accounting:
  assumes "uc_stats c = NetworkStatistics_default"
  shows "\<exists>rs c' w'. exchange_all (send_and_receive os) ps (c, w) = Some (rs, c', w')
    \<and> packets_sent (uc_stats c') + send_errors (uc_stats c') = of_nat (length ps)
    \<and> packets_received (uc_stats c') + receive_errors (uc_stats c') + timeouts (uc_stats c')
        + checksum_errors (uc_stats c') = packets_sent (uc_stats c')
    \<and> packets_received (uc_stats c') = of_nat (length (filter (\<lambda>r. r \<noteq> None) rs))"
proof -
  obtain rs c' w' where x: "exchange_all (send_and_receive os) ps (c, w) = Some (rs, c', w')"
    using accounts.exchange_all_defined [of os ps "(c, w)"] by (metis prod.collapse)
  have "balanced c" "sends_counted c = 0" "packets_received (uc_stats c) = 0"
    using assms by (simp_all add: balanced_def receives_counted_def sends_counted_def
        NetworkStatistics_default_def)
  with exchange_all_counted [OF x] accounts.exchange_all_inv [OF x] x show ?thesis
    by (auto simp: balanced_def receives_counted_def sends_counted_def)
qed

lemma exchange_accounting_instance:
  "\<exists>rs c' w'. exchange_all (send_and_receive sim_os) [plain_packet TARGET_IMU [], plain_packet TARGET_IMU []]
      (UdpClient_new UdpConfig_default, sim_init []) = Some (rs, c', w')
    \<and> packets_sent (uc_stats c') + send_errors (uc_stats c') = 2"
proof -
  have "uc_stats (UdpClient_new UdpConfig_default) = NetworkStatistics_default"
    by (simp add: UdpClient_new_def)
  from exchange_accounting [OF this, of sim_os "[plain_packet TARGET_IMU [], plain_packet TARGET_IMU []]"
      "sim_init []"]
  show ?thesis by auto
qed

text \<open>
  Moving a client moves its socket: the new client has the old one's descriptor, flag and counters,
  and destroying or disconnecting the moved-from client closes nothing. Assigning over a client closes
  the descriptor it had.
\<close>

lemma move_transfers_socket:
  "(let (new, old) = move_construct rest c in
      uc_socket_fd new = uc_socket_fd c \<and> uc_connected new = uc_connected c
      \<and> uc_stats new = uc_stats c \<and> uc_config new = uc_config c
      \<and> snd (disconnect os (old, w)) = w)
   \<and> (let (old, new, w') = move_assign os rest c (d, w) in
      uc_socket_fd new = uc_socket_fd c
      \<and> w' = (if 0 \<le> uc_socket_fd d then os_close os (uc_socket_fd d) w else w)
      \<and> snd (disconnect os (old, w')) = w')"
  by (simp add: move_construct_def move_assign_def disconnect_eq)

end
