(* ===== verification/Worker.thy ===== *)
theory Worker
  imports Prelude
begin

text \<open>
  The background thread that motor controller, encoder reader and IMU reader each own, written three
  times in the same way in the code: an atomic flag and a \<open>std::thread\<close>, started and stopped by the
  owner, running a loop around \<open>update_once\<close>. The loop is run on an explicit schedule, the list of
  values its loads of the flag return, so that a stop can arrive at every point. The locales
  \<open>poller\<close> and \<open>total_poller\<close> are what the loop needs of \<open>update_once\<close>.
\<close>

section \<open>Starting and stopping\<close>

record worker =
  thread_running :: bool
  thread_joinable :: bool

definition worker_new :: worker where
  "worker_new = \<lparr>thread_running = False, thread_joinable = False\<rparr>"

text \<open>
  How a call of the start function ends: nothing to do, thread started, \<open>std::system_error\<close> rethrown,
  or \<open>std::terminate\<close>, which move-assigning a \<open>std::thread\<close> over a joinable one calls.
\<close>

datatype start_outcome = Already_Running | Started | Throws_System_Error | Terminates

text \<open>\<open>spawn\<close> is the construction of the thread: whether it succeeded.\<close>

definition worker_start :: "('s \<Rightarrow> bool \<times> 's) \<Rightarrow> worker \<times> 's \<Rightarrow> start_outcome \<times> worker \<times> 's" where
  "worker_start spawn ts =
     (let (t, s) = ts in
      if thread_running t then (Already_Running, t, s)
      else
        let t = t\<lparr>thread_running := True\<rparr>;
            (ok, s) = spawn s
        in if ok then
             if thread_joinable t then (Terminates, t, s)
             else (Started, t\<lparr>thread_joinable := True\<rparr>, s)
           else (Throws_System_Error, t\<lparr>thread_running := False\<rparr>, s))"

text \<open>
  What the \<open>initialize\<close> functions, which end in the start of the thread when so configured, report:
  the value they return, or how they fail to.
\<close>

definition after_start :: "start_outcome \<Rightarrow> start_outcome + bool" where
  "after_start r = (if r = Already_Running \<or> r = Started then Inr True else Inl r)"

definition worker_stop :: "worker \<Rightarrow> worker" where
  "worker_stop t =
     (if \<not> thread_running t then t
      else let t = t\<lparr>thread_running := False\<rparr>
           in if thread_joinable t then t\<lparr>thread_joinable := False\<rparr> else t)"

inductive worker_reachable :: "('s \<Rightarrow> bool \<times> 's) \<Rightarrow> worker \<times> 's \<Rightarrow> bool" for spawn where
  worker_init: "worker_reachable spawn (worker_new, s)"
| worker_started: "worker_reachable spawn ts \<Longrightarrow> worker_start spawn ts = (r, ts') \<Longrightarrow>
     worker_reachable spawn ts'"
| worker_stopped: "worker_reachable spawn (t, s) \<Longrightarrow> worker_reachable spawn (worker_stop t, s)"
| worker_environment: "worker_reachable spawn (t, s) \<Longrightarrow> worker_reachable spawn (t, s')"

lemma worker_reachable_flag:
  "worker_reachable spawn ts \<Longrightarrow> thread_running (fst ts) = thread_joinable (fst ts)"
  by (induction rule: worker_reachable.induct)
    (auto simp: worker_new_def worker_start_def worker_stop_def Let_def split: if_splits prod.splits)

section \<open>The loop\<close>

text \<open>The failure counter is a C++ \<open>int\<close>: incrementing its largest value is undefined.\<close>

definition INT_MAX :: int where "INT_MAX = 2 ^ 31 - 1"

definition count_failure :: "bool \<Rightarrow> int \<Rightarrow> int ub" where
  "count_failure success failures =
     (if success then Some 0 else if failures = INT_MAX then None else Some (failures + 1))"

text \<open>When the loop prints its warning.\<close>

definition warns :: "int \<Rightarrow> bool" where
  "warns failures \<longleftrightarrow> failures = 10 \<or> (0 < failures \<and> failures mod 100 = 0)"

text \<open>
  One iteration: the update, the failure counter, and the sleep for what is left of the interval
  (milliseconds; the clock counts nanoseconds).
\<close>

definition loop_body ::
  "('s \<Rightarrow> time) \<Rightarrow> (time \<Rightarrow> 's \<Rightarrow> 's) \<Rightarrow> ('s \<Rightarrow> (bool \<times> 's) ub) \<Rightarrow> int \<Rightarrow> int \<times> 's \<Rightarrow> (int \<times> 's) ub" where
  "loop_body now sleep update_once interval cs = do {
     let (failures, s) = cs;
     let start_time = now s;
     (success, s) \<leftarrow> update_once s;
     failures \<leftarrow> count_failure success failures;
     let elapsed = now s - start_time;
     let sleep_time = interval * 1000000 - elapsed;
     Some (failures, if sleep_time > 0 then sleep sleep_time s else s) }"

text \<open>
  The whole loop on a schedule of flag values. The result says whether the loop left (a load returned
  false) or the schedule ended first.
\<close>

fun worker_loop :: "(int \<times> 's \<Rightarrow> (int \<times> 's) ub) \<Rightarrow> bool list \<Rightarrow> int \<times> 's \<Rightarrow> (bool \<times> int \<times> 's) ub" where
  "worker_loop body [] cs = Some (False, cs)"
| "worker_loop body (running # loads) cs =
     (if running then do { cs \<leftarrow> body cs; worker_loop body loads cs } else Some (True, cs))"

locale poller =
  fixes step :: "'s \<Rightarrow> (bool \<times> 's) ub" and inv :: "'s \<Rightarrow> bool"
    and now :: "'s \<Rightarrow> time" and sleep :: "time \<Rightarrow> 's \<Rightarrow> 's"
  assumes step_inv: "step s = Some (b, s') \<Longrightarrow> inv s \<Longrightarrow> inv s'"
    and sleep_inv: "0 < t \<Longrightarrow> inv s \<Longrightarrow> inv (sleep t s)"
begin

lemma loop_body_inv:
  assumes "loop_body now sleep step interval (f, s) = Some (f', s')" and "inv s" and "0 \<le> f"
  shows "inv s' \<and> 0 \<le> f'"
  using assms step_inv sleep_inv
  by (auto simp: loop_body_def Let_def count_failure_def Option.bind_eq_Some_conv split: if_splits)

lemma worker_loop_inv:
  "worker_loop (loop_body now sleep step interval) loads (f, s) = Some (q, f', s') \<Longrightarrow>
   inv s \<Longrightarrow> 0 \<le> f \<Longrightarrow> inv s' \<and> 0 \<le> f'"
proof (induction loads arbitrary: f s)
  case (Cons l loads)
  then show ?case
    by (auto simp: Option.bind_eq_Some_conv split: if_splits dest: loop_body_inv)
qed simp

end

locale total_poller = poller +
  assumes step_total: "inv s \<Longrightarrow> \<exists>b s'. step s = Some (b, s')"
begin

lemma loop_body_total:
  assumes "inv s" and "0 \<le> f" and "f < INT_MAX"
  shows "\<exists>f' s'. loop_body now sleep step interval (f, s) = Some (f', s') \<and> inv s' \<and> 0 \<le> f' \<and> f' \<le> f + 1"
proof -
  from step_total [OF assms(1)] obtain b s1 where st: "step s = Some (b, s1)" by blast
  let ?f = "if b then 0 else f + 1"
  let ?t = "interval * 1000000 - (now s1 - now s)"
  have "loop_body now sleep step interval (f, s) = Some (?f, if ?t > 0 then sleep ?t s1 else s1)"
    using st assms by (simp add: loop_body_def Let_def count_failure_def)
  then show ?thesis
    using step_inv [OF st assms(1)] sleep_inv assms(2) by auto
qed

lemma worker_loop_total:
  "inv s \<Longrightarrow> 0 \<le> f \<Longrightarrow> f + int (length loads) \<le> INT_MAX \<Longrightarrow>
   \<exists>f' s'. worker_loop (loop_body now sleep step interval) loads (f, s)
      = Some (False \<in> set loads, f', s') \<and> inv s' \<and> 0 \<le> f' \<and> f' \<le> f + int (length loads)"
proof (induction loads arbitrary: f s)
  case (Cons l loads)
  show ?case
  proof (cases l)
    case True
    from Cons.prems loop_body_total [of s f interval] obtain f1 s1 where
      b: "loop_body now sleep step interval (f, s) = Some (f1, s1)" and
      inv: "inv s1" "0 \<le> f1" "f1 \<le> f + 1" by auto
    with Cons.prems have "f1 + int (length loads) \<le> INT_MAX" by simp
    from Cons.IH [OF inv(1,2) this] True b inv(3) show ?thesis by fastforce
  next
    case False
    then show ?thesis using Cons.prems by simp
  qed
qed simp

end

lemma worker_loop_stops:
  "worker_loop body (replicate n True @ False # loads) cs = worker_loop body (replicate n True @ [False]) cs"
  by (induction n arbitrary: cs) (auto split: Option.bind_splits)

section \<open>Properties\<close>

text \<open>
  The life of a background thread under its owner. After any sequence of starts (also failing ones)
  and stops, starting never assigns over a joinable thread, which would terminate the program; the flag
  is set exactly when a thread is joinable, also after a failed creation; and stopping always brings
  the worker back to its initial state, so the destructor never destroys a joinable thread.
\<close>

lemma worker_lifecycle:
  assumes "worker_reachable spawn (t, s)"
  shows "worker_stop t = worker_new
    \<and> (let (r, t', s') = worker_start spawn (t, s)
       in r \<noteq> Terminates \<and> (thread_running t' \<longleftrightarrow> r = Already_Running \<or> r = Started)
          \<and> thread_joinable t' = thread_running t')"
  using worker_reachable_flag [OF assms]
  by (cases t) (auto simp: worker_stop_def worker_new_def worker_start_def Let_def split: prod.splits)

lemma worker_lifecycle_instance:
  "worker_stop (fst (snd (worker_start (\<lambda>n. (True, n)) (worker_new, 0 :: nat)))) = worker_new"
proof -
  let ?ts = "snd (worker_start (\<lambda>n. (True, n)) (worker_new, 0 :: nat))"
  have "worker_reachable (\<lambda>n. (True, n)) (fst ?ts, snd ?ts)"
    by (rule worker_started [OF worker_init, of _ _ "fst (worker_start (\<lambda>n. (True, n)) (worker_new, 0 :: nat))"])
      simp
  from worker_lifecycle [OF this] show ?thesis by blast
qed

end
