(* ===== verification/Motor_Controller.thy ===== *)
theory Motor_Controller
  imports Udp_Client Worker
begin

text \<open>
  \<open>class MotorController\<close> (\<open>src/motor_controller.cpp\<close>): the guarded commands, the batch commands, the
  initialisation, status polling into the cache and the background thread. Operations that talk to
  the hardware take \<open>send_and_receive\<close> as the parameter \<open>xchg\<close>, over the state behind the
  \<open>shared_ptr<UdpClient>\<close>; the lemmas about them need only the locale \<open>exchange\<close>, and the properties
  are stated for the UDP client's \<open>send_and_receive\<close> on every operating system.
\<close>

section \<open>State\<close>

record MotorControllerConfig =
  mcc_auto_start_thread :: bool
  mcc_update_interval :: int

definition MotorControllerConfig_default :: MotorControllerConfig where
  "MotorControllerConfig_default = \<lparr>mcc_auto_start_thread = True, mcc_update_interval = 100\<rparr>"

record MotorController =
  mc_config :: MotorControllerConfig
  mc_cached_status :: "MotorStatus list"
  mc_worker :: worker

definition MotorStatus_default :: MotorStatus where
  "MotorStatus_default = \<lparr>ms_motor_id = 0, ms_target_position = 0, ms_actual_position = 0,
     ms_actual_current = 0, ms_force_value = 0, ms_force_raw = 0, ms_temperature = 0,
     ms_fault_code = 0, ms_timestamp = 0\<rparr>"

definition MotorController_new :: "MotorControllerConfig \<Rightarrow> time \<Rightarrow> MotorController" where
  "MotorController_new config now =
     \<lparr>mc_config = config,
      mc_cached_status = map (\<lambda>i. MotorStatus_default\<lparr>ms_motor_id := of_nat (i + 1),
        ms_timestamp := now\<rparr>) [0..<NUM_MOTORS],
      mc_worker = worker_new\<rparr>"

section \<open>Guards\<close>

definition is_valid_motor_id :: "u8 \<Rightarrow> bool" where
  "is_valid_motor_id motor_id \<longleftrightarrow> 1 \<le> motor_id \<and> unat motor_id \<le> NUM_MOTORS"

definition is_valid_mode :: "u8 \<Rightarrow> bool" where
  "is_valid_mode mode \<longleftrightarrow> mode \<le> MODE_SPEED_FORCE"

definition is_valid_force :: "u16 \<Rightarrow> bool" where
  "is_valid_force force \<longleftrightarrow> force \<le> MOTOR_FORCE_MAX"

definition is_valid_position :: "u16 \<Rightarrow> bool" where
  "is_valid_position position \<longleftrightarrow> position \<le> MOTOR_POSITION_MAX"

section \<open>Single commands\<close>

definition set_motor_mode :: "'s xchg \<Rightarrow> u8 \<Rightarrow> u8 \<Rightarrow> 's \<Rightarrow> (bool \<times> 's) ub" where
  "set_motor_mode xchg motor_id mode s =
     (if \<not> is_valid_motor_id motor_id then Some (False, s)
      else if \<not> is_valid_mode mode then Some (False, s)
      else do {
        packet \<leftarrow> encode_set_motor_mode motor_id mode;
        (response, s) \<leftarrow> xchg packet s;
        if response = None then Some (False, s) else Some (True, s) })"

definition set_motor_position :: "'s xchg \<Rightarrow> u8 \<Rightarrow> u16 \<Rightarrow> 's \<Rightarrow> (bool \<times> 's) ub" where
  "set_motor_position xchg motor_id position s =
     (if \<not> is_valid_motor_id motor_id then Some (False, s)
      else if \<not> is_valid_position position then Some (False, s)
      else do {
        packet \<leftarrow> encode_set_motor_position motor_id position;
        (response, s) \<leftarrow> xchg packet s;
        if response = None then Some (False, s) else Some (True, s) })"

definition set_motor_force :: "'s xchg \<Rightarrow> u8 \<Rightarrow> u16 \<Rightarrow> 's \<Rightarrow> (bool \<times> 's) ub" where
  "set_motor_force xchg motor_id force s =
     (if \<not> is_valid_motor_id motor_id then Some (False, s)
      else if \<not> is_valid_force force then Some (False, s)
      else do {
        packet \<leftarrow> encode_set_motor_force motor_id force;
        (response, s) \<leftarrow> xchg packet s;
        if response = None then Some (False, s) else Some (True, s) })"

definition set_motor_speed :: "'s xchg \<Rightarrow> u8 \<Rightarrow> u16 \<Rightarrow> u16 \<Rightarrow> 's \<Rightarrow> (bool \<times> 's) ub" where
  "set_motor_speed xchg motor_id speed target_position s =
     (if \<not> is_valid_motor_id motor_id then Some (False, s)
      else if \<not> is_valid_position target_position then Some (False, s)
      else do {
        packet \<leftarrow> encode_set_motor_speed motor_id speed target_position;
        (response, s) \<leftarrow> xchg packet s;
        if response = None then Some (False, s) else Some (True, s) })"

section \<open>Batch commands\<close>

text \<open>The motor ids the loops run through, and the loop that goes on after a failure.\<close>

definition motor_ids :: "u8 list" where
  "motor_ids = map of_nat [1..<NUM_MOTORS + 1]"

fun run_all :: "('k \<Rightarrow> 's \<Rightarrow> (bool \<times> 's) ub) \<Rightarrow> 'k list \<Rightarrow> bool \<Rightarrow> 's \<Rightarrow> (bool \<times> 's) ub" where
  "run_all command [] success s = Some (success, s)"
| "run_all command (k # ks) success s = do {
     (ok, s) \<leftarrow> command k s;
     run_all command ks (if \<not> ok then False else success) s }"

definition set_all_modes :: "'s xchg \<Rightarrow> u8 \<Rightarrow> 's \<Rightarrow> (bool \<times> 's) ub" where
  "set_all_modes xchg mode s =
     run_all (\<lambda>motor_id. set_motor_mode xchg motor_id mode) motor_ids True s"

text \<open>The batch arguments are \<open>std::array\<close>s; reading one is undefined if it is too short.\<close>

definition set_all_positions :: "'s xchg \<Rightarrow> u16 list \<Rightarrow> 's \<Rightarrow> (bool \<times> 's) ub" where
  "set_all_positions xchg positions s =
     run_all (\<lambda>i s. do {
        let motor_id = of_nat (i + 1);
        position \<leftarrow> rd positions i;
        set_motor_position xchg motor_id position s }) [0..<NUM_MOTORS] True s"

definition set_all_forces :: "'s xchg \<Rightarrow> u16 list \<Rightarrow> 's \<Rightarrow> (bool \<times> 's) ub" where
  "set_all_forces xchg forces s =
     run_all (\<lambda>i s. do {
        let motor_id = of_nat (i + 1);
        force \<leftarrow> rd forces i;
        set_motor_force xchg motor_id force s }) [0..<NUM_MOTORS] True s"

section \<open>The background thread and initialisation\<close>

text \<open>\<open>spawn\<close> creates the thread; it says whether \<open>std::thread\<close> could be constructed.\<close>

definition start_status_update_thread ::
  "('s \<Rightarrow> bool \<times> 's) \<Rightarrow> MotorController \<times> 's \<Rightarrow> start_outcome \<times> MotorController \<times> 's" where
  "start_status_update_thread spawn ms =
     (let (m, s) = ms; (r, t, s) = worker_start spawn (mc_worker m, s)
      in (r, m\<lparr>mc_worker := t\<rparr>, s))"

definition stop_status_update_thread :: "MotorController \<Rightarrow> MotorController" where
  "stop_status_update_thread m = m\<lparr>mc_worker := worker_stop (mc_worker m)\<rparr>"

definition motor_thread_running :: "MotorController \<Rightarrow> bool" where
  "motor_thread_running m = thread_running (mc_worker m)"

text \<open>The destructor, which stops the thread.\<close>

definition motor_destroy :: "MotorController \<Rightarrow> MotorController" where
  "motor_destroy m = stop_status_update_thread m"

definition motor_initialize ::
  "'s xchg \<Rightarrow> ('s \<Rightarrow> bool \<times> 's) \<Rightarrow> MotorController \<times> 's
    \<Rightarrow> ((start_outcome + bool) \<times> MotorController \<times> 's) ub" where
  "motor_initialize xchg spawn ms = do {
     let (m, s) = ms;
     (modes_ok, s) \<leftarrow> set_all_modes xchg MODE_FORCE s;
     if \<not> modes_ok then Some (Inr False, m, s)
     else do {
       let forces = replicate NUM_MOTORS 10;
       (forces_ok, s) \<leftarrow> set_all_forces xchg forces s;
       if \<not> forces_ok then Some (Inr False, m, s)
       else if mcc_auto_start_thread (mc_config m) then
         (let (r, m, s) = start_status_update_thread spawn (m, s) in Some (after_start r, m, s))
       else Some (Inr True, m, s) } }"

section \<open>Status\<close>

definition get_motor_status ::
  "'s xchg \<Rightarrow> ('s \<Rightarrow> time) \<Rightarrow> u8 \<Rightarrow> 's \<Rightarrow> (MotorStatus option \<times> 's) ub" where
  "get_motor_status xchg now motor_id s =
     (if \<not> is_valid_motor_id motor_id then Some (None, s)
      else do {
        packet \<leftarrow> encode_read_motor_status motor_id;
        (response, s) \<leftarrow> xchg packet s;
        case response of
          None \<Rightarrow> Some (None, s)
        | Some p \<Rightarrow> do { status \<leftarrow> parse_motor_status p (now s); Some (status, s) } })"

definition get_cached_status :: "MotorController \<Rightarrow> u8 \<Rightarrow> MotorStatus option ub" where
  "get_cached_status m motor_id =
     (if \<not> is_valid_motor_id motor_id then Some None
      else do { st \<leftarrow> rd (mc_cached_status m) (unat motor_id - 1); Some (Some st) })"

definition get_all_cached_status :: "MotorController \<Rightarrow> MotorStatus list" where
  "get_all_cached_status m = mc_cached_status m"

text \<open>Milliseconds; \<open>duration_cast\<close> truncates, and \<open>milliseconds::max()\<close> holds a 64-bit count.\<close>

definition get_status_age :: "MotorController \<Rightarrow> u8 \<Rightarrow> time \<Rightarrow> int ub" where
  "get_status_age m motor_id now =
     (if \<not> is_valid_motor_id motor_id then Some (2 ^ 63 - 1)
      else do {
        st \<leftarrow> rd (mc_cached_status m) (unat motor_id - 1);
        Some ((now - ms_timestamp st) sdiv 1000000) })"

fun update_motors ::
  "'s xchg \<Rightarrow> ('s \<Rightarrow> time) \<Rightarrow> u8 list \<Rightarrow> bool \<Rightarrow> MotorController \<times> 's
    \<Rightarrow> (bool \<times> MotorController \<times> 's) ub" where
  "update_motors xchg now [] any_success (m, s) = Some (any_success, m, s)"
| "update_motors xchg now (motor_id # ids) any_success (m, s) = do {
     (status, s) \<leftarrow> get_motor_status xchg now motor_id s;
     case status of
       None \<Rightarrow> update_motors xchg now ids any_success (m, s)
     | Some st \<Rightarrow> do {
         cache \<leftarrow> wr (mc_cached_status m) (unat motor_id - 1) st;
         update_motors xchg now ids True (m\<lparr>mc_cached_status := cache\<rparr>, s) } }"

definition motor_update_once ::
  "'s xchg \<Rightarrow> ('s \<Rightarrow> time) \<Rightarrow> MotorController \<times> 's \<Rightarrow> (bool \<times> MotorController \<times> 's) ub" where
  "motor_update_once xchg now ms = update_motors xchg now motor_ids False ms"

text \<open>
  \<open>status_update_loop\<close> loads the flag twice per iteration, before and after it takes the start time;
  \<open>loads\<close> are the values the loads return, as in \<^const>\<open>worker_loop\<close>.
\<close>

fun status_update_loop ::
  "(int \<times> 's \<Rightarrow> (int \<times> 's) ub) \<Rightarrow> bool list \<Rightarrow> int \<times> 's \<Rightarrow> (bool \<times> int \<times> 's) ub" where
  "status_update_loop body [] cs = Some (False, cs)"
| "status_update_loop body [running] cs = Some (\<not> running, cs)"
| "status_update_loop body (running # again # loads) cs =
     (if running \<and> again then do { cs \<leftarrow> body cs; status_update_loop body loads cs }
      else Some (True, cs))"

section \<open>Commands as requests\<close>

text \<open>
  The specification of the guards: which requests the controller is willing to send. A command is a
  permitted request that was answered; a request that is not permitted is refused without any
  communication.
\<close>

fun permitted :: "request \<Rightarrow> bool" where
  "permitted (Set_Mode i m) \<longleftrightarrow> i \<in> {1..6} \<and> m \<le> 5"
| "permitted (Set_Position i v) \<longleftrightarrow> i \<in> {1..6} \<and> v \<le> 2000"
| "permitted (Set_Force i v) \<longleftrightarrow> i \<in> {1..6} \<and> v \<le> 4095"
| "permitted (Set_Speed i v p) \<longleftrightarrow> i \<in> {1..6} \<and> p \<le> 2000"
| "permitted (Read_Status i) \<longleftrightarrow> i \<in> {1..6}"
| "permitted r \<longleftrightarrow> True"

definition request_packet :: "request \<Rightarrow> Packet" where
  "request_packet r = the (encode_request r)"

definition commanded :: "'s xchg \<Rightarrow> request \<Rightarrow> 's \<Rightarrow> (bool \<times> 's) ub" where
  "commanded xchg r s =
     (if permitted r then map_option (\<lambda>(response, s). (response \<noteq> None, s)) (xchg (request_packet r) s)
      else Some (False, s))"

lemma encode_request_packet: "encode_request r = Some (request_packet r)"
  using encode_request_wf [of r] by (auto simp: request_packet_def)

lemma status_request_body [simp]: "length (pkt_body (request_packet (Read_Status i))) = 8"
  using encode_request_size [OF encode_request_packet [of "Read_Status i"]] by simp

lemma encode_as_request [ub_simps]:
  "encode_set_motor_mode i m = Some (request_packet (Set_Mode i m))"
  "encode_set_motor_position i v = Some (request_packet (Set_Position i v))"
  "encode_set_motor_force i v = Some (request_packet (Set_Force i v))"
  "encode_set_motor_speed i v p = Some (request_packet (Set_Speed i v p))"
  "encode_read_motor_status i = Some (request_packet (Read_Status i))"
  by (simp_all add: encode_request_packet [symmetric])

lemma valid_motor_id_iff: "is_valid_motor_id i \<longleftrightarrow> i \<in> {1..6}"
  by (simp add: is_valid_motor_id_def NUM_MOTORS_def word_le_nat_alt)

lemma valid_motor_id_index: "is_valid_motor_id i \<Longrightarrow> unat i - 1 < 6"
  by (auto simp: is_valid_motor_id_def NUM_MOTORS_def word_le_nat_alt)

lemmas guard_defs = valid_motor_id_iff is_valid_mode_def is_valid_position_def is_valid_force_def
  MODE_SPEED_FORCE_def MOTOR_POSITION_MAX_def MOTOR_FORCE_MAX_def

lemma set_motor_commands:
  "set_motor_mode xchg i m = commanded xchg (Set_Mode i m)"
  "set_motor_position xchg i v = commanded xchg (Set_Position i v)"
  "set_motor_force xchg i v = commanded xchg (Set_Force i v)"
  "set_motor_speed xchg i v p = commanded xchg (Set_Speed i v p)"
  by (auto simp: fun_eq_iff set_motor_mode_def set_motor_position_def set_motor_force_def
      set_motor_speed_def commanded_def guard_defs encode_as_request map_option_case
      split: Option.bind_splits option.splits)

text \<open>A batch is the exchange of its permitted requests, in order, whatever is answered.\<close>

lemma run_all_cong:
  "(\<And>k. k \<in> set ks \<Longrightarrow> f k = g k) \<Longrightarrow> run_all f ks b s = run_all g ks b s"
proof (induction ks arbitrary: b s)
  case (Cons k ks)
  then have "run_all f ks = run_all g ks" by (simp add: fun_eq_iff)
  with Cons.prems [of k] show ?case by simp
qed simp

lemma run_all_commanded:
  "run_all (\<lambda>k. commanded xchg (r k)) ks b s = do {
     (rs, s) \<leftarrow> exchange_all xchg (map request_packet (filter permitted (map r ks))) s;
     Some (b \<and> (\<forall>k \<in> set ks. permitted (r k)) \<and> None \<notin> set rs, s) }"
proof (induction ks arbitrary: b s)
  case (Cons k ks)
  show ?case
  proof (cases "permitted (r k)")
    case True
    then have "commanded xchg (r k) s
        = map_option (\<lambda>(response, s). (response \<noteq> None, s)) (xchg (request_packet (r k)) s)"
      by (simp add: commanded_def)
    with True show ?thesis
      by (cases "xchg (request_packet (r k)) s") (auto simp: Cons.IH split: Option.bind_splits)
  next
    case False
    then have "commanded xchg (r k) s = Some (False, s)" by (simp add: commanded_def)
    with False show ?thesis
      by (auto simp: Cons.IH split: Option.bind_splits)
  qed
qed simp

lemma motor_ids_eq: "motor_ids = [1, 2, 3, 4, 5, 6]"
  by (simp add: motor_ids_def NUM_MOTORS_def upt_rec)

lemma batch_permitted:
  fixes vs :: "u16 list"
  assumes "length vs = 6" and "\<And>i v. i \<in> {1..6} \<Longrightarrow> ok i v \<longleftrightarrow> good v"
  shows "filter (\<lambda>i. ok (of_nat (i + 1) :: u8) (vs ! i)) [0..<6] = filter (\<lambda>i. good (vs ! i)) [0..<6]"
    and "(\<forall>i \<in> set [0..<6]. ok (of_nat (i + 1) :: u8) (vs ! i)) \<longleftrightarrow> (\<forall>v \<in> set vs. good v)"
proof -
  have "(of_nat (i + 1) :: u8) \<in> {1..6}" if "i \<in> set [0..<6]" for i
    using that by (auto simp: upt_rec)
  then have ok: "ok (of_nat (i + 1) :: u8) (vs ! i) \<longleftrightarrow> good (vs ! i)" if "i \<in> set [0..<6]" for i
    using that assms(2) by blast
  show "filter (\<lambda>i. ok (of_nat (i + 1) :: u8) (vs ! i)) [0..<6] = filter (\<lambda>i. good (vs ! i)) [0..<6]"
    by (rule filter_cong [OF refl ok])
  have "(\<forall>i \<in> set [0..<6]. ok (of_nat (i + 1) :: u8) (vs ! i)) \<longleftrightarrow> (\<forall>i \<in> set [0..<6]. good (vs ! i))"
    by (rule ball_cong [OF refl ok])
  also have "\<dots> \<longleftrightarrow> (\<forall>v \<in> set vs. good v)"
    using assms(1) by (auto simp: all_set_conv_all_nth)
  finally show "(\<forall>i \<in> set [0..<6]. ok (of_nat (i + 1) :: u8) (vs ! i)) \<longleftrightarrow> (\<forall>v \<in> set vs. good v)" .
qed

lemma run_array:
  fixes vs :: "u16 list" and r :: "u8 \<Rightarrow> u16 \<Rightarrow> request"
  assumes "length vs = 6" and "\<And>i v. i \<in> {1..6} \<Longrightarrow> permitted (r i v) \<longleftrightarrow> good v"
  shows "run_all (\<lambda>i. commanded xchg (r (of_nat (i + 1)) (vs ! i))) [0..<6] True s = do {
     (rs, s) \<leftarrow> exchange_all xchg (map (\<lambda>i. request_packet (r (of_nat (i + 1)) (vs ! i)))
       (filter (\<lambda>i. good (vs ! i)) [0..<6])) s;
     Some ((\<forall>v \<in> set vs. good v) \<and> None \<notin> set rs, s) }"
proof -
  note ok = batch_permitted [OF assms(1), of "\<lambda>i v. permitted (r i v)" good, OF assms(2)]
  show ?thesis
    by (simp only: run_all_commanded filter_map comp_def ok map_map simp_thms)
qed

lemma set_all_modes_eq:
  "set_all_modes xchg mode = run_all (\<lambda>i. commanded xchg (Set_Mode i mode)) motor_ids True"
  by (simp add: fun_eq_iff set_all_modes_def set_motor_commands)

lemma set_all_positions_eq:
  assumes "length positions = 6"
  shows "set_all_positions xchg positions =
    run_all (\<lambda>i. commanded xchg (Set_Position (of_nat (i + 1)) (positions ! i))) [0..<6] True"
  unfolding fun_eq_iff set_all_positions_def NUM_MOTORS_def Let_def set_motor_commands
  by (intro allI run_all_cong) (use assms in \<open>simp add: fun_eq_iff\<close>)

lemma set_all_forces_eq:
  assumes "length forces = 6"
  shows "set_all_forces xchg forces =
    run_all (\<lambda>i. commanded xchg (Set_Force (of_nat (i + 1)) (forces ! i))) [0..<6] True"
  unfolding fun_eq_iff set_all_forces_def NUM_MOTORS_def Let_def set_motor_commands
  by (intro allI run_all_cong) (use assms in \<open>simp add: fun_eq_iff\<close>)

section \<open>Initialisation and polling in terms of exchanges\<close>

lemma all_permitted_packets:
  "\<forall>k \<in> set ks. permitted (r k) \<Longrightarrow> filter permitted (map r ks) = map r ks"
  by (rule filter_True) auto

lemma set_all_permitted:
  "set_all_modes xchg MODE_FORCE s = do {
     (rs, s) \<leftarrow> exchange_all xchg (map (\<lambda>i. request_packet (Set_Mode i 3)) motor_ids) s;
     Some (None \<notin> set rs, s) }"
  "set_all_forces xchg (replicate NUM_MOTORS 10) s = do {
     (rs, s) \<leftarrow> exchange_all xchg (map (\<lambda>i. request_packet (Set_Force i 10)) motor_ids) s;
     Some (None \<notin> set rs, s) }"
proof -
  show "set_all_modes xchg MODE_FORCE s = do {
     (rs, s) \<leftarrow> exchange_all xchg (map (\<lambda>i. request_packet (Set_Mode i 3)) motor_ids) s;
     Some (None \<notin> set rs, s) }"
    by (simp add: set_all_modes_eq run_all_commanded all_permitted_packets comp_def motor_ids_eq
        MODE_FORCE_def)
  have "map (\<lambda>i. Set_Force (of_nat (i + 1)) (replicate 6 10 ! i)) [0..<6]
      = map (\<lambda>i. Set_Force i 10) motor_ids"
    by (simp add: motor_ids_eq upt_rec)
  moreover have "\<forall>i \<in> set [0..<6]. permitted (Set_Force (of_nat (i + 1)) (replicate 6 10 ! i))"
    by (simp add: upt_rec)
  ultimately show "set_all_forces xchg (replicate NUM_MOTORS 10) s = do {
     (rs, s) \<leftarrow> exchange_all xchg (map (\<lambda>i. request_packet (Set_Force i 10)) motor_ids) s;
     Some (None \<notin> set rs, s) }"
    unfolding NUM_MOTORS_def
    by (simp only: set_all_forces_eq [OF length_replicate] run_all_commanded all_permitted_packets
        map_map comp_def simp_thms)
      (simp add: motor_ids_eq upt_rec)
qed

lemma get_motor_status_eq:
  "is_valid_motor_id i \<Longrightarrow> get_motor_status xchg now i s = do {
     (response, s) \<leftarrow> xchg (request_packet (Read_Status i)) s;
     case response of
       None \<Rightarrow> Some (None, s)
     | Some p \<Rightarrow> do { status \<leftarrow> parse_motor_status p (now s); Some (status, s) } }"
  by (simp add: get_motor_status_def encode_as_request)

text \<open>Polling in general, without the cache: what \<open>get_motor_status\<close> returns for each motor in turn.\<close>

fun poll_motors ::
  "'s xchg \<Rightarrow> ('s \<Rightarrow> time) \<Rightarrow> u8 list \<Rightarrow> 's \<Rightarrow> (MotorStatus option list \<times> 's) ub" where
  "poll_motors xchg now [] s = Some ([], s)"
| "poll_motors xchg now (i # ids) s = do {
     (st, s) \<leftarrow> get_motor_status xchg now i s;
     (sts, s) \<leftarrow> poll_motors xchg now ids s;
     Some (st # sts, s) }"

lemma poll_motors_length: "poll_motors xchg now ids s = Some (sts, s') \<Longrightarrow> length sts = length ids"
  by (induction ids arbitrary: s sts) (auto simp: Option.bind_eq_Some_conv)

definition keep_or_take :: "MotorStatus \<Rightarrow> MotorStatus option \<Rightarrow> MotorStatus" where
  "keep_or_take old st = (case st of None \<Rightarrow> old | Some new \<Rightarrow> new)"

fun store_polled :: "u8 list \<Rightarrow> MotorStatus option list \<Rightarrow> MotorStatus list \<Rightarrow> MotorStatus list" where
  "store_polled (i # ids) (st # sts) cache =
     store_polled ids sts (case st of None \<Rightarrow> cache | Some v \<Rightarrow> cache[unat i - 1 := v])"
| "store_polled ids sts cache = cache"

lemma update_motors_eq:
  "\<forall>i \<in> set ids. is_valid_motor_id i \<Longrightarrow> length (mc_cached_status m) = 6 \<Longrightarrow>
   update_motors xchg now ids any (m, s) = do {
     (sts, s) \<leftarrow> poll_motors xchg now ids s;
     Some (any \<or> (\<exists>st \<in> set sts. st \<noteq> None),
       m\<lparr>mc_cached_status := store_polled ids sts (mc_cached_status m)\<rparr>, s) }"
proof (induction ids arbitrary: any m s)
  case (Cons i ids)
  show ?case
  proof (cases "get_motor_status xchg now i s")
    case (Some r)
    obtain st s1 where r: "r = (st, s1)" by (cases r)
    then show ?thesis
      using Some Cons.prems valid_motor_id_index [of i]
      by (cases st) (auto simp: Cons.IH split: Option.bind_splits)
  qed simp
qed simp

lemma list_of_length_6: "length xs = 6 \<Longrightarrow> \<exists>a b c d e f. xs = [a, b, c, d, e, f]"
  by (auto simp: length_Suc_conv numeral_eq_Suc)

lemma store_polled_all:
  assumes "length cache = 6" and "length sts = 6"
  shows "store_polled motor_ids sts cache = map2 keep_or_take cache sts"
proof -
  obtain a b c d e f where c: "cache = [a, b, c, d, e, f]" using list_of_length_6 [OF assms(1)] by blast
  obtain a' b' c' d' e' f' where s: "sts = [a', b', c', d', e', f']"
    using list_of_length_6 [OF assms(2)] by blast
  show ?thesis unfolding c s motor_ids_eq
    by (simp add: keep_or_take_def split: option.splits)
qed

lemma motor_update_once_eq:
  assumes "length (mc_cached_status m) = 6"
  shows "motor_update_once xchg now (m, s) = do {
     (sts, s) \<leftarrow> poll_motors xchg now motor_ids s;
     Some (\<exists>st \<in> set sts. st \<noteq> None,
       m\<lparr>mc_cached_status := map2 keep_or_take (mc_cached_status m) sts\<rparr>, s) }"
proof -
  have "\<forall>i \<in> set motor_ids. is_valid_motor_id i"
    by (simp add: motor_ids_eq valid_motor_id_iff)
  then have eq: "motor_update_once xchg now (m, s) = do {
     (sts, s) \<leftarrow> poll_motors xchg now motor_ids s;
     Some (\<exists>st \<in> set sts. st \<noteq> None,
       m\<lparr>mc_cached_status := store_polled motor_ids sts (mc_cached_status m)\<rparr>, s) }"
    using assms by (simp add: motor_update_once_def update_motors_eq)
  show ?thesis
  proof (cases "poll_motors xchg now motor_ids s")
    case (Some r)
    obtain sts s1 where r: "r = (sts, s1)" by (cases r)
    have "length motor_ids = 6" by (simp add: motor_ids_eq)
    with Some r have "length sts = 6" by (auto dest: poll_motors_length)
    then show ?thesis using eq Some r assms by (simp add: store_polled_all)
  qed (simp add: eq)
qed

text \<open>The replies \<open>parse_motor_status\<close> reads out of bounds.\<close>

definition short_status_reply :: "Packet \<Rightarrow> bool" where
  "short_status_reply q \<longleftrightarrow> motor_reply_shape q \<and> length (pkt_body q) = 18"

definition no_short_replies :: "'s xchg \<Rightarrow> bool" where
  "no_short_replies xchg \<longleftrightarrow>
     (\<forall>p s q s'. xchg p s = Some (Some q, s') \<longrightarrow> \<not> short_status_reply q)"

section \<open>The controller as a client of the exchange interface\<close>

context exchange
begin

lemma commanded_total: "\<exists>b s'. commanded xchg r s = Some (b, s') \<and> (inv s \<longrightarrow> inv s')"
proof (cases "permitted r")
  case True
  obtain resp s' where x: "xchg (request_packet r) s = Some (resp, s')" by (rule xchg_cases)
  with True show ?thesis by (auto simp: commanded_def dest: xchg_inv)
qed (auto simp: commanded_def)

lemma run_all_total:
  "\<exists>b' s'. run_all (\<lambda>k. commanded xchg (r k)) ks b s = Some (b', s') \<and> (inv s \<longrightarrow> inv s')"
proof (induction ks arbitrary: b s)
  case (Cons k ks)
  obtain ok s1 where "commanded xchg (r k) s = Some (ok, s1)" "inv s \<longrightarrow> inv s1"
    using commanded_total by blast
  then show ?case using Cons.IH [of "if \<not> ok then False else b" s1] by auto
qed simp

lemma set_motor_total:
  "\<exists>b s'. set_motor_mode xchg i v s = Some (b, s') \<and> (inv s \<longrightarrow> inv s')"
  "\<exists>b s'. set_motor_position xchg i p s = Some (b, s') \<and> (inv s \<longrightarrow> inv s')"
  "\<exists>b s'. set_motor_force xchg i p s = Some (b, s') \<and> (inv s \<longrightarrow> inv s')"
  "\<exists>b s'. set_motor_speed xchg i q p s = Some (b, s') \<and> (inv s \<longrightarrow> inv s')"
  unfolding set_motor_commands by (rule commanded_total)+

lemma set_all_total:
  "\<exists>b s'. set_all_modes xchg v s = Some (b, s') \<and> (inv s \<longrightarrow> inv s')"
  "length ps = 6 \<Longrightarrow> \<exists>b s'. set_all_positions xchg ps s = Some (b, s') \<and> (inv s \<longrightarrow> inv s')"
  "length ps = 6 \<Longrightarrow> \<exists>b s'. set_all_forces xchg ps s = Some (b, s') \<and> (inv s \<longrightarrow> inv s')"
  by (simp_all only: set_all_modes_eq set_all_positions_eq set_all_forces_eq run_all_total)

lemma motor_initialize_total:
  assumes "\<not> mcc_auto_start_thread (mc_config m)"
  shows "\<exists>b s'. motor_initialize xchg spawn (m, s) = Some (Inr b, m, s') \<and> (inv s \<longrightarrow> inv s')"
proof -
  obtain b1 s1 where m: "set_all_modes xchg MODE_FORCE s = Some (b1, s1)" "inv s \<longrightarrow> inv s1"
    using set_all_total(1) by blast
  obtain b2 s2 where f: "set_all_forces xchg (replicate NUM_MOTORS 10) s1 = Some (b2, s2)" "inv s1 \<longrightarrow> inv s2"
    using set_all_total(3) [of "replicate NUM_MOTORS 10" s1] by (auto simp: NUM_MOTORS_def)
  show ?thesis using m f assms by (cases b1; cases b2) (auto simp: motor_initialize_def)
qed

lemma get_motor_status_inv:
  "get_motor_status xchg now i s = Some (st, s') \<Longrightarrow> inv s \<Longrightarrow> inv s'"
  by (auto simp: get_motor_status_def encode_as_request Option.bind_eq_Some_conv
      split: if_splits option.splits dest: xchg_inv)

lemma update_motors_inv:
  "update_motors xchg now ids any (m, s) = Some (b, m', s') \<Longrightarrow> inv s \<Longrightarrow>
   inv s' \<and> length (mc_cached_status m') = length (mc_cached_status m)"
proof (induction ids arbitrary: any m s)
  case (Cons i ids)
  from Cons.prems obtain st s1 where g: "get_motor_status xchg now i s = Some (st, s1)"
    by (auto simp: Option.bind_eq_Some_conv)
  note inv = get_motor_status_inv [OF g Cons.prems(2)]
  show ?case
  proof (cases st)
    case None
    with Cons g inv show ?thesis by simp
  next
    case (Some v)
    with Cons.prems(1) g obtain cache where "wr (mc_cached_status m) (unat i - 1) v = Some cache"
      "update_motors xchg now ids True (m\<lparr>mc_cached_status := cache\<rparr>, s1) = Some (b, m', s')"
      by (auto simp: Option.bind_eq_Some_conv)
    with Cons.IH [OF _ inv] show ?thesis by (auto dest: wr_length)
  qed
qed simp

text \<open>Polling is defined as long as no exchange returns a status reply of 18 bytes.\<close>

lemma get_motor_status_total:
  assumes "no_short_replies xchg"
  shows "\<exists>st s'. get_motor_status xchg now i s = Some (st, s') \<and> (inv s \<longrightarrow> inv s')"
proof (cases "is_valid_motor_id i")
  case True
  obtain resp s' where x: "xchg (request_packet (Read_Status i)) s = Some (resp, s')" by (rule xchg_cases)
  show ?thesis
    using x xchg_inv [OF x] assms [unfolded no_short_replies_def] True
    by (cases resp) (auto simp: get_motor_status_eq parse_motor_status_eq short_status_reply_def)
qed (simp add: get_motor_status_def)

lemma update_motors_total:
  assumes "no_short_replies xchg"
  shows "\<forall>i \<in> set ids. is_valid_motor_id i \<Longrightarrow> length (mc_cached_status m) = 6 \<Longrightarrow>
    \<exists>b m' s'. update_motors xchg now ids any (m, s) = Some (b, m', s')
      \<and> length (mc_cached_status m') = 6 \<and> (inv s \<longrightarrow> inv s')"
proof (induction ids arbitrary: any m s)
  case (Cons i ids)
  obtain st s1 where g: "get_motor_status xchg now i s = Some (st, s1)" "inv s \<longrightarrow> inv s1"
    using get_motor_status_total [OF assms] by blast
  have i: "unat i - 1 < length (mc_cached_status m)"
    using Cons.prems valid_motor_id_index [of i] by simp
  have IH: "length (mc_cached_status m') = 6 \<Longrightarrow>
      \<exists>b m'' s'. update_motors xchg now ids any' (m', s1) = Some (b, m'', s')
        \<and> length (mc_cached_status m'') = 6 \<and> (inv s1 \<longrightarrow> inv s')" for any' m'
    using Cons.IH Cons.prems(1) by simp
  show ?case
  proof (cases st)
    case None
    with g IH [OF Cons.prems(2), of any] show ?thesis by auto
  next
    case (Some v)
    have "length (mc_cached_status (m\<lparr>mc_cached_status := (mc_cached_status m)[unat i - 1 := v]\<rparr>)) = 6"
      using Cons.prems(2) by simp
    from IH [OF this, of True] Some g i show ?thesis by auto
  qed
qed simp

lemma motor_update_once_total:
  assumes "no_short_replies xchg"
    and "length (mc_cached_status m) = 6"
  shows "\<exists>b m' s'. motor_update_once xchg now (m, s) = Some (b, m', s')
      \<and> length (mc_cached_status m') = 6 \<and> (inv s \<longrightarrow> inv s')"
proof -
  have "\<forall>i \<in> set motor_ids. is_valid_motor_id i"
    by (simp add: motor_ids_eq valid_motor_id_iff)
  from update_motors_total [OF assms(1) this assms(2)] show ?thesis
    by (simp add: motor_update_once_def)
qed

end

interpretation motor_poll: poller "motor_update_once (send_and_receive os) (link_now os)"
    "\<lambda>(m, s). length (mc_cached_status m) = 6 \<and> udp_inv (fst s)"
    "\<lambda>ms. link_now os (snd ms)" "\<lambda>t ms. (fst ms, link_sleep os t (snd ms))" for os
proof
  fix ms ms' b
  assume "motor_update_once (send_and_receive os) (link_now os) ms = Some (b, ms')"
    and "case ms of (m, s) \<Rightarrow> length (mc_cached_status m) = 6 \<and> udp_inv (fst s)"
  then show "case ms' of (m, s) \<Rightarrow> length (mc_cached_status m) = 6 \<and> udp_inv (fst s)"
    by (cases ms, cases ms') (auto simp: motor_update_once_def dest!: udp.update_motors_inv)
qed auto

text \<open>The loop with its second load of the flag is the common loop on the conjunctions of the pairs.\<close>

fun both_loads :: "bool list \<Rightarrow> bool list" where
  "both_loads (a # b # loads) = (a \<and> b) # both_loads loads"
| "both_loads [a] = (if a then [] else [False])"
| "both_loads [] = []"

lemma status_update_loop_eq: "status_update_loop body loads cs = worker_loop body (both_loads loads) cs"
  by (induction body loads cs rule: status_update_loop.induct) (auto split: Option.bind_splits)

section \<open>Properties\<close>

text \<open>
  The guards of the single commands. A command whose motor id is not 1..6, whose mode exceeds 5, or
  whose position or force exceeds its limit is refused with nothing sent and nothing changed; every
  other one is exactly one exchange of its request packet and succeeds when anything at all is
  answered. The speed value is not limited. All of them always return.
\<close>

lemma motor_commands_guarded:
  "set_motor_mode (send_and_receive os) i m s \<noteq> None
   \<and> set_motor_position (send_and_receive os) i v s \<noteq> None
   \<and> set_motor_force (send_and_receive os) i v s \<noteq> None
   \<and> set_motor_speed (send_and_receive os) i u v s \<noteq> None
   \<and> set_motor_mode (send_and_receive os) i m s =
      (if i \<in> {1..6} \<and> m \<le> 5
       then map_option (\<lambda>(r, s). (r \<noteq> None, s)) (send_and_receive os (request_packet (Set_Mode i m)) s)
       else Some (False, s))
   \<and> set_motor_position (send_and_receive os) i v s =
      (if i \<in> {1..6} \<and> v \<le> 2000
       then map_option (\<lambda>(r, s). (r \<noteq> None, s)) (send_and_receive os (request_packet (Set_Position i v)) s)
       else Some (False, s))
   \<and> set_motor_force (send_and_receive os) i v s =
      (if i \<in> {1..6} \<and> v \<le> 4095
       then map_option (\<lambda>(r, s). (r \<noteq> None, s)) (send_and_receive os (request_packet (Set_Force i v)) s)
       else Some (False, s))
   \<and> set_motor_speed (send_and_receive os) i u v s =
      (if i \<in> {1..6} \<and> v \<le> 2000
       then map_option (\<lambda>(r, s). (r \<noteq> None, s)) (send_and_receive os (request_packet (Set_Speed i u v)) s)
       else Some (False, s))"
proof -
  have total: "commanded (send_and_receive os) r s \<noteq> None" for r
    using udp.commanded_total [of os r s] by auto
  show ?thesis
    unfolding set_motor_commands by (intro conjI total) (simp_all add: commanded_def)
qed

text \<open>
  C26. Batches. Whatever is or is not answered on the way, a batch exchanges its permitted requests in
  motor order, exactly once each, skips the ones out of range, and reports success when none was
  skipped and each was answered. It never stops half-way and always returns.
\<close>

theorem batch_commands_refine_exchanges:
  assumes "length positions = 6" and "length forces = 6"
  shows "set_all_modes (send_and_receive os) mode s = do {
      (rs, s) \<leftarrow> exchange_all (send_and_receive os)
        (map (\<lambda>i. request_packet (Set_Mode i mode)) (if mode \<le> 5 then [1, 2, 3, 4, 5, 6] else [])) s;
      Some (mode \<le> 5 \<and> None \<notin> set rs, s) }
   \<and> set_all_positions (send_and_receive os) positions s = do {
      (rs, s) \<leftarrow> exchange_all (send_and_receive os)
        (map (\<lambda>i. request_packet (Set_Position (of_nat (i + 1)) (positions ! i)))
          (filter (\<lambda>i. positions ! i \<le> 2000) [0..<6])) s;
      Some ((\<forall>p \<in> set positions. p \<le> 2000) \<and> None \<notin> set rs, s) }
   \<and> set_all_forces (send_and_receive os) forces s = do {
      (rs, s) \<leftarrow> exchange_all (send_and_receive os)
        (map (\<lambda>i. request_packet (Set_Force (of_nat (i + 1)) (forces ! i)))
          (filter (\<lambda>i. forces ! i \<le> 4095) [0..<6])) s;
      Some ((\<forall>f \<in> set forces. f \<le> 4095) \<and> None \<notin> set rs, s) }
   \<and> set_all_modes (send_and_receive os) mode s \<noteq> None
   \<and> set_all_positions (send_and_receive os) positions s \<noteq> None
   \<and> set_all_forces (send_and_receive os) forces s \<noteq> None"
proof -
  have modes: "filter (\<lambda>i. permitted (Set_Mode i mode)) motor_ids = (if mode \<le> 5 then [1, 2, 3, 4, 5, 6] else [])"
    "(\<forall>i \<in> set motor_ids. permitted (Set_Mode i mode)) \<longleftrightarrow> mode \<le> 5"
    by (simp_all add: motor_ids_eq)
  have total: "run_all (\<lambda>k. commanded (send_and_receive os) (r k)) ks True s \<noteq> None" for r and ks :: "'k list"
    using udp.run_all_total [of os r ks True s] by auto
  note eqs = set_all_modes_eq set_all_positions_eq [OF assms(1)] set_all_forces_eq [OF assms(2)]
  show ?thesis
  proof (intro conjI)
    show "set_all_modes (send_and_receive os) mode s \<noteq> None"
      "set_all_positions (send_and_receive os) positions s \<noteq> None"
      "set_all_forces (send_and_receive os) forces s \<noteq> None"
      unfolding eqs by (rule total)+
  next
    show "set_all_positions (send_and_receive os) positions s = do {
      (rs, s) \<leftarrow> exchange_all (send_and_receive os)
        (map (\<lambda>i. request_packet (Set_Position (of_nat (i + 1)) (positions ! i)))
          (filter (\<lambda>i. positions ! i \<le> 2000) [0..<6])) s;
      Some ((\<forall>p \<in> set positions. p \<le> 2000) \<and> None \<notin> set rs, s) }"
      unfolding eqs by (rule run_array [OF assms(1)]) simp
  next
    show "set_all_forces (send_and_receive os) forces s = do {
      (rs, s) \<leftarrow> exchange_all (send_and_receive os)
        (map (\<lambda>i. request_packet (Set_Force (of_nat (i + 1)) (forces ! i)))
          (filter (\<lambda>i. forces ! i \<le> 4095) [0..<6])) s;
      Some ((\<forall>f \<in> set forces. f \<le> 4095) \<and> None \<notin> set rs, s) }"
      unfolding eqs by (rule run_array [OF assms(2)]) simp
  qed (simp add: eqs run_all_commanded filter_map comp_def modes del: permitted.simps)
qed

theorem batch_commands_refine_exchanges_witness:
  "set_all_positions (send_and_receive sim_os) [0, 1, 2000, 2001, 4, 5]
     (UdpClient_new UdpConfig_default, sim_init []) \<noteq> None"
proof -
  have l: "length [0, 1, 2000, 2001, 4, 5 :: u16] = 6" "length [0, 0, 0, 0, 0, 0 :: u16] = 6" by simp_all
  show ?thesis
    using batch_commands_refine_exchanges [OF l, of sim_os 0 "(UdpClient_new UdpConfig_default, sim_init [])"]
    by (elim conjE)
qed

text \<open>
  C40. Initialisation: the six mode commands (force mode), all of them; only if each was answered, the six
  force commands with force 10; only if each was answered too, the background thread when configured.
  It reports false exactly when a command went unanswered, and then starts no thread. The exception or
  termination of a start that fails is passed on.
\<close>

theorem motor_initialize_sequence:
  "motor_initialize (send_and_receive os) (link_spawn os) (m, s) = do {
     (rs, s) \<leftarrow> exchange_all (send_and_receive os)
        (map (\<lambda>i. request_packet (Set_Mode i 3)) [1, 2, 3, 4, 5, 6]) s;
     if None \<in> set rs then Some (Inr False, m, s)
     else do {
       (rs, s) \<leftarrow> exchange_all (send_and_receive os)
          (map (\<lambda>i. request_packet (Set_Force i 10)) [1, 2, 3, 4, 5, 6]) s;
       if None \<in> set rs then Some (Inr False, m, s)
       else if \<not> mcc_auto_start_thread (mc_config m) then Some (Inr True, m, s)
       else (case worker_start (link_spawn os) (mc_worker m, s) of (r, t, s) \<Rightarrow>
         Some (if r = Already_Running \<or> r = Started then Inr True else Inl r, m\<lparr>mc_worker := t\<rparr>, s)) } }
   \<and> motor_initialize (send_and_receive os) (link_spawn os) (m, s) \<noteq> None"
  (is "?init = ?seq \<and> _")
proof
  show "?init = ?seq"
    unfolding motor_initialize_def Let_def prod.case set_all_permitted motor_ids_eq
    by (auto simp: start_status_update_thread_def after_start_def
        split: Option.bind_splits prod.splits)
  obtain rs s1 where e1: "exchange_all (send_and_receive os)
      (map (\<lambda>i. request_packet (Set_Mode i 3)) [1, 2, 3, 4, 5, 6]) s = Some (rs, s1)"
    using udp.exchange_all_defined by blast
  obtain rs' s2 where e2: "exchange_all (send_and_receive os)
      (map (\<lambda>i. request_packet (Set_Force i 10)) [1, 2, 3, 4, 5, 6]) s1 = Some (rs', s2)"
    using udp.exchange_all_defined by blast
  show "?init \<noteq> None"
    unfolding \<open>?init = ?seq\<close> e1 Option.bind.simps prod.case e2
    by (simp split: prod.splits)
qed

text \<open>
  C25. One update cycle asks all six motors in order, whoever answers, and merges the answers into the
  cache: entry \<open>i\<close> becomes what was parsed from the answer to motor \<open>i + 1\<close>, or stays as it was; the
  result says whether any status was read. Nothing else of the controller changes.
\<close>

theorem motor_update_once_merges:
  assumes "length (mc_cached_status m) = 6"
  shows "motor_update_once (send_and_receive os) (link_now os) (m, s) = do {
     (sts, s) \<leftarrow> poll_motors (send_and_receive os) (link_now os) [1, 2, 3, 4, 5, 6] s;
     Some (\<exists>st \<in> set sts. st \<noteq> None,
       m\<lparr>mc_cached_status := map2 keep_or_take (mc_cached_status m) sts\<rparr>, s) }"
  using motor_update_once_eq [OF assms] by (simp add: motor_ids_eq)

theorem motor_update_once_merges_witness:
  "map_option (\<lambda>(any, m, s). (any, map ms_motor_id (mc_cached_status m)))
     (motor_update_once (send_and_receive sim_os) (link_now sim_os)
       (MotorController_new MotorControllerConfig_default 0, UdpClient_new UdpConfig_default, sim_init []))
   = Some (False, [1, 2, 3, 4, 5, 6])"
proof -
  let ?m = "MotorController_new MotorControllerConfig_default 0"
  let ?s = "(UdpClient_new UdpConfig_default, sim_init [])"
  have "length (mc_cached_status ?m) = 6" by (simp add: MotorController_new_def NUM_MOTORS_def)
  from motor_update_once_merges [OF this, of sim_os ?s]
  show ?thesis by (simp only:) code_simp
qed

text \<open>
  A full status reply is returned whoever it is about. When the request for motor \<open>i\<close> leaves and
  the next datagram is a well-formed status reply, \<open>get_motor_status\<close> returns its content, stamped
  with the current time, also when the motor id in it is not \<open>i\<close>: nothing compares the two.
\<close>

lemma motor_reply_attribution:
  assumes "i \<in> {1..6}" and "uc_connected c"
    and "os_send os (uc_socket_fd c) (serialize (request_packet (Read_Status i))) w = (15, w1)"
    and "os_recv os (uc_socket_fd c) 1024 w1 = (Recv_Data (device_frame 0x16 0x01 cmd (status_body st)), w2)"
  shows "\<exists>c'. get_motor_status (send_and_receive os) (link_now os) i (c, w)
    = Some (Some (st\<lparr>ms_timestamp := os_now os w2\<rparr>), c', w2)"
proof -
  let ?p = "device_packet 0x16 0x01 cmd (status_body st)"
  let ?c = "update_receive_stats True False False (update_send_stats True c)"
  have d: "deserialize (device_frame 0x16 0x01 cmd (status_body st)) = Some (Some ?p)"
    by (rule deserialize_device_frame) (simp_all add: inner_ok_status_body)
  have l: "length (device_frame 0x16 0x01 cmd (status_body st)) \<le> 1024"
    by (simp add: device_frame_def Let_def)
  have "send_and_receive os (request_packet (Read_Status i)) (c, w) = Some (Some ?p, ?c, w2)"
    by (rule send_and_receive_delivers [OF assms(2) _ assms(4) l d]) (simp add: assms(3))
  moreover have "motor_reply_shape ?p"
    by (simp add: motor_reply_shape_def) (simp add: status_body_def)
  ultimately show ?thesis
    using assms(1) by (simp add: get_motor_status_eq valid_motor_id_iff parse_motor_status_eq
        status_of_status_body link_now_def)
qed

lemma motor_reply_attribution_instance:
  "\<exists>c w w2 c'. get_motor_status (send_and_receive sim_os) (link_now sim_os) 1 (c, w)
    = Some (Some (MotorStatus_default\<lparr>ms_motor_id := 2, ms_timestamp := os_now sim_os w2\<rparr>), c', w2)"
proof -
  let ?st = "MotorStatus_default\<lparr>ms_motor_id := 2\<rparr>"
  let ?r = "Recv_Data (device_frame 0x16 0x01 0x20 (status_body ?st))"
  let ?w = "snd (snd (connect sim_os (UdpClient_new UdpConfig_default, sim_init [?r])))"
  let ?c = "fst (snd (connect sim_os (UdpClient_new UdpConfig_default, sim_init [?r])))"
  have c: "uc_connected ?c" by code_simp
  have send: "os_send sim_os (uc_socket_fd ?c) (serialize (request_packet (Read_Status 1))) ?w
      = (15, snd (os_send sim_os (uc_socket_fd ?c) (serialize (request_packet (Read_Status 1))) ?w))"
    by (simp add: sim_os_def)
  have script: "sim_script ?w = [?r]" by code_simp
  then have recv: "os_recv sim_os (uc_socket_fd ?c) 1024
      (snd (os_send sim_os (uc_socket_fd ?c) (serialize (request_packet (Read_Status 1))) ?w))
      = (?r, snd (os_recv sim_os (uc_socket_fd ?c) 1024
         (snd (os_send sim_os (uc_socket_fd ?c) (serialize (request_packet (Read_Status 1))) ?w))))"
    by (simp add: sim_os_def sim_tick_def sim_recv_def)
  have i: "(1 :: u8) \<in> {1..6}" by simp
  from motor_reply_attribution [OF i c send recv] show ?thesis by blast
qed

text \<open>
  C4. A short status reply undoes the polling. If the datagram that answers the first request of an
  update cycle is the 18-byte inner packet the size check lets through, the cycle has no defined
  behaviour: \<open>update_once\<close>, and with it the background thread, reads outside the vector.
\<close>

theorem short_reply_breaks_update:
  assumes "length xs = 15" and "uc_connected c"
    and "os_send os (uc_socket_fd c) (serialize (request_packet (Read_Status 1))) w = (15, w1)"
    and "os_recv os (uc_socket_fd c) 1024 w1
      = (Recv_Data (device_frame 0x14 0x01 0x20 ([0xAA, 0x55] @ xs @ [sum_list xs])), w2)"
  shows "motor_update_once (send_and_receive os) (link_now os) (m, c, w) = None"
proof -
  let ?b = "[0xAA, 0x55] @ xs @ [sum_list xs]"
  let ?p = "device_packet 0x14 0x01 0x20 ?b"
  have d: "deserialize (device_frame 0x14 0x01 0x20 ?b) = Some (Some ?p)"
    by (rule deserialize_device_frame) (simp_all add: inner_ok_def butlast_append assms(1))
  have l: "length (device_frame 0x14 0x01 0x20 ?b) \<le> 1024"
    by (simp add: device_frame_def Let_def assms(1))
  have "send_and_receive os (request_packet (Read_Status 1)) (c, w)
      = Some (Some ?p, update_receive_stats True False False (update_send_stats True c), w2)"
    by (rule send_and_receive_delivers [OF assms(2) _ assms(4) l d]) (simp add: assms(3))
  then show ?thesis
    using assms(1) by (simp add: motor_update_once_def motor_ids_eq get_motor_status_eq
        valid_motor_id_iff parse_motor_status_eq motor_reply_shape_def)
qed

theorem short_reply_breaks_update_witness:
  "\<exists>c w. uc_connected c \<and> motor_update_once (send_and_receive sim_os) (link_now sim_os)
      (MotorController_new MotorControllerConfig_default 0, c, w) = None"
proof -
  let ?xs = "replicate 15 0 :: u8 list"
  let ?r = "Recv_Data (device_frame 0x14 0x01 0x20 ([0xAA, 0x55] @ ?xs @ [sum_list ?xs]))"
  let ?w = "snd (snd (connect sim_os (UdpClient_new UdpConfig_default, sim_init [?r])))"
  let ?c = "fst (snd (connect sim_os (UdpClient_new UdpConfig_default, sim_init [?r])))"
  let ?send = "os_send sim_os (uc_socket_fd ?c) (serialize (request_packet (Read_Status 1))) ?w"
  have c: "uc_connected ?c" by code_simp
  have send: "?send = (15, snd ?send)" by (simp add: sim_os_def)
  have "sim_script ?w = [?r]" by code_simp
  then have recv: "os_recv sim_os (uc_socket_fd ?c) 1024 (snd ?send)
      = (?r, snd (os_recv sim_os (uc_socket_fd ?c) 1024 (snd ?send)))"
    by (simp add: sim_os_def sim_tick_def sim_recv_def)
  have len: "length ?xs = 15" by simp
  from short_reply_breaks_update [OF len c send recv] c show ?thesis by blast
qed

end
