(* ===== verification/Float32.thy ===== *)
theory Float32
  imports Complex_Main Prelude
begin

text \<open>
  The \<open>float\<close> arithmetic of the C++ code: IEEE-754 binary32 with round to nearest, ties to even, on
  bit patterns, as the platforms the SDK supports evaluate it. Every finite value is an integer
  multiple of \<open>2 ^ -149\<close>; \<open>f32_units\<close> is that integer. The theory defines the operations the code
  uses (conversion of \<open>uint16_t\<close>, addition, subtraction, multiplication, division, \<open>std::fmod\<close>) and
  shows when they are exact. The payload and sign of a NaN are not modelled: an operation that yields
  one yields \<open>f32_nan\<close>.
\<close>

section \<open>Values\<close>

definition f32_sign :: "f32 \<Rightarrow> bool" where "f32_sign x \<longleftrightarrow> 2 ^ 31 \<le> uint x"

definition f32_mag :: "f32 \<Rightarrow> int" where "f32_mag x = uint x mod 2 ^ 31"

text \<open>The magnitude bits of infinity; those of a NaN are above.\<close>

definition inf_mag :: int where "inf_mag = 255 * 2 ^ 23"

definition f32_finite :: "f32 \<Rightarrow> bool" where "f32_finite x \<longleftrightarrow> f32_mag x < inf_mag"

definition f32_is_inf :: "f32 \<Rightarrow> bool" where "f32_is_inf x \<longleftrightarrow> f32_mag x = inf_mag"

definition f32_is_nan :: "f32 \<Rightarrow> bool" where "f32_is_nan x \<longleftrightarrow> inf_mag < f32_mag x"

text \<open>The number magnitude bits stand for, in units of \<open>2 ^ -149\<close>: exponent field and fraction.\<close>

definition mag_units :: "int \<Rightarrow> int" where
  "mag_units m = (let e = m div 2 ^ 23; f = m mod 2 ^ 23
     in if e = 0 then f else (f + 2 ^ 23) * 2 ^ nat (e - 1))"

definition f32_units :: "f32 \<Rightarrow> int" where
  "f32_units x = (if f32_sign x then - mag_units (f32_mag x) else mag_units (f32_mag x))"

definition f32_value :: "f32 \<Rightarrow> rat option" where
  "f32_value x = (if f32_finite x then Some (of_int (f32_units x) / 2 ^ 149) else None)"

definition f32_make :: "bool \<Rightarrow> int \<Rightarrow> f32" where
  "f32_make s m = word_of_int ((if s then 2 ^ 31 else 0) + m)"

definition f32_nan :: f32 where "f32_nan = 0x7FC00000"

section \<open>Rounding\<close>

text \<open>How far a number of units has to be shifted to fit the 24 bits of a significand.\<close>

function shift_of :: "int \<Rightarrow> nat" where
  "shift_of n = (if n < 2 ^ 24 then 0 else Suc (shift_of (n div 2)))"
  by auto

termination
  by (relation "measure nat") auto

declare shift_of.simps [simp del]

text \<open>
  The magnitude bits nearest to \<open>num / den\<close> units. In \<open>e * 2 ^ 23 + q\<close> the leading bit of \<open>q\<close>
  completes the exponent field, and a carry out of \<open>q\<close> moves to the next exponent.
\<close>

definition round_mag :: "int \<Rightarrow> int \<Rightarrow> int" where
  "round_mag num den =
     (let e = shift_of (num div den);
          d = den * 2 ^ e;
          q = num div d;
          r = num mod d
      in min inf_mag (int e * 2 ^ 23 + (if 2 * r > d \<or> 2 * r = d \<and> odd q then q + 1 else q)))"

section \<open>Operations\<close>

definition f32_of_u16 :: "u16 \<Rightarrow> f32" where
  "f32_of_u16 v = f32_make False (round_mag (uint v * 2 ^ 149) 1)"

definition f32_neg :: "f32 \<Rightarrow> f32" where
  "f32_neg x = f32_make (\<not> f32_sign x) (f32_mag x)"

definition f32_add :: "f32 \<Rightarrow> f32 \<Rightarrow> f32" where
  "f32_add a b =
     (if f32_is_nan a \<or> f32_is_nan b then f32_nan
      else if f32_is_inf a then (if f32_is_inf b \<and> f32_sign a \<noteq> f32_sign b then f32_nan else a)
      else if f32_is_inf b then b
      else let u = f32_units a + f32_units b
           in if u = 0 then f32_make (f32_sign a \<and> f32_sign b) 0
              else f32_make (u < 0) (round_mag \<bar>u\<bar> 1))"

definition f32_sub :: "f32 \<Rightarrow> f32 \<Rightarrow> f32" where
  "f32_sub a b = f32_add a (f32_neg b)"

definition f32_mul :: "f32 \<Rightarrow> f32 \<Rightarrow> f32" where
  "f32_mul a b =
     (let s = (f32_sign a \<noteq> f32_sign b) in
      if f32_is_nan a \<or> f32_is_nan b then f32_nan
      else if f32_is_inf a \<or> f32_is_inf b then
        (if f32_mag a = 0 \<or> f32_mag b = 0 then f32_nan else f32_make s inf_mag)
      else f32_make s (round_mag \<bar>f32_units a * f32_units b\<bar> (2 ^ 149)))"

definition f32_div :: "f32 \<Rightarrow> f32 \<Rightarrow> f32" where
  "f32_div a b =
     (let s = (f32_sign a \<noteq> f32_sign b) in
      if f32_is_nan a \<or> f32_is_nan b \<or> f32_is_inf a \<and> f32_is_inf b
         \<or> f32_mag a = 0 \<and> f32_mag b = 0 then f32_nan
      else if f32_is_inf a \<or> f32_mag b = 0 then f32_make s inf_mag
      else if f32_is_inf b then f32_make s 0
      else f32_make s (round_mag (\<bar>f32_units a\<bar> * 2 ^ 149) \<bar>f32_units b\<bar>))"

text \<open>\<open>std::fmod\<close>: the exact remainder, with the sign of the dividend.\<close>

definition f32_fmod :: "f32 \<Rightarrow> f32 \<Rightarrow> f32" where
  "f32_fmod a b =
     (if f32_is_nan a \<or> f32_is_nan b \<or> f32_is_inf a \<or> f32_mag b = 0 then f32_nan
      else if f32_is_inf b then a
      else f32_make (f32_sign a) (round_mag (\<bar>f32_units a\<bar> mod \<bar>f32_units b\<bar>) 1))"

section \<open>Encoding and decoding\<close>

lemma f32_mag_range: "0 \<le> f32_mag x" "f32_mag x < 2 ^ 31"
  by (simp_all add: f32_mag_def)

lemma f32_make_sel:
  assumes "0 \<le> m" and "m < 2 ^ 31"
  shows "f32_sign (f32_make s m) = s" and "f32_mag (f32_make s m) = m"
proof -
  let ?v = "(if s then 2 ^ 31 else 0) + m"
  have "0 \<le> ?v" "?v < 2 ^ LENGTH(32)" using assms by simp_all
  then have "uint (f32_make s m) = ?v"
    unfolding f32_make_def by (simp only: uint_word_of_int mod_pos_pos_trivial)
  with assms show "f32_sign (f32_make s m) = s" and "f32_mag (f32_make s m) = m"
    by (auto simp: f32_sign_def f32_mag_def mod_pos_pos_trivial)
qed

lemma f32_neg_sel:
  "f32_sign (f32_neg x) = (\<not> f32_sign x)" "f32_mag (f32_neg x) = f32_mag x"
  "f32_units (f32_neg x) = - f32_units x"
  by (simp_all add: f32_neg_def f32_make_sel [OF f32_mag_range] f32_units_def)

lemma mag_units_nonneg: "0 \<le> m \<Longrightarrow> 0 \<le> mag_units m"
  by (simp add: mag_units_def Let_def)

text \<open>Exponent shift and significand, as the bits of a magnitude.\<close>

lemma two_power_neq: "(2 :: int) ^ k \<noteq> 0"
  by simp

lemma mag_units_encode:
  assumes "0 \<le> q" and "q \<le> 2 ^ 24" and "e = 0 \<or> 2 ^ 23 \<le> q"
  shows "mag_units (int e * 2 ^ 23 + q) = q * 2 ^ e"
proof -
  consider "q < 2 ^ 23" | "2 ^ 23 \<le> q" "q < 2 ^ 24" | "q = 2 ^ 24" using assms by linarith
  then show ?thesis
  proof cases
    case 1
    then show ?thesis using assms by (simp add: mag_units_def)
  next
    case 2
    have "(int e * 2 ^ 23 + q) div 2 ^ 23 = int e + 1" "(int e * 2 ^ 23 + q) mod 2 ^ 23 = q - 2 ^ 23"
    proof -
      have eq: "int e * 2 ^ 23 + q = (q - 2 ^ 23) + (int e + 1) * 2 ^ 23" by simp
      have "(q - 2 ^ 23) div 2 ^ 23 = 0" "(q - 2 ^ 23) mod 2 ^ 23 = q - 2 ^ 23"
        by (rule div_pos_pos_trivial; use 2 in simp) (rule mod_pos_pos_trivial; use 2 in simp)
      then show "(int e * 2 ^ 23 + q) div 2 ^ 23 = int e + 1" "(int e * 2 ^ 23 + q) mod 2 ^ 23 = q - 2 ^ 23"
        unfolding eq div_mult_self1 [OF two_power_neq] mod_mult_self1 by simp_all
    qed
    then show ?thesis by (simp add: mag_units_def)
  next
    case 3
    have "int e * 2 ^ 23 + q = (int e + 2) * 2 ^ 23" using 3 by simp
    then have "(int e * 2 ^ 23 + q) div 2 ^ 23 = int e + 2" "(int e * 2 ^ 23 + q) mod 2 ^ 23 = 0"
      by simp_all
    moreover have "nat (1 + int e) = Suc e" by simp
    ultimately show ?thesis using 3 by (simp add: mag_units_def)
  qed
qed

lemma shift_of_le_iff: "shift_of n \<le> k \<longleftrightarrow> n < 2 ^ (24 + k)"
proof (induction n arbitrary: k rule: shift_of.induct)
  case (1 n)
  show ?case
  proof (cases "n < 2 ^ 24")
    case True
    then have "n < 2 ^ (24 + k)"
      by (rule less_le_trans) (use power_increasing [of 24 "24 + k" "2 :: int"] in simp)
    with True show ?thesis by (simp add: shift_of.simps [of n])
  next
    case False
    with 1 have IH: "shift_of (n div 2) \<le> j \<longleftrightarrow> n div 2 < 2 ^ (24 + j)" for j by blast
    show ?thesis
    proof (cases k)
      case 0
      with False show ?thesis by (simp add: shift_of.simps [of n])
    next
      case (Suc j)
      have "n div 2 < 2 ^ (24 + j) \<longleftrightarrow> n < 2 ^ (24 + j) * 2"
        by linarith
      with False IH Suc show ?thesis by (simp add: shift_of.simps [of n] power_add)
    qed
  qed
qed

lemma shift_of_mono: "m \<le> n \<Longrightarrow> shift_of m \<le> shift_of n"
  using shift_of_le_iff [of n "shift_of n"] shift_of_le_iff [of m "shift_of n"] by simp

section \<open>Rounding numbers of units\<close>

lemma shift_of_ge: "shift_of n = Suc e \<Longrightarrow> 2 ^ (24 + e) \<le> n"
  using shift_of_le_iff [of n e] by simp

text \<open>A number of units that needs no rounding: a multiple of the unit of its own exponent.\<close>

definition f32_exact :: "int \<Rightarrow> bool" where
  "f32_exact n \<longleftrightarrow> n < 2 ^ 277 \<and> 2 ^ shift_of n dvd n"

lemma f32_exactI:
  assumes "n = q * 2 ^ k" and "q < 2 ^ 24" and "k \<le> 253"
  shows "f32_exact n"
proof -
  have n: "n < 2 ^ (24 + k)" using assms(1,2) by (simp add: power_add)
  also have "\<dots> \<le> 2 ^ 277" by (rule power_increasing) (use assms(3) in simp_all)
  finally have "n < 2 ^ 277" .
  moreover have "2 ^ shift_of n dvd (2 :: int) ^ k"
    using n by (intro le_imp_power_dvd) (simp add: shift_of_le_iff)
  ultimately show ?thesis using assms(1) by (simp add: f32_exact_def)
qed

lemma f32_exact_abs: "\<bar>q\<bar> < 2 ^ 24 \<Longrightarrow> k \<le> 253 \<Longrightarrow> f32_exact \<bar>q * 2 ^ k\<bar>"
  by (rule f32_exactI [of _ "\<bar>q\<bar>" k]) (simp_all add: abs_mult)

lemma shift_of_lt: "n < 2 ^ 277 \<Longrightarrow> shift_of n \<le> 253"
  using shift_of_le_iff [of n 253] by simp

lemma round_mag_exact:
  assumes "f32_exact n" and "0 \<le> n" and "num = n * den" and "0 < den"
  shows "mag_units (round_mag num den) = n" and "0 \<le> round_mag num den" and "round_mag num den < inf_mag"
proof -
  let ?e = "shift_of n"
  from assms(1) obtain q where q: "n = q * 2 ^ ?e" by (auto simp: f32_exact_def dvd_def mult.commute)
  have e: "?e \<le> 253" using assms(1) by (simp add: f32_exact_def shift_of_lt)
  have "q * 2 ^ ?e < 2 ^ 24 * 2 ^ ?e"
    using shift_of_le_iff [of n ?e] q by (simp add: power_add)
  then have q24: "q < 2 ^ 24" by simp
  have q0: "0 \<le> q" using assms(2) q by (metis mult_less_0_iff not_le zero_less_numeral zero_less_power)
  have q23: "?e = 0 \<or> 2 ^ 23 \<le> q"
  proof (cases ?e)
    case (Suc e)
    have "2 ^ 23 * 2 ^ ?e \<le> q * 2 ^ ?e"
      using shift_of_ge [OF Suc] q Suc by (simp add: power_add)
    then show ?thesis by simp
  qed simp
  have d: "num div den = n" using assms(3,4) by simp
  have num: "num = q * (den * 2 ^ ?e)" using assms(3) q by (metis mult.assoc mult.commute)
  have "0 < den * 2 ^ ?e" using assms(4) by simp
  then have "num div (den * 2 ^ ?e) = q" "num mod (den * 2 ^ ?e) = 0"
    unfolding num by (simp_all only: nonzero_mult_div_cancel_right mod_mult_self2_is_0 less_irrefl
        less_imp_neq [THEN not_sym] not_False_eq_True)
  then have r: "round_mag num den = min inf_mag (int ?e * 2 ^ 23 + q)"
    using assms(4) unfolding round_mag_def d Let_def by (simp add: mult_less_0_iff)
  moreover have "int ?e * 2 ^ 23 + q < inf_mag"
    using e q24 by (simp add: inf_mag_def)
  ultimately have rm: "round_mag num den = int ?e * 2 ^ 23 + q" by simp
  show "mag_units (round_mag num den) = n"
    unfolding rm using mag_units_encode [OF q0 _ q23] q24 q by simp
  show "0 \<le> round_mag num den" "round_mag num den < inf_mag"
    using rm \<open>int ?e * 2 ^ 23 + q < inf_mag\<close> q0 by simp_all
qed

section \<open>Exact operations\<close>

text \<open>A finite float that stands for a given number of units.\<close>

definition f32_is :: "f32 \<Rightarrow> int \<Rightarrow> bool" where
  "f32_is x u \<longleftrightarrow> f32_finite x \<and> f32_units x = u"

lemma f32_is_value: "f32_is x u \<Longrightarrow> f32_value x = Some (of_int u / 2 ^ 149)"
  by (simp add: f32_is_def f32_value_def)

lemma inf_mag_lt: "inf_mag < 2 ^ 31"
  by (simp add: inf_mag_def)

lemma f32_make_is:
  assumes "0 \<le> m" and "m < inf_mag"
  shows "f32_is (f32_make s m) (if s then - mag_units m else mag_units m)"
  using assms f32_make_sel [of m s] inf_mag_lt
  by (cases s) (simp_all add: f32_is_def f32_finite_def f32_units_def)

lemma f32_make_zero: "f32_is (f32_make s 0) 0"
  using f32_make_is [of 0 s] by (simp add: inf_mag_def mag_units_def split: if_splits)

lemma f32_make_round:
  assumes "f32_exact \<bar>n\<bar>" and "num = \<bar>n\<bar> * den" and "0 < den" and "n < 0 \<Longrightarrow> s" and "0 < n \<Longrightarrow> \<not> s"
  shows "f32_is (f32_make s (round_mag num den)) n"
proof -
  note r = round_mag_exact [OF assms(1) _ assms(2,3)]
  have "f32_is (f32_make s (round_mag num den)) (if s then - \<bar>n\<bar> else \<bar>n\<bar>)"
    using f32_make_is [of "round_mag num den" s] r by (cases s) simp_all
  moreover have "n = 0 \<or> s \<and> \<bar>n\<bar> = - n \<or> \<not> s \<and> \<bar>n\<bar> = n" using assms(4,5) by linarith
  ultimately show ?thesis by (cases s) auto
qed

lemma mag_units_pos: "0 \<le> m \<Longrightarrow> mag_units m = 0 \<longleftrightarrow> m = 0"
proof -
  assume m: "0 \<le> m"
  have "0 \<le> m mod 2 ^ 23" by simp
  then have "0 < (m mod 2 ^ 23 + 2 ^ 23) * 2 ^ nat (m div 2 ^ 23 - 1)" by simp
  then show ?thesis
    using m div_mult_mod_eq [of m "2 ^ 23"] unfolding mag_units_def Let_def by auto
qed

lemma f32_is_facts:
  assumes "f32_is a u"
  shows "\<not> f32_is_nan a" "\<not> f32_is_inf a" "f32_units a = u" "u < 0 \<Longrightarrow> f32_sign a"
    "0 < u \<Longrightarrow> \<not> f32_sign a" "f32_mag a = 0 \<longleftrightarrow> u = 0"
  using assms mag_units_nonneg [OF f32_mag_range(1), of a] mag_units_pos [OF f32_mag_range(1), of a]
  by (auto simp: f32_is_def f32_finite_def f32_is_nan_def f32_is_inf_def f32_units_def split: if_splits)

lemma f32_neg_is: "f32_is b v \<Longrightarrow> f32_is (f32_neg b) (- v)"
  by (auto simp: f32_is_def f32_finite_def f32_neg_sel)

lemma f32_add_is:
  assumes "f32_is a u" and "f32_is b v" and "f32_exact \<bar>u + v\<bar>"
  shows "f32_is (f32_add a b) (u + v)"
  using f32_is_facts(1-3) [OF assms(1)] f32_is_facts(1-3) [OF assms(2)]
    f32_make_round [OF assms(3), of _ 1]
  by (auto simp: f32_add_def Let_def f32_make_zero)

lemma f32_sub_is:
  "f32_is a u \<Longrightarrow> f32_is b v \<Longrightarrow> f32_exact \<bar>u - v\<bar> \<Longrightarrow> f32_is (f32_sub a b) (u - v)"
  using f32_add_is [OF _ f32_neg_is, of a u b v] by (simp add: f32_sub_def)

lemma f32_mul_is:
  assumes "f32_is a u" and "f32_is b v" and "u * v = n * 2 ^ 149" and "f32_exact \<bar>n\<bar>"
  shows "f32_is (f32_mul a b) n"
proof -
  note fa = f32_is_facts [OF assms(1)] and fb = f32_is_facts [OF assms(2)]
  have "f32_is (f32_make (f32_sign a \<noteq> f32_sign b) (round_mag \<bar>u * v\<bar> (2 ^ 149))) n"
  proof (rule f32_make_round [OF assms(4)])
    show "\<bar>u * v\<bar> = \<bar>n\<bar> * 2 ^ 149" using assms(3) by (simp add: abs_mult)
    assume "n < 0"
    then have "u * v < 0" using assms(3) by simp
    then show "f32_sign a \<noteq> f32_sign b" using fa(4,5) fb(4,5) by (auto simp: mult_less_0_iff)
  next
    assume "0 < n"
    then have "0 < u * v" using assms(3) by simp
    then show "\<not> (f32_sign a \<noteq> f32_sign b)" using fa(4,5) fb(4,5) by (auto simp: zero_less_mult_iff)
  qed simp
  then show ?thesis using fa(1-3) fb(1-3) by (simp add: f32_mul_def Let_def)
qed

lemma f32_div_is:
  assumes "f32_is a u" and "f32_is b v" and "0 < v" and "u * 2 ^ 149 = n * v" and "f32_exact \<bar>n\<bar>"
  shows "f32_is (f32_div a b) n"
proof -
  note fa = f32_is_facts [OF assms(1)] and fb = f32_is_facts [OF assms(2)]
  have "f32_is (f32_make (f32_sign a \<noteq> f32_sign b) (round_mag (\<bar>u\<bar> * 2 ^ 149) \<bar>v\<bar>)) n"
  proof (rule f32_make_round [OF assms(5)])
    have "\<bar>u * 2 ^ 149\<bar> = \<bar>n * v\<bar>" by (simp only: assms(4))
    then show "\<bar>u\<bar> * 2 ^ 149 = \<bar>n\<bar> * \<bar>v\<bar>" by (simp add: abs_mult)
    assume "n < 0"
    then have "u * 2 ^ 149 < 0" using assms(3,4) by (simp add: mult_neg_pos)
    then show "f32_sign a \<noteq> f32_sign b" using fa(4) fb(5) assms(3) by simp
  next
    assume "0 < n"
    then have "0 < u * 2 ^ 149" using assms(3,4) by simp
    then show "\<not> (f32_sign a \<noteq> f32_sign b)" using fa(5) fb(5) assms(3) by simp
  qed (use assms(3) in simp)
  then show ?thesis using fa(1-3) fb(1-3,6) assms(3) by (simp add: f32_div_def Let_def)
qed

lemma f32_of_u16_is: "f32_is (f32_of_u16 v) (uint v * 2 ^ 149)"
proof -
  have "uint v < 2 ^ 16" using uint_lt2p [of v] by simp
  then have "f32_exact (uint v * 2 ^ 149)" by (intro f32_exactI [OF refl]) simp_all
  then show ?thesis
    using f32_make_round [of "uint v * 2 ^ 149" "uint v * 2 ^ 149" 1 False]
    by (simp add: f32_of_u16_def abs_mult)
qed

section \<open>Bounds of rounded results, and \<open>fmod\<close>\<close>

lemma int_div_less:
  assumes "n < c * d" and "0 < (d :: int)"
  shows "n div d < c"
proof (rule ccontr)
  assume "\<not> n div d < c"
  then have "c * d \<le> (n div d) * d" using assms(2) by simp
  then show False
    using assms div_mult_mod_eq [of n d] pos_mod_sign [of d n] by linarith
qed

text \<open>Rounding a number of units up to a representable bound does not exceed the bound.\<close>

lemma round_mag_le:
  assumes "0 \<le> n" and "n \<le> b" and "f32_exact b"
  shows "0 \<le> round_mag n 1" and "round_mag n 1 < inf_mag" and "mag_units (round_mag n 1) \<le> b"
proof -
  let ?e = "shift_of n"
  let ?q = "n div 2 ^ ?e"
  let ?q' = "if 2 * (n mod 2 ^ ?e) > 2 ^ ?e \<or> 2 * (n mod 2 ^ ?e) = 2 ^ ?e \<and> odd ?q then ?q + 1 else ?q"
  have b: "b < 2 ^ 277" "2 ^ shift_of b dvd b" using assms(3) by (simp_all add: f32_exact_def)
  have "(2 :: int) ^ ?e dvd 2 ^ shift_of b"
    by (intro le_imp_power_dvd shift_of_mono assms(2))
  with b(2) obtain c where c: "b = c * 2 ^ ?e" by (metis dvd_trans dvd_def mult.commute)
  have e: "?e \<le> 253" using shift_of_lt [of n] assms(2) b(1) by simp
  have "n < 2 ^ 24 * 2 ^ ?e" using shift_of_le_iff [of n ?e] by (simp add: power_add)
  then have q24: "?q < 2 ^ 24" by (rule int_div_less) simp
  have q0: "0 \<le> ?q" using assms(1) by (simp add: pos_imp_zdiv_nonneg_iff)
  have q23: "?e = 0 \<or> 2 ^ 23 \<le> ?q"
  proof (cases ?e)
    case (Suc e)
    have "2 ^ 23 * 2 ^ ?e \<le> n" using shift_of_ge [OF Suc] Suc by (simp add: power_add)
    then have "2 ^ 23 * 2 ^ ?e div 2 ^ ?e \<le> ?q" by (rule zdiv_mono1) simp
    then show ?thesis by simp
  qed simp
  have q': "?q \<le> ?q'" "?q' \<le> ?q + 1" by simp_all
  have bound: "?q' * 2 ^ ?e \<le> b"
  proof (cases "n mod 2 ^ ?e = 0")
    case True
    then have "?q * 2 ^ ?e = n" by (metis add.right_neutral div_mult_mod_eq)
    then show ?thesis using True assms(2) by simp
  next
    case False
    have "?q * 2 ^ ?e < n"
    proof -
      have "0 \<le> n mod 2 ^ ?e" by simp
      then show ?thesis using False div_mult_mod_eq [of n "2 ^ ?e"] by linarith
    qed
    then have "?q * 2 ^ ?e < c * 2 ^ ?e" using assms(2) c by linarith
    then have "?q + 1 \<le> c" by simp
    with q'(2) have "?q' \<le> c" by linarith
    then show ?thesis unfolding c by (rule mult_right_mono) simp
  qed
  have "?q' < 2 ^ 24 \<or> ?e \<le> 252"
  proof (rule ccontr)
    assume "\<not> ?thesis"
    then have "?q' \<ge> 2 ^ 24" "?e = 253" using e by auto
    then have "2 ^ 24 * 2 ^ 253 \<le> ?q' * 2 ^ ?e" by (intro mult_mono) simp_all
    then show False using bound b(1) by simp
  qed
  moreover have "?q' \<le> 2 ^ 24" using q24 q'(2) by linarith
  moreover have "x < 2 ^ 24 \<or> k \<le> 252 \<Longrightarrow> x \<le> 2 ^ 24 \<Longrightarrow> k \<le> 253 \<Longrightarrow> int k * 2 ^ 23 + x < inf_mag"
    for x k by (auto simp: inf_mag_def)
  ultimately have lt: "int ?e * 2 ^ 23 + ?q' < inf_mag" using e by blast
  have "round_mag n 1 = min inf_mag (int ?e * 2 ^ 23 + ?q')"
    by (simp only: round_mag_def Let_def div_by_1 mult_1)
  then have rm: "round_mag n 1 = int ?e * 2 ^ 23 + ?q'"
    by (simp only: min.absorb2 [OF less_imp_le [OF lt]])
  have "?e = 0 \<or> 2 ^ 23 \<le> ?q'" using q23 q'(1) by linarith
  then have mu: "mag_units (round_mag n 1) = ?q' * 2 ^ ?e"
    unfolding rm using \<open>?q' \<le> 2 ^ 24\<close> q0 q'(1) by (intro mag_units_encode) linarith+
  show "0 \<le> round_mag n 1" unfolding rm using q0 q'(1) by (simp del: if_split)
  show "round_mag n 1 < inf_mag" unfolding rm by (rule lt)
  show "mag_units (round_mag n 1) \<le> b" unfolding mu by (rule bound)
qed

text \<open>Every finite value has a significand below \<open>2 ^ 24\<close>.\<close>

lemma f32_units_split:
  assumes "f32_finite x"
  obtains q k where "\<bar>f32_units x\<bar> = q * 2 ^ k" and "0 \<le> q" and "q < 2 ^ 24" and "k \<le> 253"
proof -
  let ?m = "f32_mag x"
  let ?e = "?m div 2 ^ 23"
  have m: "0 \<le> ?m" "?m < 255 * 2 ^ 23"
    using assms f32_mag_range by (simp_all add: f32_finite_def inf_mag_def)
  have f: "0 \<le> ?m mod 2 ^ 23" "?m mod 2 ^ 23 < 2 ^ 23" by simp_all
  have abs: "\<bar>f32_units x\<bar> = mag_units ?m"
    using mag_units_nonneg [OF m(1)] by (simp add: f32_units_def)
  show thesis
  proof (cases "?e = 0")
    case True
    then show thesis using abs f by (intro that [of "?m mod 2 ^ 23" 0]) (simp_all add: mag_units_def)
  next
    case False
    have "?e < 255" using m(2) by (simp add: div_less_iff_less_mult)
    then show thesis using abs f False
      by (intro that [of "?m mod 2 ^ 23 + 2 ^ 23" "nat (?e - 1)"]) (simp_all add: mag_units_def Let_def)
  qed
qed

text \<open>The remainder of two finite floats is representable, so \<open>fmod\<close> is exact.\<close>

lemma f32_exact_mod:
  assumes "f32_finite x" and "f32_finite y" and "f32_units y \<noteq> 0"
  shows "f32_exact (\<bar>f32_units x\<bar> mod \<bar>f32_units y\<bar>)"
proof -
  let ?a = "\<bar>f32_units x\<bar>" and ?b = "\<bar>f32_units y\<bar>"
  obtain q k where a: "?a = q * 2 ^ k" "0 \<le> q" "q < 2 ^ 24" "k \<le> 253"
    using f32_units_split [OF assms(1)] .
  obtain q' k' where b: "?b = q' * 2 ^ k'" "0 \<le> q'" "q' < 2 ^ 24" "k' \<le> 253"
    using f32_units_split [OF assms(2)] .
  have r: "?a mod ?b < ?b" "?a mod ?b \<le> ?a" "0 \<le> ?a mod ?b"
    using assms(3) by (simp_all add: zmod_le_nonneg_dividend)
  show ?thesis
  proof (cases "k' \<le> k")
    case True
    then have "(2 :: int) ^ k' dvd ?a" "2 ^ k' dvd ?b"
      unfolding a(1) b(1) by (auto intro: dvd_mult le_imp_power_dvd)
    then have "2 ^ k' dvd ?a mod ?b" by (rule dvd_mod)
    then obtain c where c: "?a mod ?b = c * 2 ^ k'" by (auto simp: dvd_def mult.commute)
    with r(1) b(1) have "c * 2 ^ k' < q' * 2 ^ k'" by simp
    then have "c < q'" by simp
    then show ?thesis using f32_exactI [OF c] b(3,4) by simp
  next
    case False
    then have "(2 :: int) ^ k dvd ?a" "2 ^ k dvd ?b"
      unfolding a(1) b(1) by (simp_all add: dvd_mult le_imp_power_dvd)
    then have "2 ^ k dvd ?a mod ?b" by (rule dvd_mod)
    then obtain c where c: "?a mod ?b = c * 2 ^ k" by (auto simp: dvd_def mult.commute)
    with r(2) a(1) have "c * 2 ^ k \<le> q * 2 ^ k" by simp
    then have "c \<le> q" by simp
    then show ?thesis using f32_exactI [OF c] a(3,4) by simp
  qed
qed

lemma f32_fmod_is:
  assumes "f32_is a u" and "f32_is b v" and "0 < v"
  shows "f32_is (f32_fmod a b) (if f32_sign a then - (\<bar>u\<bar> mod v) else \<bar>u\<bar> mod v)"
proof -
  note fa = f32_is_facts [OF assms(1)] and fb = f32_is_facts [OF assms(2)]
  have fin: "f32_finite a" "f32_finite b" using assms by (simp_all add: f32_is_def)
  have ex: "f32_exact (\<bar>u\<bar> mod v)"
    using f32_exact_mod [OF fin] fa(3) fb(3) assms(3) by simp
  have r: "mag_units (round_mag (\<bar>u\<bar> mod v) 1) = \<bar>u\<bar> mod v"
    "0 \<le> round_mag (\<bar>u\<bar> mod v) 1" "round_mag (\<bar>u\<bar> mod v) 1 < inf_mag"
    using round_mag_exact [OF ex, of "\<bar>u\<bar> mod v" 1] assms(3) by simp_all
  have "f32_fmod a b = f32_make (f32_sign a) (round_mag (\<bar>u\<bar> mod v) 1)"
    using fa(1-3) fb(1-3,6) assms(3) by (simp add: f32_fmod_def)
  then show ?thesis using f32_make_is [OF r(2,3), of "f32_sign a"] r(1) by (cases "f32_sign a") simp_all
qed

text \<open>Addition in general: the sign of the exact sum, and a bound on the rounded one.\<close>

lemma f32_add_bounds:
  assumes "f32_is a u" and "f32_is b v" and "\<bar>u + v\<bar> \<le> m" and "f32_exact m"
  obtains w where "f32_is (f32_add a b) w" and "\<bar>w\<bar> \<le> m" and "u + v \<le> 0 \<Longrightarrow> w \<le> 0"
    and "0 \<le> u + v \<Longrightarrow> 0 \<le> w"
    and "0 \<le> u + v \<Longrightarrow> \<not> (f32_sign a \<and> f32_sign b) \<Longrightarrow> \<not> f32_sign (f32_add a b)"
proof (cases "u + v = 0")
  case True
  then have "f32_add a b = f32_make (f32_sign a \<and> f32_sign b) 0"
    using f32_is_facts(1-3) [OF assms(1)] f32_is_facts(1-3) [OF assms(2)] by (simp add: f32_add_def)
  then show thesis
    using that [of 0] True f32_make_zero f32_make_sel(1) [of 0 "f32_sign a \<and> f32_sign b"] assms(3) by simp
next
  case False
  let ?m = "round_mag \<bar>u + v\<bar> 1"
  note r = round_mag_le [OF abs_ge_zero assms(3,4)]
  have eq: "f32_add a b = f32_make (u + v < 0) ?m"
    using False f32_is_facts(1-3) [OF assms(1)] f32_is_facts(1-3) [OF assms(2)]
    by (simp add: f32_add_def Let_def)
  note is_w = f32_make_is [OF r(1,2), of "u + v < 0", folded eq]
  have "0 \<le> mag_units ?m" by (rule mag_units_nonneg [OF r(1)])
  moreover have "f32_sign (f32_add a b) = (u + v < 0)"
    unfolding eq using r(1,2) inf_mag_lt by (intro f32_make_sel(1)) simp_all
  ultimately show thesis
    using that [OF is_w] r(3) False by (auto split: if_splits)
qed

lemma f32_sub_self:
  assumes "f32_is x u"
  shows "f32_sub x x = 0"
proof -
  have "f32_sub x x = f32_make False 0"
    using f32_is_facts(1-3) [OF assms] f32_is_facts(1-3) [OF f32_neg_is [OF assms]]
    by (simp add: f32_sub_def f32_add_def f32_neg_sel)
  then show ?thesis by (simp add: f32_make_def)
qed

end
