(* ===== verification/Encoder_Reader.thy ===== *)
theory Encoder_Reader
  imports Udp_Client Worker Float32
begin

text \<open>
  \<open>class EncoderReader\<close> (\<open>src/encoder_reader.cpp\<close>): reading the sixteen ADC channels into the cache,
  the conversion to voltages and angles, the zero-point calibration and the background thread.
  \<open>std::array<float, 16>\<close> is a list of bit patterns; the loops over it read it through
  \<^const>\<open>rd\<close>, so that the lemmas show that every access is in bounds.
\<close>

section \<open>State\<close>

text \<open>The \<open>float\<close> constants: 4, 360, 65536, 1.\<close>

definition ENCODER_VOLTAGE_MAX :: f32 where "ENCODER_VOLTAGE_MAX = 0x40800000"
definition ENCODER_ANGLE_MAX :: f32 where "ENCODER_ANGLE_MAX = 0x43B40000"
definition ADC_FULL_SCALE :: f32 where "ADC_FULL_SCALE = 0x47800000"
definition VOLTAGE_MAX :: f32 where "VOLTAGE_MAX = 0x40800000"
definition f32_one :: f32 where "f32_one = 0x3F800000"

record EncoderCalibration =
  ec_zero_voltages :: "f32 list"
  ec_scale_factors :: "f32 list"
  ec_is_calibrated :: bool

definition EncoderCalibration_default :: EncoderCalibration where
  "EncoderCalibration_default = \<lparr>ec_zero_voltages = replicate NUM_ENCODER_CHANNELS 0,
     ec_scale_factors = replicate NUM_ENCODER_CHANNELS f32_one, ec_is_calibrated = False\<rparr>"

record EncoderReaderConfig =
  erc_auto_start_thread :: bool
  erc_update_interval :: int

definition EncoderReaderConfig_default :: EncoderReaderConfig where
  "EncoderReaderConfig_default = \<lparr>erc_auto_start_thread = True, erc_update_interval = 100\<rparr>"

record EncoderReader =
  er_config :: EncoderReaderConfig
  er_cached_data :: EncoderData
  er_calibration :: EncoderCalibration
  er_worker :: worker

definition EncoderReader_new :: "EncoderReaderConfig \<Rightarrow> time \<Rightarrow> EncoderReader" where
  "EncoderReader_new config now =
     \<lparr>er_config = config,
      er_cached_data = \<lparr>ed_adc_values = replicate NUM_ENCODER_CHANNELS 0, ed_timestamp = now\<rparr>,
      er_calibration = EncoderCalibration_default, er_worker = worker_new\<rparr>"

section \<open>Reading\<close>

definition read_encoders :: "'s xchg \<Rightarrow> ('s \<Rightarrow> time) \<Rightarrow> 's \<Rightarrow> (EncoderData option \<times> 's) ub" where
  "read_encoders xchg now s = do {
     packet \<leftarrow> encode_read_all_encoders;
     (response, s) \<leftarrow> xchg packet s;
     case response of
       None \<Rightarrow> Some (None, s)
     | Some p \<Rightarrow> do { data \<leftarrow> parse_encoder_data p (now s); Some (data, s) } }"

definition encoder_update_once ::
  "'s xchg \<Rightarrow> ('s \<Rightarrow> time) \<Rightarrow> EncoderReader \<times> 's \<Rightarrow> (bool \<times> EncoderReader \<times> 's) ub" where
  "encoder_update_once xchg now rs = do {
     let (r, s) = rs;
     (data, s) \<leftarrow> read_encoders xchg now s;
     case data of
       Some d \<Rightarrow> Some (True, r\<lparr>er_cached_data := d\<rparr>, s)
     | None \<Rightarrow> Some (False, r, s) }"

definition encoder_cached_data :: "EncoderReader \<Rightarrow> EncoderData" where
  "encoder_cached_data r = er_cached_data r"

definition encoder_data_age :: "EncoderReader \<Rightarrow> time \<Rightarrow> int" where
  "encoder_data_age r now = (now - ed_timestamp (er_cached_data r)) sdiv 1000000"

section \<open>The background thread and initialisation\<close>

definition encoder_start_update_thread ::
  "('s \<Rightarrow> bool \<times> 's) \<Rightarrow> EncoderReader \<times> 's \<Rightarrow> start_outcome \<times> EncoderReader \<times> 's" where
  "encoder_start_update_thread spawn rs =
     (let (r, s) = rs; (out, t, s) = worker_start spawn (er_worker r, s)
      in (out, r\<lparr>er_worker := t\<rparr>, s))"

definition encoder_stop_update_thread :: "EncoderReader \<Rightarrow> EncoderReader" where
  "encoder_stop_update_thread r = r\<lparr>er_worker := worker_stop (er_worker r)\<rparr>"

definition encoder_thread_running :: "EncoderReader \<Rightarrow> bool" where
  "encoder_thread_running r = thread_running (er_worker r)"

text \<open>The destructor, which stops the thread.\<close>

definition encoder_destroy :: "EncoderReader \<Rightarrow> EncoderReader" where
  "encoder_destroy r = encoder_stop_update_thread r"

definition encoder_initialize ::
  "'s xchg \<Rightarrow> ('s \<Rightarrow> time) \<Rightarrow> ('s \<Rightarrow> bool \<times> 's) \<Rightarrow> EncoderReader \<times> 's
    \<Rightarrow> ((start_outcome + bool) \<times> EncoderReader \<times> 's) ub" where
  "encoder_initialize xchg now spawn rs = do {
     let (r, s) = rs;
     (data, s) \<leftarrow> read_encoders xchg now s;
     case data of
       None \<Rightarrow> Some (Inr False, r, s)
     | Some d \<Rightarrow>
         let r = r\<lparr>er_cached_data := d\<rparr> in
         if erc_auto_start_thread (er_config r) then
           (let (out, r, s) = encoder_start_update_thread spawn (r, s) in Some (after_start out, r, s))
         else Some (Inr True, r, s) }"

text \<open>\<open>update_loop\<close> on the schedule \<open>loads\<close> of its flag; \<open>sleep\<close> is \<open>std::this_thread::sleep_for\<close>.\<close>

definition encoder_update_loop ::
  "'s xchg \<Rightarrow> ('s \<Rightarrow> time) \<Rightarrow> (time \<Rightarrow> 's \<Rightarrow> 's) \<Rightarrow> bool list \<Rightarrow> EncoderReader \<times> 's
    \<Rightarrow> (bool \<times> int \<times> EncoderReader \<times> 's) ub" where
  "encoder_update_loop xchg now sleep loads rs =
     worker_loop (loop_body (\<lambda>rs. now (snd rs)) (\<lambda>t rs. (fst rs, sleep t (snd rs)))
       (encoder_update_once xchg now) (erc_update_interval (er_config (fst rs)))) loads (0, rs)"

section \<open>Voltages and angles\<close>

definition adc_to_voltages :: "u16 list \<Rightarrow> f32 list ub" where
  "adc_to_voltages adc_values =
     traverse (\<lambda>i. do {
       v \<leftarrow> rd adc_values i;
       Some (f32_div (f32_mul (f32_of_u16 v) VOLTAGE_MAX) ADC_FULL_SCALE) }) [0..<NUM_ENCODER_CHANNELS]"

definition encoder_apply_calibration_unsafe :: "EncoderReader \<Rightarrow> f32 list \<Rightarrow> f32 list ub" where
  "encoder_apply_calibration_unsafe r raw_voltages =
     (let c = er_calibration r in
      if \<not> ec_is_calibrated c then Some raw_voltages
      else traverse (\<lambda>i. do {
        raw \<leftarrow> rd raw_voltages i;
        zero \<leftarrow> rd (ec_zero_voltages c) i;
        scale \<leftarrow> rd (ec_scale_factors c) i;
        Some (f32_mul (f32_sub raw zero) scale) }) [0..<NUM_ENCODER_CHANNELS])"

definition encoder_apply_calibration :: "EncoderReader \<Rightarrow> f32 list \<Rightarrow> f32 list ub" where
  "encoder_apply_calibration r raw_voltages = encoder_apply_calibration_unsafe r raw_voltages"

definition voltages_to_angles :: "EncoderReader \<Rightarrow> f32 list \<Rightarrow> f32 list ub" where
  "voltages_to_angles r voltages = do {
     calibrated_voltages \<leftarrow> encoder_apply_calibration r voltages;
     traverse (\<lambda>i. do {
       v \<leftarrow> rd calibrated_voltages i;
       Some (f32_mul (f32_div v ENCODER_VOLTAGE_MAX) ENCODER_ANGLE_MAX) }) [0..<NUM_ENCODER_CHANNELS] }"

definition get_cached_angles :: "EncoderReader \<Rightarrow> f32 list ub" where
  "get_cached_angles r = do {
     let data = encoder_cached_data r;
     voltages \<leftarrow> adc_to_voltages (ed_adc_values data);
     voltages_to_angles r voltages }"

section \<open>Calibration\<close>

definition calibrate_zero_point ::
  "'s xchg \<Rightarrow> ('s \<Rightarrow> time) \<Rightarrow> EncoderReader \<times> 's \<Rightarrow> (bool \<times> EncoderReader \<times> 's) ub" where
  "calibrate_zero_point xchg now rs = do {
     let (r, s) = rs;
     (data, s) \<leftarrow> read_encoders xchg now s;
     case data of
       None \<Rightarrow> Some (False, r, s)
     | Some d \<Rightarrow> do {
         voltages \<leftarrow> adc_to_voltages (ed_adc_values d);
         let c = (er_calibration r)\<lparr>ec_zero_voltages := voltages\<rparr>;
         let c = c\<lparr>ec_scale_factors := replicate NUM_ENCODER_CHANNELS f32_one\<rparr>;
         let c = c\<lparr>ec_is_calibrated := True\<rparr>;
         Some (True, r\<lparr>er_calibration := c, er_cached_data := d\<rparr>, s) } }"

definition encoder_get_calibration :: "EncoderReader \<Rightarrow> EncoderCalibration" where
  "encoder_get_calibration r = er_calibration r"

definition encoder_set_calibration :: "EncoderCalibration \<Rightarrow> EncoderReader \<Rightarrow> EncoderReader" where
  "encoder_set_calibration c r = r\<lparr>er_calibration := c\<rparr>"

section \<open>The conversions in closed form\<close>

definition voltage_of :: "u16 \<Rightarrow> f32" where
  "voltage_of v = f32_div (f32_mul (f32_of_u16 v) VOLTAGE_MAX) ADC_FULL_SCALE"

definition angle_of :: "f32 \<Rightarrow> f32" where
  "angle_of v = f32_mul (f32_div v ENCODER_VOLTAGE_MAX) ENCODER_ANGLE_MAX"

lemma traverse_nth:
  "length xs = n \<Longrightarrow> traverse (\<lambda>i. do { x \<leftarrow> rd xs i; Some (f x) }) [0..<n] = Some (map f xs)"
  by (subst traverse_total [of _ _ "\<lambda>i. f (xs ! i)"]) (auto intro: nth_equalityI)

lemma adc_to_voltages_eq [ub_simps]:
  "length vs = 16 \<Longrightarrow> adc_to_voltages vs = Some (map voltage_of vs)"
  unfolding adc_to_voltages_def voltage_of_def NUM_ENCODER_CHANNELS_def by (rule traverse_nth)

lemma encoder_apply_calibration_eq [ub_simps]:
  assumes "length raw = 16" and "length (ec_zero_voltages (er_calibration r)) = 16"
    and "length (ec_scale_factors (er_calibration r)) = 16"
  shows "encoder_apply_calibration r raw = Some
    (if ec_is_calibrated (er_calibration r)
     then map (\<lambda>i. f32_mul (f32_sub (raw ! i) (ec_zero_voltages (er_calibration r) ! i))
       (ec_scale_factors (er_calibration r) ! i)) [0..<16]
     else raw)"
  unfolding encoder_apply_calibration_def encoder_apply_calibration_unsafe_def Let_def
    NUM_ENCODER_CHANNELS_def
  by (subst traverse_total [of _ _ "\<lambda>i. f32_mul (f32_sub (raw ! i) (ec_zero_voltages (er_calibration r) ! i))
       (ec_scale_factors (er_calibration r) ! i)"]) (use assms in auto)

lemma voltages_to_angles_eq [ub_simps]:
  "encoder_apply_calibration r vs = Some ws \<Longrightarrow> length ws = 16 \<Longrightarrow>
   voltages_to_angles r vs = Some (map angle_of ws)"
  unfolding voltages_to_angles_def angle_of_def NUM_ENCODER_CHANNELS_def
  by (simp add: traverse_nth)

section \<open>Exactness\<close>

lemma encoder_constants:
  "f32_is VOLTAGE_MAX (4 * 2 ^ 149)" "f32_is ADC_FULL_SCALE (65536 * 2 ^ 149)"
  "f32_is ENCODER_VOLTAGE_MAX (4 * 2 ^ 149)" "f32_is ENCODER_ANGLE_MAX (360 * 2 ^ 149)"
  "f32_is f32_one (2 ^ 149)"
  by code_simp+

lemma u16_lt: "uint (v :: u16) < 65536" "0 \<le> uint v"
  using uint_lt2p [of v] by simp_all

lemma voltage_of_is: "f32_is (voltage_of v) (uint v * 2 ^ 135)"
proof -
  have "f32_is (f32_mul (f32_of_u16 v) VOLTAGE_MAX) (uint v * 2 ^ 151)"
    using f32_mul_is [OF f32_of_u16_is encoder_constants(1), of v "uint v * 2 ^ 151"]
      f32_exact_abs [of "uint v" 151] u16_lt [of v] by simp
  from f32_div_is [OF this encoder_constants(2), of "uint v * 2 ^ 135"]
  show ?thesis
    using f32_exact_abs [of "uint v" 135] u16_lt [of v] by (simp add: voltage_of_def)
qed

lemma angle_of_is:
  assumes "f32_is x (d * 2 ^ 135)" and "\<bar>d\<bar> < 65536"
  shows "f32_is (angle_of x) (45 * d * 2 ^ 136)"
proof -
  have "f32_is (f32_div x ENCODER_VOLTAGE_MAX) (d * 2 ^ 133)"
    using f32_div_is [OF assms(1) encoder_constants(3), of "d * 2 ^ 133"]
      f32_exact_abs [of d 133] assms(2) by simp
  from f32_mul_is [OF this encoder_constants(4), of "45 * d * 2 ^ 136"]
  show ?thesis
    using f32_exact_abs [of "45 * d" 136] assms(2) by (simp add: angle_of_def)
qed

lemma angle_value:
  assumes "f32_is x (d * 2 ^ 135)" and "\<bar>d\<bar> < 65536"
  shows "f32_value (angle_of x) = Some (360 * of_int d / 65536)"
  using f32_is_value [OF angle_of_is [OF assms]] by simp

text \<open>Against a zero voltage that is itself a converted reading, with scale factor 1.\<close>

lemma calibrated_voltage_is:
  "f32_is (f32_mul (f32_sub (voltage_of v) (voltage_of z)) f32_one) ((uint v - uint z) * 2 ^ 135)"
proof -
  have lt: "\<bar>uint v - uint z\<bar> < 65536" using u16_lt [of v] u16_lt [of z] by linarith
  have eq: "uint v * 2 ^ 135 - uint z * 2 ^ 135 = (uint v - uint z) * 2 ^ 135"
    by (simp only: left_diff_distrib)
  have ex: "f32_exact \<bar>(uint v - uint z) * 2 ^ 135\<bar>" using lt by (intro f32_exact_abs) simp_all
  have "f32_is (f32_sub (voltage_of v) (voltage_of z)) ((uint v - uint z) * 2 ^ 135)"
    using f32_sub_is [OF voltage_of_is voltage_of_is, of v z] ex by (simp only: eq)
  then show ?thesis by (rule f32_mul_is [OF _ encoder_constants(5) _ ex]) simp
qed

text \<open>The reader's arrays have sixteen entries.\<close>

definition encoder_wf :: "EncoderReader \<Rightarrow> bool" where
  "encoder_wf r \<longleftrightarrow> length (ed_adc_values (er_cached_data r)) = 16
     \<and> length (ec_zero_voltages (er_calibration r)) = 16
     \<and> length (ec_scale_factors (er_calibration r)) = 16"

lemma encoder_wf_new: "encoder_wf (EncoderReader_new config now)"
  by (simp add: encoder_wf_def EncoderReader_new_def EncoderCalibration_default_def NUM_ENCODER_CHANNELS_def)

text \<open>The calibration that \<open>calibrate_zero_point\<close> installs for a reading.\<close>

definition zero_calibration :: "u16 list \<Rightarrow> EncoderCalibration" where
  "zero_calibration zs = \<lparr>ec_zero_voltages = map voltage_of zs,
     ec_scale_factors = replicate 16 f32_one, ec_is_calibrated = True\<rparr>"

lemma get_cached_angles_uncalibrated:
  assumes "encoder_wf r" and "\<not> ec_is_calibrated (er_calibration r)"
  shows "get_cached_angles r = Some (map (angle_of \<circ> voltage_of) (ed_adc_values (er_cached_data r)))"
  using assms by (simp add: get_cached_angles_def encoder_cached_data_def encoder_wf_def
      adc_to_voltages_eq encoder_apply_calibration_eq voltages_to_angles_eq)

lemma get_cached_angles_calibrated:
  assumes "length vs = 16" and "length zs = 16" and "ed_adc_values (er_cached_data r) = vs"
    and "er_calibration r = zero_calibration zs"
  shows "get_cached_angles r = Some (map (\<lambda>i. angle_of
    (f32_mul (f32_sub (voltage_of (vs ! i)) (voltage_of (zs ! i))) f32_one)) [0..<16])"
proof -
  let ?ws = "map (\<lambda>i. f32_mul (f32_sub (voltage_of (vs ! i)) (voltage_of (zs ! i))) f32_one) [0..<16]"
  have "encoder_apply_calibration r (map voltage_of vs) = Some ?ws"
    using assms by (subst encoder_apply_calibration_eq) (auto simp: zero_calibration_def)
  then have "voltages_to_angles r (map voltage_of vs) = Some (map angle_of ?ws)"
    by (rule voltages_to_angles_eq) simp
  then show ?thesis
    using assms by (simp add: get_cached_angles_def encoder_cached_data_def adc_to_voltages_eq comp_def)
qed

lemma get_cached_angles_total: "encoder_wf r \<Longrightarrow> \<exists>xs. get_cached_angles r = Some xs \<and> length xs = 16"
  by (simp add: get_cached_angles_def encoder_cached_data_def encoder_wf_def adc_to_voltages_eq
      encoder_apply_calibration_eq voltages_to_angles_eq)

section \<open>The reader as a client of the exchange interface\<close>

lemma read_encoders_eq:
  "read_encoders xchg now s = do {
     (response, s) \<leftarrow> xchg (plain_packet TARGET_ENCODER [0xFF, 0xFF]) s;
     Some (case response of None \<Rightarrow> None
       | Some p \<Rightarrow> if encoder_reply_shape p
           then Some \<lparr>ed_adc_values = adc_of_body (pkt_body p), ed_timestamp = now s\<rparr> else None, s) }"
  by (auto simp: read_encoders_def encode_read_all_encoders_eq parse_encoder_data_eq
      split: Option.bind_splits option.splits)

lemma read_encoders_length:
  "read_encoders xchg now s = Some (Some d, s') \<Longrightarrow> length (ed_adc_values d) = 16"
  by (auto simp: read_encoders_eq Option.bind_eq_Some_conv split: option.splits if_splits)

context exchange
begin

lemma read_encoders_total: "\<exists>d s'. read_encoders xchg now s = Some (d, s') \<and> (inv s \<longrightarrow> inv s')"
proof -
  obtain resp s' where x: "xchg (plain_packet TARGET_ENCODER [0xFF, 0xFF]) s = Some (resp, s')"
    by (rule xchg_cases)
  with xchg_inv [OF x] show ?thesis by (auto simp: read_encoders_eq)
qed

lemma encoder_update_total:
  assumes "encoder_wf r"
  shows "\<exists>b r' s'. encoder_update_once xchg now (r, s) = Some (b, r', s')
     \<and> encoder_wf r' \<and> (inv s \<longrightarrow> inv s')"
proof -
  obtain d s' where d: "read_encoders xchg now s = Some (d, s')" "inv s \<longrightarrow> inv s'"
    using read_encoders_total by blast
  show ?thesis
  proof (cases d)
    case None
    with d assms show ?thesis by (auto simp: encoder_update_once_def)
  next
    case (Some v)
    with d assms read_encoders_length [of xchg now s v s'] show ?thesis
      by (auto simp: encoder_update_once_def encoder_wf_def)
  qed
qed

end

interpretation encoder_poll: total_poller "encoder_update_once (send_and_receive os) (link_now os)"
    "\<lambda>rs. encoder_wf (fst rs) \<and> udp_inv (fst (snd rs))"
    "\<lambda>rs. link_now os (snd rs)" "\<lambda>t rs. (fst rs, link_sleep os t (snd rs))" for os :: "'w os"
proof
  fix rs rs' :: "EncoderReader \<times> 'w link" and b t
  assume inv: "encoder_wf (fst rs) \<and> udp_inv (fst (snd rs))"
  from inv udp.encoder_update_total [of "fst rs" os "link_now os" "snd rs"]
  obtain b' r' s' where u: "encoder_update_once (send_and_receive os) (link_now os) rs = Some (b', r', s')"
    "encoder_wf r'" "udp_inv (fst s')" by auto
  show "\<exists>b rs'. encoder_update_once (send_and_receive os) (link_now os) rs = Some (b, rs')"
    using u by blast
  show "encoder_wf (fst (fst rs, link_sleep os t (snd rs)))
      \<and> udp_inv (fst (snd (fst rs, link_sleep os t (snd rs))))"
    using inv by simp
  assume "encoder_update_once (send_and_receive os) (link_now os) rs = Some (b, rs')"
  then show "encoder_wf (fst rs') \<and> udp_inv (fst (snd rs'))" using u by auto
qed

section \<open>Calibration in closed form\<close>

lemma angle_at_zero: "angle_of (f32_mul (f32_sub (voltage_of v) (voltage_of v)) f32_one) = 0"
proof -
  have "angle_of (f32_mul 0 f32_one) = 0" by code_simp
  then show ?thesis by (simp add: f32_sub_self [OF voltage_of_is])
qed

lemma angles_at_zero:
  assumes "length zs = 16" and "ed_adc_values (er_cached_data r) = zs"
    and "er_calibration r = zero_calibration zs"
  shows "get_cached_angles r = Some (replicate 16 0)"
  using get_cached_angles_calibrated [OF assms(1) assms(1) assms(2,3)]
  by (simp add: angle_at_zero map_replicate_trivial del: upt_conv_Cons)

lemma calibrate_zero_point_eq:
  "calibrate_zero_point xchg now (r, s) = do {
     (data, s) \<leftarrow> read_encoders xchg now s;
     Some (case data of None \<Rightarrow> (False, r, s)
       | Some d \<Rightarrow> (True, r\<lparr>er_calibration := zero_calibration (ed_adc_values d),
           er_cached_data := d\<rparr>, s)) }"
proof -
  have "adc_to_voltages (ed_adc_values d) = Some (map voltage_of (ed_adc_values d))"
    if "read_encoders xchg now s = Some (Some d, s')" for d s'
    using read_encoders_length [OF that] by (rule adc_to_voltages_eq)
  then show ?thesis
    by (auto simp: calibrate_zero_point_def zero_calibration_def NUM_ENCODER_CHANNELS_def
        split: Option.bind_splits option.splits)
qed

context exchange
begin

lemma encoder_initialize_total:
  assumes "encoder_wf r" and "\<not> erc_auto_start_thread (er_config r)"
  shows "\<exists>b r' s'. encoder_initialize xchg now spawn (r, s) = Some (Inr b, r', s')
     \<and> encoder_wf r' \<and> (inv s \<longrightarrow> inv s')"
proof -
  obtain d s' where d: "read_encoders xchg now s = Some (d, s')" "inv s \<longrightarrow> inv s'"
    using read_encoders_total by blast
  show ?thesis
  proof (cases d)
    case None
    with d assms show ?thesis by (auto simp: encoder_initialize_def)
  next
    case (Some v)
    with d assms read_encoders_length [of xchg now s v s'] show ?thesis
      by (auto simp: encoder_initialize_def encoder_wf_def)
  qed
qed

lemma calibrate_zero_point_total:
  assumes "encoder_wf r"
  shows "\<exists>b r' s'. calibrate_zero_point xchg now (r, s) = Some (b, r', s')
     \<and> encoder_wf r' \<and> (inv s \<longrightarrow> inv s')"
proof -
  obtain d s' where d: "read_encoders xchg now s = Some (d, s')" "inv s \<longrightarrow> inv s'"
    using read_encoders_total by blast
  show ?thesis
  proof (cases d)
    case None
    with d assms show ?thesis by (auto simp: calibrate_zero_point_eq)
  next
    case (Some v)
    with d assms read_encoders_length [of xchg now s v s'] show ?thesis
      by (auto simp: calibrate_zero_point_eq encoder_wf_def zero_calibration_def)
  qed
qed

end

section \<open>Properties\<close>

text \<open>
  C33. The angles are exact, without calibration or with one that \<open>calibrate_zero_point\<close> installs (scale factors one; not for other scale factors
  given to \<open>set_calibration\<close>). All of \<open>adc_to_voltages\<close>, \<open>apply_calibration\<close> and \<open>voltages_to_angles\<close> is
  \<open>float\<close> arithmetic, and none of it rounds: for every cached reading, channel \<open>i\<close> is exactly \<open>360 * (adc - zero) / 65536\<close> degrees, so
  with a calibration it is negative wherever the reading is below the zero point.
\<close>

theorem encoder_angles_exact:
  assumes "encoder_wf r" and "length zs = 16"
    and "er_calibration r = zero_calibration zs \<or> \<not> ec_is_calibrated (er_calibration r)"
  shows "\<exists>angles. get_cached_angles r = Some angles \<and> length angles = 16
    \<and> (\<forall>i < 16. f32_value (angles ! i) = Some (360 * of_int (uint (ed_adc_values (er_cached_data r) ! i)
         - (if ec_is_calibrated (er_calibration r) then uint (zs ! i) else 0)) / 65536))"
proof (cases "ec_is_calibrated (er_calibration r)")
  case False
  have "f32_value (angle_of (voltage_of v)) = Some (360 * of_int (uint v) / 65536)" for v
    using angle_value [OF voltage_of_is] u16_lt [of v] by simp
  then show ?thesis
    using get_cached_angles_uncalibrated [OF assms(1) False] assms(1) False
    by (simp add: encoder_wf_def)
next
  case True
  with assms(3) have cal: "er_calibration r = zero_calibration zs" by simp
  have "f32_value (angle_of (f32_mul (f32_sub (voltage_of v) (voltage_of z)) f32_one))
      = Some (360 * of_int (uint v - uint z) / 65536)" for v z
  proof (rule angle_value [OF calibrated_voltage_is])
    show "\<bar>uint v - uint z\<bar> < 65536" using u16_lt [of v] u16_lt [of z] by linarith
  qed
  then show ?thesis
    using get_cached_angles_calibrated [OF _ assms(2) refl cal] assms(1) True
    by (simp add: encoder_wf_def)
qed

theorem encoder_angles_exact_witness:
  "\<exists>angles. get_cached_angles ((EncoderReader_new EncoderReaderConfig_default 0)
       \<lparr>er_cached_data := \<lparr>ed_adc_values = replicate 16 32768, ed_timestamp = 5\<rparr>\<rparr>) = Some angles
     \<and> f32_value (angles ! 3) = Some 180"
proof -
  let ?r = "(EncoderReader_new EncoderReaderConfig_default 0)
       \<lparr>er_cached_data := \<lparr>ed_adc_values = replicate 16 32768, ed_timestamp = 5\<rparr>\<rparr>"
  have "encoder_wf ?r" using encoder_wf_new [of EncoderReaderConfig_default 0] by (simp add: encoder_wf_def)
  moreover have cal: "\<not> ec_is_calibrated (er_calibration ?r)"
    by (simp add: EncoderReader_new_def EncoderCalibration_default_def)
  ultimately obtain angles where "get_cached_angles ?r = Some angles"
    "\<forall>i < 16. f32_value (angles ! i) = Some (360 * of_int (uint (replicate 16 (32768 :: u16) ! i) - 0) / 65536)"
    using encoder_angles_exact [of ?r "replicate 16 0"] by auto
  moreover from this(2) [rule_format, of 3] have "f32_value (angles ! 3) = Some 180" by simp
  ultimately show ?thesis by blast
qed

text \<open>
  \<open>calibrate_zero_point\<close> always returns. When it reports success, the new reading is cached, its
  voltages are the zero point with scale 1, and all sixteen angles are \<open>+0.0\<close> to the bit; when it
  reports failure nothing changed. Either way every array keeps its sixteen entries.
\<close>

lemma encoder_zero_point:
  assumes "encoder_wf r"
  shows "\<exists>ok r' s'. calibrate_zero_point (send_and_receive os) (link_now os) (r, s) = Some (ok, r', s')
    \<and> encoder_wf r'
    \<and> (if ok then er_calibration r' = zero_calibration (ed_adc_values (er_cached_data r'))
             \<and> get_cached_angles r' = Some (replicate 16 0)
       else r' = r)"
proof -
  obtain d s' where d: "read_encoders (send_and_receive os) (link_now os) s = Some (d, s')"
    using udp.read_encoders_total by blast
  show ?thesis
  proof (cases d)
    case None
    with d assms show ?thesis by (auto simp: calibrate_zero_point_eq)
  next
    case (Some v)
    with d have l: "length (ed_adc_values v) = 16" by (auto dest: read_encoders_length)
    let ?r = "r\<lparr>er_calibration := zero_calibration (ed_adc_values v), er_cached_data := v\<rparr>"
    have "get_cached_angles ?r = Some (replicate 16 0)"
      by (rule angles_at_zero [OF l]) simp_all
    moreover have "encoder_wf ?r" using l by (simp add: encoder_wf_def zero_calibration_def)
    ultimately show ?thesis
      using d Some by (intro exI [of _ True] exI [of _ ?r] exI [of _ s']) (simp add: calibrate_zero_point_eq)
  qed
qed

lemma encoder_zero_point_instance:
  "\<exists>ok r' s'. calibrate_zero_point (send_and_receive sim_os) (link_now sim_os)
      (EncoderReader_new EncoderReaderConfig_default 0, UdpClient_new UdpConfig_default, sim_init [])
    = Some (ok, r', s') \<and> encoder_wf r'"
  using encoder_zero_point [OF encoder_wf_new] by blast

text \<open>
  The background loop. On every schedule of at most \<open>2 ^ 31 - 1\<close> loads of the flag, whatever the
  network does, the loop has defined behaviour, leaves exactly when one of its loads returns false, and
  keeps the cache at sixteen entries and the connection invariant.
\<close>

lemma encoder_loop_runs:
  assumes "encoder_wf r" and "udp_inv c" and "int (length loads) \<le> 2 ^ 31 - 1"
  shows "\<exists>failures r' c' w'. encoder_update_loop (send_and_receive os) (link_now os) (link_sleep os)
      loads (r, c, w) = Some (False \<in> set loads, failures, r', c', w') \<and> encoder_wf r' \<and> udp_inv c'"
  using encoder_poll.worker_loop_total [of "(r, c, w)" 0 loads os] assms
  by (fastforce simp: encoder_update_loop_def INT_MAX_def)

lemma encoder_loop_runs_instance:
  "\<exists>failures r' c' w'. encoder_update_loop (send_and_receive sim_os) (link_now sim_os) (link_sleep sim_os)
      [True, True, False] (EncoderReader_new EncoderReaderConfig_default 0,
        UdpClient_new UdpConfig_default, sim_init [])
    = Some (True, failures, r', c', w') \<and> encoder_wf r'"
  using encoder_loop_runs [OF encoder_wf_new, of "UdpClient_new UdpConfig_default" "[True, True, False]"
      sim_os EncoderReaderConfig_default 0 "sim_init []"] by auto

text \<open>
  From the wire to the angle. When the request leaves and the next datagram is an encoder reply (with
  the documented or the firmware's length byte) carrying sixteen ADC values, the first of which does not
  spell a motor header, then \<open>update_once\<close> succeeds, caches exactly these values with the time of
  their arrival, and the angles of an uncalibrated reader are \<open>360 * adc / 65536\<close> degrees.
\<close>

lemma encoder_reading_end_to_end:
  assumes "uc_connected c"
    and "os_send os (uc_socket_fd c) (serialize (plain_packet TARGET_ENCODER [0xFF, 0xFF])) w = (9, w1)"
    and "os_recv os (uc_socket_fd c) 1024 w1 = (Recv_Data (device_frame len 0x02 0x00 (encoder_body vs)), w2)"
    and "len = 0x22 \<or> len = 0x25" and "length vs = 16" and "vs ! 0 \<noteq> 0x55AA" and "vs ! 0 \<noteq> 0xAA55"
    and "encoder_wf r" and "\<not> ec_is_calibrated (er_calibration r)"
  shows "\<exists>c' angles. encoder_update_once (send_and_receive os) (link_now os) (r, c, w)
      = Some (True, r\<lparr>er_cached_data := \<lparr>ed_adc_values = vs, ed_timestamp = os_now os w2\<rparr>\<rparr>, c', w2)
    \<and> get_cached_angles (r\<lparr>er_cached_data := \<lparr>ed_adc_values = vs, ed_timestamp = os_now os w2\<rparr>\<rparr>) = Some angles
    \<and> (\<forall>i < 16. f32_value (angles ! i) = Some (360 * of_int (uint (vs ! i)) / 65536))"
proof -
  let ?p = "device_packet len 0x02 0x00 (encoder_body vs)"
  let ?c = "update_receive_stats True False False (update_send_stats True c)"
  let ?r = "r\<lparr>er_cached_data := \<lparr>ed_adc_values = vs, ed_timestamp = os_now os w2\<rparr>\<rparr>"
  obtain v ws where vs: "vs = v # ws" "length ws = 15" using assms(5) by (cases vs) auto
  then have "inner_ok (encoder_body vs)"
    using assms(6,7) by (simp add: inner_ok_def motor_header_encoder_body)
  then have d: "deserialize (device_frame len 0x02 0x00 (encoder_body vs)) = Some (Some ?p)"
    using assms(4,5) by (intro deserialize_device_frame) auto
  have l: "length (device_frame len 0x02 0x00 (encoder_body vs)) \<le> 1024"
    using assms(5) by (simp add: device_frame_def Let_def)
  have sz: "length (serialize (plain_packet TARGET_ENCODER [0xFF, 0xFF])) = 9"
    using encode_request_size [of Read_Encoders] by (simp add: encode_read_all_encoders_eq)
  have "send_and_receive os (plain_packet TARGET_ENCODER [0xFF, 0xFF]) (c, w) = Some (Some ?p, ?c, w2)"
    by (rule send_and_receive_delivers [OF assms(1) _ assms(3) l d]) (simp only: sz assms(2) of_nat_numeral)
  then have "encoder_update_once (send_and_receive os) (link_now os) (r, c, w) = Some (True, ?r, ?c, w2)"
    using assms(5) by (simp add: encoder_update_once_def read_encoders_eq encoder_reply_shape_def
        adc_of_encoder_body link_now_def)
  moreover have "get_cached_angles ?r = Some (map (angle_of \<circ> voltage_of) vs)"
    using get_cached_angles_uncalibrated [of ?r] assms(5,8,9) by (simp add: encoder_wf_def)
  moreover have "\<forall>i < 16. f32_value (map (angle_of \<circ> voltage_of) vs ! i)
      = Some (360 * of_int (uint (vs ! i)) / 65536)"
    using angle_value [OF voltage_of_is] u16_lt assms(5) by simp
  ultimately show ?thesis by blast
qed

lemma encoder_reading_end_to_end_instance:
  "\<exists>c w r c' w'. encoder_update_once (send_and_receive sim_os) (link_now sim_os) (r, c, w)
    = Some (True, r\<lparr>er_cached_data := \<lparr>ed_adc_values = replicate 16 513, ed_timestamp = os_now sim_os w'\<rparr>\<rparr>, c', w')"
proof -
  let ?d = "Recv_Data (device_frame 0x25 0x02 0x00 (encoder_body (replicate 16 513)))"
  let ?w = "snd (snd (connect sim_os (UdpClient_new UdpConfig_default, sim_init [?d])))"
  let ?c = "fst (snd (connect sim_os (UdpClient_new UdpConfig_default, sim_init [?d])))"
  let ?send = "os_send sim_os (uc_socket_fd ?c) (serialize (plain_packet TARGET_ENCODER [0xFF, 0xFF])) ?w"
  have c: "uc_connected ?c" by code_simp
  have send: "?send = (9, snd ?send)"
    by (simp add: sim_os_def plain_packet_def Packet_default_def)
  have "sim_script ?w = [?d]" by code_simp
  then have recv: "os_recv sim_os (uc_socket_fd ?c) 1024 (snd ?send)
      = (?d, snd (os_recv sim_os (uc_socket_fd ?c) 1024 (snd ?send)))"
    by (simp add: sim_os_def sim_tick_def sim_recv_def)
  have side: "(0x25 :: u8) = 0x22 \<or> (0x25 :: u8) = 0x25" "length (replicate 16 (513 :: u16)) = 16"
    "replicate 16 513 ! 0 \<noteq> (0x55AA :: u16)" "replicate 16 513 ! 0 \<noteq> (0xAA55 :: u16)" by simp_all
  have cal: "\<not> ec_is_calibrated (er_calibration (EncoderReader_new EncoderReaderConfig_default 0))"
    by (simp add: EncoderReader_new_def EncoderCalibration_default_def)
  from encoder_reading_end_to_end [OF c send recv side encoder_wf_new cal] show ?thesis by blast
qed

end
