(* ===== verification/Imu_Reader.thy ===== *)
theory Imu_Reader
  imports Udp_Client Worker Float32
begin

text \<open>
  \<open>class ImuReader\<close> (\<open>src/imu_reader.cpp\<close>): reading the orientation into the cache, with roll and
  pitch corrected by an offset and yaw wrapped by \<open>std::fmod\<close>, the zero-orientation calibration and
  the background thread. The floats are bit patterns with the arithmetic of \<open>Float32\<close>.
\<close>

section \<open>State\<close>

text \<open>The literal \<open>360.0f\<close>.\<close>

definition f32_360 :: f32 where "f32_360 = 0x43B40000"

record ImuCalibration =
  ic_roll_offset :: f32
  ic_pitch_offset :: f32
  ic_yaw_offset :: f32
  ic_is_calibrated :: bool

definition ImuCalibration_default :: ImuCalibration where
  "ImuCalibration_default = \<lparr>ic_roll_offset = 0, ic_pitch_offset = 0, ic_yaw_offset = 0,
     ic_is_calibrated = False\<rparr>"

record ImuReaderConfig =
  irc_auto_start_thread :: bool
  irc_update_interval :: int

definition ImuReaderConfig_default :: ImuReaderConfig where
  "ImuReaderConfig_default = \<lparr>irc_auto_start_thread = True, irc_update_interval = 100\<rparr>"

record ImuReader =
  ir_config :: ImuReaderConfig
  ir_cached_data :: ImuData
  ir_calibration :: ImuCalibration
  ir_worker :: worker

definition ImuReader_new :: "ImuReaderConfig \<Rightarrow> time \<Rightarrow> ImuReader" where
  "ImuReader_new config now =
     \<lparr>ir_config = config,
      ir_cached_data = \<lparr>imu_roll = 0, imu_pitch = 0, imu_yaw = 0, imu_timestamp = now\<rparr>,
      ir_calibration = ImuCalibration_default, ir_worker = worker_new\<rparr>"

section \<open>Reading and calibration\<close>

definition read_imu :: "'s xchg \<Rightarrow> ('s \<Rightarrow> time) \<Rightarrow> 's \<Rightarrow> (ImuData option \<times> 's) ub" where
  "read_imu xchg now s = do {
     packet \<leftarrow> encode_read_imu;
     (response, s) \<leftarrow> xchg packet s;
     case response of
       None \<Rightarrow> Some (None, s)
     | Some p \<Rightarrow> do { data \<leftarrow> parse_imu_data p (now s); Some (data, s) } }"

definition imu_apply_calibration_unsafe :: "ImuReader \<Rightarrow> ImuData \<Rightarrow> ImuData" where
  "imu_apply_calibration_unsafe r raw_data =
     (let c = ir_calibration r in
      if \<not> ic_is_calibrated c then raw_data
      else
        let d = raw_data;
            d = d\<lparr>imu_roll := f32_sub (imu_roll d) (ic_roll_offset c)\<rparr>;
            d = d\<lparr>imu_pitch := f32_sub (imu_pitch d) (ic_pitch_offset c)\<rparr>;
            d = d\<lparr>imu_yaw := f32_fmod (f32_add (f32_sub (imu_yaw raw_data) (ic_yaw_offset c)) f32_360) f32_360\<rparr>
        in d)"

definition imu_apply_calibration :: "ImuReader \<Rightarrow> ImuData \<Rightarrow> ImuData" where
  "imu_apply_calibration r raw_data = imu_apply_calibration_unsafe r raw_data"

definition imu_update_once ::
  "'s xchg \<Rightarrow> ('s \<Rightarrow> time) \<Rightarrow> ImuReader \<times> 's \<Rightarrow> (bool \<times> ImuReader \<times> 's) ub" where
  "imu_update_once xchg now rs = do {
     let (r, s) = rs;
     (data, s) \<leftarrow> read_imu xchg now s;
     case data of
       Some d \<Rightarrow>
         let calibrated = imu_apply_calibration r d
         in Some (True, r\<lparr>ir_cached_data := calibrated\<rparr>, s)
     | None \<Rightarrow> Some (False, r, s) }"

definition calibrate_zero_orientation ::
  "'s xchg \<Rightarrow> ('s \<Rightarrow> time) \<Rightarrow> ImuReader \<times> 's \<Rightarrow> (bool \<times> ImuReader \<times> 's) ub" where
  "calibrate_zero_orientation xchg now rs = do {
     let (r, s) = rs;
     (data, s) \<leftarrow> read_imu xchg now s;
     case data of
       None \<Rightarrow> Some (False, r, s)
     | Some d \<Rightarrow>
         let r = r\<lparr>ir_calibration := \<lparr>ic_roll_offset = imu_roll d, ic_pitch_offset = imu_pitch d,
                ic_yaw_offset = imu_yaw d, ic_is_calibrated = True\<rparr>\<rparr>;
             r = r\<lparr>ir_cached_data := imu_apply_calibration_unsafe r d\<rparr>
         in Some (True, r, s) }"

definition imu_cached_data :: "ImuReader \<Rightarrow> ImuData" where
  "imu_cached_data r = ir_cached_data r"

definition imu_get_calibration :: "ImuReader \<Rightarrow> ImuCalibration" where
  "imu_get_calibration r = ir_calibration r"

definition imu_set_calibration :: "ImuCalibration \<Rightarrow> ImuReader \<Rightarrow> ImuReader" where
  "imu_set_calibration c r = r\<lparr>ir_calibration := c\<rparr>"

definition imu_data_age :: "ImuReader \<Rightarrow> time \<Rightarrow> int" where
  "imu_data_age r now = (now - imu_timestamp (ir_cached_data r)) sdiv 1000000"

section \<open>The background thread and initialisation\<close>

definition imu_start_update_thread ::
  "('s \<Rightarrow> bool \<times> 's) \<Rightarrow> ImuReader \<times> 's \<Rightarrow> start_outcome \<times> ImuReader \<times> 's" where
  "imu_start_update_thread spawn rs =
     (let (r, s) = rs; (out, t, s) = worker_start spawn (ir_worker r, s)
      in (out, r\<lparr>ir_worker := t\<rparr>, s))"

definition imu_stop_update_thread :: "ImuReader \<Rightarrow> ImuReader" where
  "imu_stop_update_thread r = r\<lparr>ir_worker := worker_stop (ir_worker r)\<rparr>"

definition imu_thread_running :: "ImuReader \<Rightarrow> bool" where
  "imu_thread_running r = thread_running (ir_worker r)"

text \<open>The destructor, which stops the thread.\<close>

definition imu_destroy :: "ImuReader \<Rightarrow> ImuReader" where
  "imu_destroy r = imu_stop_update_thread r"

definition imu_initialize ::
  "'s xchg \<Rightarrow> ('s \<Rightarrow> time) \<Rightarrow> ('s \<Rightarrow> bool \<times> 's) \<Rightarrow> ImuReader \<times> 's
    \<Rightarrow> ((start_outcome + bool) \<times> ImuReader \<times> 's) ub" where
  "imu_initialize xchg now spawn rs = do {
     let (r, s) = rs;
     (data, s) \<leftarrow> read_imu xchg now s;
     case data of
       None \<Rightarrow> Some (Inr False, r, s)
     | Some d \<Rightarrow>
         let r = r\<lparr>ir_cached_data := imu_apply_calibration r d\<rparr> in
         if irc_auto_start_thread (ir_config r) then
           (let (out, r, s) = imu_start_update_thread spawn (r, s) in Some (after_start out, r, s))
         else Some (Inr True, r, s) }"

definition imu_update_loop ::
  "'s xchg \<Rightarrow> ('s \<Rightarrow> time) \<Rightarrow> (time \<Rightarrow> 's \<Rightarrow> 's) \<Rightarrow> bool list \<Rightarrow> ImuReader \<times> 's
    \<Rightarrow> (bool \<times> int \<times> ImuReader \<times> 's) ub" where
  "imu_update_loop xchg now sleep loads rs =
     worker_loop (loop_body (\<lambda>rs. now (snd rs)) (\<lambda>t rs. (fst rs, sleep t (snd rs)))
       (imu_update_once xchg now) (irc_update_interval (ir_config (fst rs)))) loads (0, rs)"

section \<open>The reader as a client of the exchange interface\<close>

lemma read_imu_eq:
  "read_imu xchg now s = do {
     (response, s) \<leftarrow> xchg (plain_packet TARGET_IMU []) s;
     Some (case response of None \<Rightarrow> None
       | Some p \<Rightarrow> if imu_reply_shape p
           then Some \<lparr>imu_roll = float_at (pkt_body p) 0, imu_pitch = float_at (pkt_body p) 4,
             imu_yaw = float_at (pkt_body p) 8, imu_timestamp = now s\<rparr> else None, s) }"
  by (auto simp: read_imu_def encode_read_imu_eq parse_imu_data_eq
      split: Option.bind_splits option.splits)

context exchange
begin

lemma read_imu_total: "\<exists>d s'. read_imu xchg now s = Some (d, s') \<and> (inv s \<longrightarrow> inv s')"
proof -
  obtain resp s' where x: "xchg (plain_packet TARGET_IMU []) s = Some (resp, s')"
    by (rule xchg_cases)
  with xchg_inv [OF x] show ?thesis by (auto simp: read_imu_eq)
qed

lemma imu_update_total:
  "\<exists>b r' s'. imu_update_once xchg now (r, s) = Some (b, r', s') \<and> (inv s \<longrightarrow> inv s')"
proof -
  obtain d s' where "read_imu xchg now s = Some (d, s')" "inv s \<longrightarrow> inv s'"
    using read_imu_total by blast
  then show ?thesis by (cases d) (auto simp: imu_update_once_def)
qed

lemma imu_initialize_total:
  assumes "\<not> irc_auto_start_thread (ir_config r)"
  shows "\<exists>b r' s'. imu_initialize xchg now spawn (r, s) = Some (Inr b, r', s') \<and> (inv s \<longrightarrow> inv s')"
proof -
  obtain d s' where "read_imu xchg now s = Some (d, s')" "inv s \<longrightarrow> inv s'"
    using read_imu_total by blast
  then show ?thesis using assms by (cases d) (auto simp: imu_initialize_def)
qed

lemma calibrate_zero_orientation_total:
  "\<exists>b r' s'. calibrate_zero_orientation xchg now (r, s) = Some (b, r', s') \<and> (inv s \<longrightarrow> inv s')"
proof -
  obtain d s' where "read_imu xchg now s = Some (d, s')" "inv s \<longrightarrow> inv s'"
    using read_imu_total by blast
  then show ?thesis by (cases d) (auto simp: calibrate_zero_orientation_def Let_def)
qed

end

interpretation imu_poll: total_poller "imu_update_once (send_and_receive os) (link_now os)"
    "\<lambda>rs. udp_inv (fst (snd rs))"
    "\<lambda>rs. link_now os (snd rs)" "\<lambda>t rs. (fst rs, link_sleep os t (snd rs))" for os :: "'w os"
proof
  fix rs rs' :: "ImuReader \<times> 'w link" and b t
  assume inv: "udp_inv (fst (snd rs))"
  from inv udp.imu_update_total [of os "link_now os" "fst rs" "snd rs"]
  obtain b' r' s' where u: "imu_update_once (send_and_receive os) (link_now os) rs = Some (b', r', s')"
    "udp_inv (fst s')" by auto
  show "\<exists>b rs'. imu_update_once (send_and_receive os) (link_now os) rs = Some (b, rs')"
    using u by blast
  show "udp_inv (fst (snd (fst rs, link_sleep os t (snd rs))))"
    using inv by simp
  assume "imu_update_once (send_and_receive os) (link_now os) rs = Some (b, rs')"
  then show "udp_inv (fst (snd rs'))" using u by auto
qed

lemma imu_loop_runs:
  assumes "udp_inv c" and "int (length loads) \<le> INT_MAX"
  shows "\<exists>failures r' c' w'. imu_update_loop (send_and_receive os) (link_now os) (link_sleep os)
      loads (r, c, w) = Some (False \<in> set loads, failures, r', c', w') \<and> udp_inv c'"
  using imu_poll.worker_loop_total [of "(r, c, w)" 0 loads os] assms
  by (fastforce simp: imu_update_loop_def)

section \<open>The wrap of the yaw angle\<close>

definition wrapped_yaw :: "f32 \<Rightarrow> f32 \<Rightarrow> f32" where
  "wrapped_yaw raw off = f32_fmod (f32_add (f32_sub raw off) f32_360) f32_360"

lemma f32_360_is: "f32_is f32_360 (360 * 2 ^ 149)"
  by code_simp

lemma wrapped_yaw_self:
  assumes "f32_is x u"
  shows "wrapped_yaw x x = 0"
proof -
  have "f32_fmod (f32_add 0 f32_360) f32_360 = 0" by code_simp
  then show ?thesis by (simp add: wrapped_yaw_def f32_sub_self [OF assms])
qed

text \<open>
  In units: a difference between -360 and \<open>2 ^ 24\<close> degrees stays in that range when it is rounded, so
  the sum is not negative and the remainder lies in \<open>[0, 360)\<close>.
\<close>

lemma wrapped_yaw_units:
  assumes "f32_is x u" and "f32_is off v"
    and "- 360 * 2 ^ 149 \<le> u - v" and "u - v \<le> 2 ^ 24 * 2 ^ 149"
  obtains y where "f32_is (wrapped_yaw x off) y" and "0 \<le> y" and "y < 360 * 2 ^ 149"
proof -
  let ?b = "if u - v \<le> 0 then 360 * 2 ^ 149 else (2 :: int) ^ 24 * 2 ^ 149"
  have "f32_exact (360 * 2 ^ 149)" by (rule f32_exactI [OF refl]) simp_all
  moreover have "f32_exact (2 ^ 24 * 2 ^ 149)" by (rule f32_exactI [of _ "2 ^ 23" 150]) simp_all
  ultimately have "f32_exact ?b" by simp
  moreover have "\<bar>u + - v\<bar> \<le> ?b" using assms(3,4) by auto
  ultimately obtain d where d: "f32_is (f32_sub x off) d" "\<bar>d\<bar> \<le> ?b" "0 \<le> u + - v \<Longrightarrow> 0 \<le> d"
    using f32_add_bounds [OF assms(1) f32_neg_is [OF assms(2)], of ?b] unfolding f32_sub_def by metis
  then have d_range: "- 360 * 2 ^ 149 \<le> d" "d \<le> 2 ^ 24 * 2 ^ 149"
    by (cases "u - v \<le> 0"; simp)+
  have "\<bar>d + 360 * 2 ^ 149\<bar> \<le> 2 ^ 25 * 2 ^ 149" using d_range by (simp add: abs_le_iff)
  moreover have "f32_exact (2 ^ 25 * 2 ^ 149)" by (rule f32_exactI [of _ "2 ^ 23" 151]) simp_all
  ultimately obtain e where e: "f32_is (f32_add (f32_sub x off) f32_360) e"
    "0 \<le> d + 360 * 2 ^ 149 \<Longrightarrow> \<not> (f32_sign (f32_sub x off) \<and> f32_sign f32_360)
      \<Longrightarrow> \<not> f32_sign (f32_add (f32_sub x off) f32_360)"
    using f32_add_bounds [OF d(1) f32_360_is] by metis
  have "\<not> f32_sign f32_360" by code_simp
  with e(2) d_range have "\<not> f32_sign (f32_add (f32_sub x off) f32_360)" by simp
  with f32_fmod_is [OF e(1) f32_360_is]
  have "f32_is (wrapped_yaw x off) (\<bar>e\<bar> mod (360 * 2 ^ 149))" by (simp add: wrapped_yaw_def)
  then show thesis by (rule that) simp_all
qed

text \<open>The same on values in degrees.\<close>

lemma f32_value_cases:
  assumes "f32_value x = Some q"
  obtains u where "f32_is x u" and "q = of_int u / 2 ^ 149"
  using assms by (auto simp: f32_value_def f32_is_def split: if_splits)

lemma wrapped_yaw_range:
  assumes "f32_value raw = Some q" and "f32_value off = Some z" and "-360 \<le> q - z" and "q - z \<le> 2 ^ 24"
  obtains y where "f32_value (wrapped_yaw raw off) = Some y" and "0 \<le> y" and "y < 360"
proof -
  obtain u where u: "f32_is raw u" "q = of_int u / 2 ^ 149" using f32_value_cases [OF assms(1)] .
  obtain v where v: "f32_is off v" "z = of_int v / 2 ^ 149" using f32_value_cases [OF assms(2)] .
  have qz: "q - z = of_int (u - v) / 2 ^ 149" using u v by (simp add: diff_divide_distrib)
  have "(of_int (-360 * 2 ^ 149) :: rat) \<le> of_int (u - v)"
    using assms(3) unfolding qz by (simp add: field_simps)
  then have lo: "- 360 * 2 ^ 149 \<le> u - v" by (simp only: of_int_le_iff)
  have "(of_int (u - v) :: rat) \<le> of_int (2 ^ 24 * 2 ^ 149)"
    using assms(4) unfolding qz by (simp add: field_simps)
  then have hi: "u - v \<le> 2 ^ 24 * 2 ^ 149" by (simp only: of_int_le_iff)
  obtain y where y: "f32_is (wrapped_yaw raw off) y" "0 \<le> y" "y < 360 * 2 ^ 149"
    using wrapped_yaw_units [OF u(1) v(1) lo hi] .
  have "(of_int y :: rat) < of_int (360 * 2 ^ 149)" using y(3) by (simp only: of_int_less_iff)
  then have "(of_int y :: rat) / 2 ^ 149 < 360" by (simp add: field_simps)
  then show thesis using that [OF f32_is_value [OF y(1)]] y(2) by simp
qed

section \<open>Properties\<close>

text \<open>
  \<open>calibrate_zero_orientation\<close> always returns. When it reports success, the new reading is the
  offset and the cached orientation is that reading corrected by itself: each of roll, pitch and yaw
  that the device reported as a finite number is \<open>+0.0\<close> to the bit. On failure nothing changed.
\<close>

lemma imu_zero_orientation:
  "\<exists>ok r' s'. calibrate_zero_orientation (send_and_receive os) (link_now os) (r, s) = Some (ok, r', s')
    \<and> (if ok then let c = ir_calibration r'; d = ir_cached_data r' in
         ic_is_calibrated c
         \<and> (f32_finite (ic_roll_offset c) \<longrightarrow> imu_roll d = 0)
         \<and> (f32_finite (ic_pitch_offset c) \<longrightarrow> imu_pitch d = 0)
         \<and> (f32_finite (ic_yaw_offset c) \<longrightarrow> imu_yaw d = 0)
       else r' = r)"
proof -
  obtain d s' where d: "read_imu (send_and_receive os) (link_now os) s = Some (d, s')"
    using udp.read_imu_total by blast
  have self: "f32_finite x \<longrightarrow> f32_sub x x = 0" "f32_finite x \<longrightarrow> wrapped_yaw x x = 0" for x
    using f32_sub_self [of x "f32_units x"] wrapped_yaw_self [of x "f32_units x"]
    by (auto simp: f32_is_def)
  show ?thesis
  proof (cases d)
    case None
    with d show ?thesis by (auto simp: calibrate_zero_orientation_def)
  next
    case (Some v)
    with d self show ?thesis
      by (auto simp: calibrate_zero_orientation_def imu_apply_calibration_unsafe_def Let_def
          wrapped_yaw_def)
  qed
qed

lemma imu_zero_orientation_instance:
  "\<exists>ok r' s'. calibrate_zero_orientation (send_and_receive sim_os) (link_now sim_os)
      (ImuReader_new ImuReaderConfig_default 0, UdpClient_new UdpConfig_default, sim_init [])
    = Some (ok, r', s')"
  using imu_zero_orientation [of sim_os "ImuReader_new ImuReaderConfig_default 0"
      "(UdpClient_new UdpConfig_default, sim_init [])"] by blast

text \<open>
  C35. The wrap of the yaw. \<open>apply_calibration\<close> puts the yaw of a calibrated reader into \<open>[0, 360)\<close>,
  rounding included, whenever the raw yaw is at most 360 degrees below the offset (and not absurdly
  far above it). This covers every device that reports within one turn; below it the comment's claim
  fails: raw yaw 0 with offset 400 gives -40.
\<close>

theorem imu_yaw_wrap:
  assumes "ic_is_calibrated (ir_calibration r)"
    and "f32_value (imu_yaw d) = Some raw" and "f32_value (ic_yaw_offset (ir_calibration r)) = Some off"
    and "-360 \<le> raw - off" and "raw - off \<le> 2 ^ 24"
  shows "\<exists>yaw. f32_value (imu_yaw (imu_apply_calibration r d)) = Some yaw \<and> 0 \<le> yaw \<and> yaw < 360"
proof -
  obtain y where "f32_value (wrapped_yaw (imu_yaw d) (ic_yaw_offset (ir_calibration r))) = Some y"
    "0 \<le> y" "y < 360"
    using wrapped_yaw_range [OF assms(2-5)] .
  then show ?thesis
    using assms(1) by (simp add: imu_apply_calibration_def imu_apply_calibration_unsafe_def Let_def
        wrapped_yaw_def)
qed

theorem imu_yaw_wrap_witness:
  "\<exists>yaw. f32_value (imu_yaw (imu_apply_calibration
      (imu_set_calibration (ImuCalibration_default\<lparr>ic_yaw_offset := 0x43870000, ic_is_calibrated := True\<rparr>)
        (ImuReader_new ImuReaderConfig_default 0))
      \<lparr>imu_roll = 0, imu_pitch = 0, imu_yaw = 0x42B40000, imu_timestamp = 0\<rparr>)) = Some yaw
    \<and> 0 \<le> yaw \<and> yaw < 360"
proof (rule imu_yaw_wrap)
  have "f32_is 0x42B40000 (90 * 2 ^ 149)" "f32_is 0x43870000 (270 * 2 ^ 149)" by code_simp+
  then have v: "f32_value 0x42B40000 = Some 90" "f32_value 0x43870000 = Some 270"
    by (auto dest!: f32_is_value)
  show "f32_value (imu_yaw \<lparr>imu_roll = 0, imu_pitch = 0, imu_yaw = 0x42B40000, imu_timestamp = 0\<rparr>) = Some 90"
    using v by simp
  show "f32_value (ic_yaw_offset (ir_calibration (imu_set_calibration
      (ImuCalibration_default\<lparr>ic_yaw_offset := 0x43870000, ic_is_calibrated := True\<rparr>)
      (ImuReader_new ImuReaderConfig_default 0)))) = Some 270"
    using v by (simp add: imu_set_calibration_def)
qed (simp_all add: imu_set_calibration_def)

text \<open>
  The wrap is not total: a calibrated reader with a yaw offset of 400 degrees, which
  \<open>set_calibration\<close> accepts, reports the raw yaw 0 as -40 degrees, outside \<open>[0, 360)\<close>.
\<close>

lemma imu_yaw_wrap_incomplete:
  "f32_value (imu_yaw (imu_apply_calibration
      (imu_set_calibration \<lparr>ic_roll_offset = 0, ic_pitch_offset = 0, ic_yaw_offset = 0x43C80000,
         ic_is_calibrated = True\<rparr> r)
      \<lparr>imu_roll = 0, imu_pitch = 0, imu_yaw = 0, imu_timestamp = t\<rparr>)) = Some (- 40)
   \<and> f32_value 0x43C80000 = Some 400"
proof -
  have "f32_is (f32_fmod (f32_add (f32_sub 0 0x43C80000) f32_360) f32_360) (- 40 * 2 ^ 149)"
    "f32_is 0x43C80000 (400 * 2 ^ 149)" by code_simp+
  from this [THEN f32_is_value] show ?thesis
    by (simp add: imu_set_calibration_def imu_apply_calibration_def imu_apply_calibration_unsafe_def Let_def)
qed

end
