(* ===== verification/Glove_Sdk.thy ===== *)
theory Glove_Sdk
  imports Motor_Controller Encoder_Reader Imu_Reader
begin

text \<open>
  \<open>class GloveSDK\<close> (\<open>src/glove_sdk.cpp\<close>): the owner of the UDP client and the three components, its
  initialisation and shutdown, the unified update thread and the convenience methods. The smart
  pointers are options and dereferencing an empty one is undefined. The components share one client,
  which the SDK holds; an operation of a component runs on that client.
\<close>

section \<open>State\<close>

record GloveConfig =
  gc_server_ip :: string
  gc_server_port :: u16
  gc_local_port :: u16
  gc_send_timeout :: int
  gc_receive_timeout :: int
  gc_auto_start_thread :: bool
  gc_update_interval :: int

definition GloveConfig_default :: GloveConfig where
  "GloveConfig_default = \<lparr>gc_server_ip = ''192.168.10.123'', gc_server_port = 8080,
     gc_local_port = 8080, gc_send_timeout = 100, gc_receive_timeout = 100,
     gc_auto_start_thread = True, gc_update_interval = 100\<rparr>"

record GloveSDK =
  sdk_config :: GloveConfig
  sdk_worker :: worker
  sdk_initialized :: bool
  sdk_udp_client :: "UdpClient option"
  sdk_motor_controller :: "MotorController option"
  sdk_encoder_reader :: "EncoderReader option"
  sdk_imu_reader :: "ImuReader option"

type_synonym 'w sdk = "GloveSDK \<times> 'w"

definition GloveSDK_new :: "GloveConfig \<Rightarrow> GloveSDK" where
  "GloveSDK_new config = \<lparr>sdk_config = config, sdk_worker = worker_new, sdk_initialized = False,
     sdk_udp_client = None, sdk_motor_controller = None, sdk_encoder_reader = None,
     sdk_imu_reader = None\<rparr>"

text \<open>Calling through the pointers: \<open>motor_controller_->f(...)\<close> and so on.\<close>

definition via_motor ::
  "(MotorController \<times> 'w link \<Rightarrow> ('a \<times> MotorController \<times> 'w link) ub) \<Rightarrow> 'w sdk \<Rightarrow> ('a \<times> 'w sdk) ub" where
  "via_motor f kw = do {
     let (k, w) = kw;
     m \<leftarrow> sdk_motor_controller k;
     c \<leftarrow> sdk_udp_client k;
     (a, m, c, w) \<leftarrow> f (m, c, w);
     Some (a, k\<lparr>sdk_motor_controller := Some m, sdk_udp_client := Some c\<rparr>, w) }"

definition via_encoder ::
  "(EncoderReader \<times> 'w link \<Rightarrow> ('a \<times> EncoderReader \<times> 'w link) ub) \<Rightarrow> 'w sdk \<Rightarrow> ('a \<times> 'w sdk) ub" where
  "via_encoder f kw = do {
     let (k, w) = kw;
     r \<leftarrow> sdk_encoder_reader k;
     c \<leftarrow> sdk_udp_client k;
     (a, r, c, w) \<leftarrow> f (r, c, w);
     Some (a, k\<lparr>sdk_encoder_reader := Some r, sdk_udp_client := Some c\<rparr>, w) }"

definition via_imu ::
  "(ImuReader \<times> 'w link \<Rightarrow> ('a \<times> ImuReader \<times> 'w link) ub) \<Rightarrow> 'w sdk \<Rightarrow> ('a \<times> 'w sdk) ub" where
  "via_imu f kw = do {
     let (k, w) = kw;
     r \<leftarrow> sdk_imu_reader k;
     c \<leftarrow> sdk_udp_client k;
     (a, r, c, w) \<leftarrow> f (r, c, w);
     Some (a, k\<lparr>sdk_imu_reader := Some r, sdk_udp_client := Some c\<rparr>, w) }"

section \<open>The unified thread\<close>

datatype sdk_start_outcome = Not_Initialized | Tried start_outcome

text \<open>
  \<open>start\<close>. Unlike the components' start functions it has no handler: when \<open>std::thread\<close> cannot be
  constructed, the exception leaves with the flag set.
\<close>

definition sdk_start :: "'w os \<Rightarrow> 'w sdk \<Rightarrow> sdk_start_outcome \<times> 'w sdk" where
  "sdk_start os kw =
     (let (k, w) = kw; t = sdk_worker k in
      if \<not> sdk_initialized k then (Not_Initialized, k, w)
      else if thread_running t then (Tried Already_Running, k, w)
      else
        let t = t\<lparr>thread_running := True\<rparr>;
            (ok, w) = os_thread_create os w
        in if \<not> ok then (Tried Throws_System_Error, k\<lparr>sdk_worker := t\<rparr>, w)
           else if thread_joinable t then (Tried Terminates, k\<lparr>sdk_worker := t\<rparr>, w)
           else (Tried Started, k\<lparr>sdk_worker := t\<lparr>thread_joinable := True\<rparr>\<rparr>, w))"

definition sdk_stop :: "GloveSDK \<Rightarrow> GloveSDK" where
  "sdk_stop k = k\<lparr>sdk_worker := worker_stop (sdk_worker k)\<rparr>"

definition sdk_is_running :: "GloveSDK \<Rightarrow> bool" where
  "sdk_is_running k = thread_running (sdk_worker k)"

text \<open>
  The loop of the unified thread. Each load of the flag guards one segment of the body: the \<open>while\<close>
  the motor update, the two \<open>if\<close>s the encoder update and the IMU update with the sleep behind it.
  \<open>loads\<close> are the values of the loads, as in \<^const>\<open>worker_loop\<close>; \<open>start\<close> is \<open>start_time\<close>.
\<close>

datatype segment = Motor_Segment | Encoder_Segment time | Imu_Segment time

definition motor_segment :: "'w os \<Rightarrow> 'w sdk \<Rightarrow> 'w sdk ub" where
  "motor_segment os kw =
     (if sdk_motor_controller (fst kw) = None then Some kw
      else map_option snd (via_motor (motor_update_once (send_and_receive os) (link_now os)) kw))"

definition encoder_segment :: "'w os \<Rightarrow> 'w sdk \<Rightarrow> 'w sdk ub" where
  "encoder_segment os kw =
     (if sdk_encoder_reader (fst kw) = None then Some kw
      else map_option snd (via_encoder (encoder_update_once (send_and_receive os) (link_now os)) kw))"

definition imu_segment :: "'w os \<Rightarrow> 'w sdk \<Rightarrow> 'w sdk ub" where
  "imu_segment os kw =
     (if sdk_imu_reader (fst kw) = None then Some kw
      else map_option snd (via_imu (imu_update_once (send_and_receive os) (link_now os)) kw))"

definition sleep_rest :: "'w os \<Rightarrow> time \<Rightarrow> 'w sdk \<Rightarrow> 'w sdk" where
  "sleep_rest os start kw =
     (let (k, w) = kw;
          elapsed = os_now os w - start;
          sleep_time = gc_update_interval (sdk_config k) * 1000000 - elapsed
      in (k, if sleep_time > 1000000 then os_sleep os sleep_time w else w))"

fun unified_update_loop :: "'w os \<Rightarrow> segment \<Rightarrow> bool list \<Rightarrow> 'w sdk \<Rightarrow> (bool \<times> 'w sdk) ub" where
  "unified_update_loop os seg [] kw = Some (False, kw)"
| "unified_update_loop os seg (running # loads) kw =
     (if \<not> running then Some (True, kw)
      else case seg of
        Motor_Segment \<Rightarrow>
          let start_time = os_now os (snd kw)
          in do { kw \<leftarrow> motor_segment os kw; unified_update_loop os (Encoder_Segment start_time) loads kw }
      | Encoder_Segment start_time \<Rightarrow>
          do { kw \<leftarrow> encoder_segment os kw; unified_update_loop os (Imu_Segment start_time) loads kw }
      | Imu_Segment start_time \<Rightarrow>
          do { kw \<leftarrow> imu_segment os kw;
               unified_update_loop os Motor_Segment loads (sleep_rest os start_time kw) })"

section \<open>Initialisation and shutdown\<close>

definition cleanup_resources :: "'w os \<Rightarrow> 'w sdk \<Rightarrow> 'w sdk" where
  "cleanup_resources os kw =
     (let (k, w) = kw;
          k = k\<lparr>sdk_imu_reader := None\<rparr>;
          k = k\<lparr>sdk_encoder_reader := None\<rparr>;
          k = k\<lparr>sdk_motor_controller := None\<rparr>
      in case sdk_udp_client k of
           None \<Rightarrow> (k, w)
         | Some c \<Rightarrow> let (c, w) = disconnect os (c, w) in (k\<lparr>sdk_udp_client := None\<rparr>, w))"

text \<open>
  \<open>initialize\<close>, step by step; its result is the returned value, or how it failed to return one
  (\<open>start\<close> throwing or terminating).
\<close>

definition init_imu :: "'w os \<Rightarrow> 'w sdk \<Rightarrow> ((start_outcome + bool) \<times> 'w sdk) ub" where
  "init_imu os kw = do {
     let (k, w) = kw;
     let reader = ImuReader_new (ImuReaderConfig_default\<lparr>irc_auto_start_thread := False\<rparr>) (os_now os w);
     let k = k\<lparr>sdk_imu_reader := Some reader\<rparr>;
     (r, k, w) \<leftarrow> via_imu (imu_initialize (send_and_receive os) (link_now os) (link_spawn os)) (k, w);
     case r of
       Inl e \<Rightarrow> Some (Inl e, k, w)
     | Inr False \<Rightarrow> Some (Inr False, cleanup_resources os (k, w))
     | Inr True \<Rightarrow>
         (let k = k\<lparr>sdk_initialized := True\<rparr> in
          if gc_auto_start_thread (sdk_config k) then
            case sdk_start os (k, w) of
              (Tried Throws_System_Error, kw) \<Rightarrow> Some (Inl Throws_System_Error, kw)
            | (Tried Terminates, kw) \<Rightarrow> Some (Inl Terminates, kw)
            | (_, kw) \<Rightarrow> Some (Inr True, kw)
          else Some (Inr True, k, w)) }"

definition init_encoder :: "'w os \<Rightarrow> 'w sdk \<Rightarrow> ((start_outcome + bool) \<times> 'w sdk) ub" where
  "init_encoder os kw = do {
     let (k, w) = kw;
     let reader = EncoderReader_new (EncoderReaderConfig_default\<lparr>erc_auto_start_thread := False\<rparr>) (os_now os w);
     let k = k\<lparr>sdk_encoder_reader := Some reader\<rparr>;
     (r, k, w) \<leftarrow> via_encoder (encoder_initialize (send_and_receive os) (link_now os) (link_spawn os)) (k, w);
     case r of
       Inl e \<Rightarrow> Some (Inl e, k, w)
     | Inr False \<Rightarrow> Some (Inr False, cleanup_resources os (k, w))
     | Inr True \<Rightarrow> init_imu os (k, w) }"

definition init_motor :: "'w os \<Rightarrow> 'w sdk \<Rightarrow> ((start_outcome + bool) \<times> 'w sdk) ub" where
  "init_motor os kw = do {
     let (k, w) = kw;
     let controller = MotorController_new (MotorControllerConfig_default\<lparr>mcc_auto_start_thread := False\<rparr>) (os_now os w);
     let k = k\<lparr>sdk_motor_controller := Some controller\<rparr>;
     (r, k, w) \<leftarrow> via_motor (motor_initialize (send_and_receive os) (link_spawn os)) (k, w);
     case r of
       Inl e \<Rightarrow> Some (Inl e, k, w)
     | Inr False \<Rightarrow> Some (Inr False, cleanup_resources os (k, w))
     | Inr True \<Rightarrow> init_encoder os (k, w) }"

definition sdk_udp_config :: "GloveConfig \<Rightarrow> UdpConfig" where
  "sdk_udp_config g = UdpConfig_default\<lparr>cfg_server_ip := gc_server_ip g,
     cfg_server_port := gc_server_port g, cfg_local_port := gc_local_port g,
     cfg_send_timeout := gc_send_timeout g, cfg_receive_timeout := gc_receive_timeout g\<rparr>"

definition sdk_initialize :: "'w os \<Rightarrow> 'w sdk \<Rightarrow> ((start_outcome + bool) \<times> 'w sdk) ub" where
  "sdk_initialize os kw =
     (let (k, w) = kw in
      if sdk_initialized k then Some (Inr True, k, w)
      else
        let client = UdpClient_new (sdk_udp_config (sdk_config k));
            (ok, client, w) = connect os (client, w);
            k = k\<lparr>sdk_udp_client := Some client\<rparr>
        in if \<not> ok then Some (Inr False, cleanup_resources os (k, w)) else init_motor os (k, w))"

definition sdk_shutdown :: "'w os \<Rightarrow> 'w sdk \<Rightarrow> 'w sdk" where
  "sdk_shutdown os kw =
     (let (k, w) = kw in
      if \<not> sdk_initialized k then (k, w)
      else
        let k = sdk_stop k;
            k = k\<lparr>sdk_initialized := False\<rparr>
        in cleanup_resources os (k, w))"

section \<open>Convenience methods\<close>

definition ensure_initialized :: "GloveSDK \<Rightarrow> bool" where
  "ensure_initialized k = sdk_initialized k"

text \<open>A motor command behind the check; the controller itself does not change.\<close>

definition motor_command :: "('w link \<Rightarrow> (bool \<times> 'w link) ub) \<Rightarrow> 'w sdk \<Rightarrow> (bool \<times> 'w sdk) ub" where
  "motor_command f kw =
     (if \<not> ensure_initialized (fst kw) then Some (False, kw)
      else via_motor (\<lambda>(m, s). do { (ok, s) \<leftarrow> f s; Some (ok, m, s) }) kw)"

definition sdk_set_motor_mode :: "'w os \<Rightarrow> u8 \<Rightarrow> u8 \<Rightarrow> 'w sdk \<Rightarrow> (bool \<times> 'w sdk) ub" where
  "sdk_set_motor_mode os motor_id mode = motor_command (set_motor_mode (send_and_receive os) motor_id mode)"

definition sdk_set_all_modes :: "'w os \<Rightarrow> u8 \<Rightarrow> 'w sdk \<Rightarrow> (bool \<times> 'w sdk) ub" where
  "sdk_set_all_modes os mode = motor_command (set_all_modes (send_and_receive os) mode)"

definition sdk_set_motor_position :: "'w os \<Rightarrow> u8 \<Rightarrow> u16 \<Rightarrow> 'w sdk \<Rightarrow> (bool \<times> 'w sdk) ub" where
  "sdk_set_motor_position os motor_id position =
     motor_command (set_motor_position (send_and_receive os) motor_id position)"

definition sdk_set_motor_force :: "'w os \<Rightarrow> u8 \<Rightarrow> u16 \<Rightarrow> 'w sdk \<Rightarrow> (bool \<times> 'w sdk) ub" where
  "sdk_set_motor_force os motor_id force = motor_command (set_motor_force (send_and_receive os) motor_id force)"

definition sdk_set_motor_speed :: "'w os \<Rightarrow> u8 \<Rightarrow> u16 \<Rightarrow> u16 \<Rightarrow> 'w sdk \<Rightarrow> (bool \<times> 'w sdk) ub" where
  "sdk_set_motor_speed os motor_id speed target_position =
     motor_command (set_motor_speed (send_and_receive os) motor_id speed target_position)"

definition sdk_set_all_positions :: "'w os \<Rightarrow> u16 list \<Rightarrow> 'w sdk \<Rightarrow> (bool \<times> 'w sdk) ub" where
  "sdk_set_all_positions os positions = motor_command (set_all_positions (send_and_receive os) positions)"

definition sdk_set_all_forces :: "'w os \<Rightarrow> u16 list \<Rightarrow> 'w sdk \<Rightarrow> (bool \<times> 'w sdk) ub" where
  "sdk_set_all_forces os forces = motor_command (set_all_forces (send_and_receive os) forces)"

definition get_encoder_angles :: "GloveSDK \<Rightarrow> f32 list ub" where
  "get_encoder_angles k =
     (if \<not> ensure_initialized k then Some (replicate NUM_ENCODER_CHANNELS 0)
      else do { r \<leftarrow> sdk_encoder_reader k; get_cached_angles r })"

definition get_imu_orientation :: "GloveSDK \<Rightarrow> ImuData ub" where
  "get_imu_orientation k =
     (if \<not> ensure_initialized k
      then Some \<lparr>imu_roll = 0, imu_pitch = 0, imu_yaw = 0, imu_timestamp = 0\<rparr>
      else do { r \<leftarrow> sdk_imu_reader k; Some (imu_cached_data r) })"

definition calibrate_encoders :: "'w os \<Rightarrow> 'w sdk \<Rightarrow> (bool \<times> 'w sdk) ub" where
  "calibrate_encoders os kw =
     (if \<not> ensure_initialized (fst kw) then Some (False, kw)
      else via_encoder (calibrate_zero_point (send_and_receive os) (link_now os)) kw)"

definition calibrate_imu :: "'w os \<Rightarrow> 'w sdk \<Rightarrow> (bool \<times> 'w sdk) ub" where
  "calibrate_imu os kw =
     (if \<not> ensure_initialized (fst kw) then Some (False, kw)
      else via_imu (calibrate_zero_orientation (send_and_receive os) (link_now os)) kw)"

definition calibrate_all :: "'w os \<Rightarrow> 'w sdk \<Rightarrow> (bool \<times> 'w sdk) ub" where
  "calibrate_all os kw =
     (if \<not> ensure_initialized (fst kw) then Some (False, kw)
      else do {
        (encoder_success, kw) \<leftarrow> calibrate_encoders os kw;
        (imu_success, kw) \<leftarrow> calibrate_imu os kw;
        Some (encoder_success \<and> imu_success, kw) })"

definition get_network_statistics :: "GloveSDK \<Rightarrow> NetworkStatistics" where
  "get_network_statistics k =
     (if \<not> sdk_initialized k then NetworkStatistics_default
      else case sdk_udp_client k of None \<Rightarrow> NetworkStatistics_default | Some c \<Rightarrow> get_statistics c)"

definition reset_network_statistics :: "GloveSDK \<Rightarrow> GloveSDK" where
  "reset_network_statistics k =
     (if \<not> sdk_initialized k then k
      else case sdk_udp_client k of None \<Rightarrow> k
        | Some c \<Rightarrow> k\<lparr>sdk_udp_client := Some (reset_statistics c)\<rparr>)"

section \<open>What the traffic leaves alone\<close>

text \<open>
  An observation of the world that sending, receiving, sleeping and thread creation do not change, and
  that closing a descriptor changes by \<open>closing\<close>: the open descriptors, under the laws of the operating
  system, or nothing at all.
\<close>

locale world_observation =
  fixes os :: "'w os" and obs :: "'w \<Rightarrow> 'o" and closing :: "int \<Rightarrow> 'o \<Rightarrow> 'o"
  assumes obs_send: "obs (snd (os_send os fd data w)) = obs w"
    and obs_recv: "obs (snd (os_recv os fd n w)) = obs w"
    and obs_sleep: "obs (os_sleep os t w) = obs w"
    and obs_spawn: "obs (snd (os_thread_create os w)) = obs w"
    and obs_close: "obs (os_close os fd w) = closing fd (obs w)"

text \<open>A connected client with a given descriptor and observation.\<close>

definition on_line :: "('w \<Rightarrow> 'o) \<Rightarrow> int \<Rightarrow> 'o \<Rightarrow> 'w link \<Rightarrow> bool" where
  "on_line obs fd v s \<longleftrightarrow> uc_connected (fst s) \<and> 0 \<le> fd \<and> uc_socket_fd (fst s) = fd \<and> obs (snd s) = v"

context world_observation
begin

lemma send_packet_obs: "send_packet os p (c, w) = (b, c', w') \<Longrightarrow> obs w' = obs w
    \<and> uc_connected c' = uc_connected c \<and> uc_socket_fd c' = uc_socket_fd c"
  using obs_send [of "uc_socket_fd c" "serialize p" w]
  by (auto simp: send_packet_def Let_def split: if_splits prod.splits)

lemma receive_packet_obs: "receive_packet os (c, w) = Some (r, c', w') \<Longrightarrow> obs w' = obs w
    \<and> uc_connected c' = uc_connected c \<and> uc_socket_fd c' = uc_socket_fd c"
  using obs_recv [of "uc_socket_fd c" 1024 w]
  by (auto simp: receive_packet_eq split: if_splits prod.splits recv_result.splits)

lemma send_and_receive_on_line:
  assumes "send_and_receive os p s = Some (r, s')" and "on_line obs fd v s"
  shows "on_line obs fd v s'"
proof -
  obtain b c1 w1 where sp: "send_packet os p (fst s, snd s) = (b, c1, w1)"
    by (metis prod_cases3)
  show ?thesis
  proof (cases b)
    case True
    with assms(1) sp have "receive_packet os (c1, w1) = Some (r, fst s', snd s')"
      by (simp add: send_and_receive_def)
    then show ?thesis using send_packet_obs [OF sp] receive_packet_obs [of c1 w1 r "fst s'" "snd s'"] assms(2)
      by (simp add: on_line_def)
  next
    case False
    with assms sp send_packet_obs [OF sp] show ?thesis
      by (auto simp: send_and_receive_def on_line_def)
  qed
qed

lemma exchange_on_line: "exchange (send_and_receive os) (on_line obs fd v)"
  by unfold_locales (rule send_and_receive_defined, rule send_and_receive_on_line)

end

sublocale world_observation \<subseteq> session: exchange "send_and_receive os" "on_line obs fd v" for fd v
  by (rule exchange_on_line)

section \<open>The invariant\<close>

definition sdk_ready :: "GloveSDK \<Rightarrow> UdpClient \<Rightarrow> bool" where
  "sdk_ready k c \<longleftrightarrow> sdk_udp_client k = Some c \<and> uc_connected c \<and> 0 \<le> uc_socket_fd c
     \<and> (\<exists>m. sdk_motor_controller k = Some m \<and> length (mc_cached_status m) = 6)
     \<and> (\<exists>r. sdk_encoder_reader k = Some r \<and> encoder_wf r)
     \<and> sdk_imu_reader k \<noteq> None"

definition sdk_empty :: "GloveSDK \<Rightarrow> bool" where
  "sdk_empty k \<longleftrightarrow> sdk_udp_client k = None \<and> sdk_motor_controller k = None
     \<and> sdk_encoder_reader k = None \<and> sdk_imu_reader k = None \<and> sdk_worker k = worker_new"

definition sdk_inv :: "GloveSDK \<Rightarrow> bool" where
  "sdk_inv k \<longleftrightarrow> (if sdk_initialized k then \<exists>c. sdk_ready k c else sdk_empty k)
     \<and> (thread_joinable (sdk_worker k) \<longrightarrow> thread_running (sdk_worker k))"

lemma sdk_ready_worker [simp]: "sdk_ready (k\<lparr>sdk_worker := t\<rparr>) = sdk_ready k"
  by (simp add: fun_eq_iff sdk_ready_def)

lemma sdk_inv_new: "sdk_inv (GloveSDK_new config)"
  by (simp add: sdk_inv_def GloveSDK_new_def sdk_empty_def worker_new_def)

lemma cleanup_empty:
  assumes "sdk_worker k = worker_new" and "\<not> sdk_initialized k"
  shows "sdk_inv (fst (cleanup_resources os (k, w)))"
    and "\<not> sdk_initialized (fst (cleanup_resources os (k, w)))"
  using assms by (auto simp: cleanup_resources_def sdk_inv_def sdk_empty_def worker_new_def Let_def
      split: option.splits prod.splits)

lemma cleanup_world:
  "sdk_udp_client k = Some c \<Longrightarrow> snd (cleanup_resources os (k, w)) = snd (disconnect os (c, w))"
  by (simp add: cleanup_resources_def Let_def case_prod_beta)

lemma worker_stop_restores: "thread_joinable t \<longrightarrow> thread_running t \<Longrightarrow> worker_stop t = worker_new"
  by (cases t) (auto simp: worker_stop_def worker_new_def Let_def)

lemma cleanup_config [simp]: "sdk_config (fst (cleanup_resources os kw)) = sdk_config (fst kw)"
  by (cases kw) (simp add: cleanup_resources_def Let_def split: option.splits prod.splits)

text \<open>
  The outcome of the initialisation steps once the client is connected, for an SDK with configuration \<open>g\<close>.
\<close>

definition init_outcome :: "GloveConfig \<Rightarrow> ('w \<Rightarrow> 'o) \<Rightarrow> (int \<Rightarrow> 'o \<Rightarrow> 'o) \<Rightarrow> int \<Rightarrow> 'o \<Rightarrow> start_outcome + bool \<Rightarrow> 'w sdk \<Rightarrow> bool" where
  "init_outcome g obs closing fd v res kw \<longleftrightarrow> sdk_inv (fst kw) \<and> res \<noteq> Inl Terminates
     \<and> sdk_config (fst kw) = g \<and> ((\<exists>e. res = Inl e) \<longrightarrow> gc_auto_start_thread g)
     \<and> (if res = Inr False then \<not> sdk_initialized (fst kw) \<and> obs (snd kw) = closing fd v
        else sdk_initialized (fst kw) \<and> (res = Inr True \<or> res = Inl Throws_System_Error)
          \<and> sdk_worker (fst kw) = \<lparr>thread_running = gc_auto_start_thread g,
              thread_joinable = (gc_auto_start_thread g \<and> res = Inr True)\<rparr>
          \<and> (\<exists>c. sdk_ready (fst kw) c \<and> uc_socket_fd c = fd) \<and> obs (snd kw) = v)"

lemma sdk_start_cases:
  assumes "sdk_initialized k" and "sdk_worker k = worker_new"
  shows "sdk_start os (k, w) =
    (let (ok, w) = os_thread_create os w
     in (Tried (if ok then Started else Throws_System_Error),
         k\<lparr>sdk_worker := \<lparr>thread_running = True, thread_joinable = ok\<rparr>\<rparr>, w))"
  using assms by (simp add: sdk_start_def worker_new_def Let_def split: prod.splits)

lemmas on_line_defs = on_line_def sdk_ready_def

context world_observation
begin

lemma cleanup_outcome:
  assumes "sdk_worker k = worker_new" and "\<not> sdk_initialized k" and "sdk_udp_client k = Some c"
    and "on_line obs fd v (c, w)" and "sdk_config k = g"
  shows "init_outcome g obs closing fd v (Inr False) (cleanup_resources os (k, w))"
proof -
  have "snd (cleanup_resources os (k, w)) = os_close os fd w"
    using assms(4) by (simp add: cleanup_world [OF assms(3)] disconnect_eq on_line_def)
  then show ?thesis
    using cleanup_empty [OF assms(1,2), of os w] assms(4,5)
    by (simp add: init_outcome_def obs_close on_line_def)
qed

lemma start_outcome_ok:
  assumes "sdk_worker k = worker_new" and "sdk_initialized k" and "sdk_ready k c"
    and "on_line obs fd v (c, w)" and "sdk_config k = g" and "gc_auto_start_thread g"
  shows "case sdk_start os (k, w) of (out, kw) \<Rightarrow>
    (out = Tried Started \<longrightarrow> init_outcome g obs closing fd v (Inr True) kw)
    \<and> (out = Tried Throws_System_Error \<longrightarrow> init_outcome g obs closing fd v (Inl Throws_System_Error) kw)
    \<and> (out = Tried Started \<or> out = Tried Throws_System_Error)"
  using assms obs_spawn [of w] unfolding sdk_start_cases [OF assms(2,1)]
  by (auto simp: init_outcome_def sdk_inv_def sdk_ready_def on_line_def Let_def split: prod.splits)

lemma init_imu_outcome:
  assumes k: "sdk_worker k = worker_new" "\<not> sdk_initialized k" "sdk_udp_client k = Some c"
      "sdk_config k = g"
    and m: "sdk_motor_controller k = Some m" "length (mc_cached_status m) = 6"
    and r: "sdk_encoder_reader k = Some r" "encoder_wf r"
    and line: "on_line obs fd v (c, w)"
  shows "\<exists>res kw. init_imu os (k, w) = Some (res, kw) \<and> init_outcome g obs closing fd v res kw"
proof -
  let ?i = "ImuReader_new (ImuReaderConfig_default\<lparr>irc_auto_start_thread := False\<rparr>) (os_now os w)"
  have "\<not> irc_auto_start_thread (ir_config ?i)" by (simp add: ImuReader_new_def)
  from session.imu_initialize_total [OF this, where fd = fd and v = v and now = "link_now os"
      and spawn = "link_spawn os" and s = "(c, w)"] line
  obtain b i' c' w' where init: "imu_initialize (send_and_receive os) (link_now os) (link_spawn os)
      (?i, c, w) = Some (Inr b, i', c', w')" and line': "on_line obs fd v (c', w')" by auto
  let ?k = "k\<lparr>sdk_imu_reader := Some i', sdk_udp_client := Some c'\<rparr>"
  have via: "via_imu (imu_initialize (send_and_receive os) (link_now os) (link_spawn os))
      (k\<lparr>sdk_imu_reader := Some ?i\<rparr>, w) = Some (Inr b, ?k, w')"
    using init k(3) by (simp add: via_imu_def)
  show ?thesis
  proof (cases b)
    case False
    have "init_outcome g obs closing fd v (Inr False) (cleanup_resources os (?k, w'))"
      by (rule cleanup_outcome [OF _ _ _ line']) (use k in simp_all)
    then show ?thesis using via False by (simp add: init_imu_def)
  next
    case True
    let ?k' = "?k\<lparr>sdk_initialized := True\<rparr>"
    have ready: "sdk_ready ?k' c'" using m r line' by (simp add: sdk_ready_def on_line_def)
    show ?thesis
    proof (cases "gc_auto_start_thread (sdk_config k)")
      case auto: True
      have start: "case sdk_start os (?k', w') of (out, kw) \<Rightarrow>
          (out = Tried Started \<longrightarrow> init_outcome g obs closing fd v (Inr True) kw)
          \<and> (out = Tried Throws_System_Error \<longrightarrow> init_outcome g obs closing fd v (Inl Throws_System_Error) kw)
          \<and> (out = Tried Started \<or> out = Tried Throws_System_Error)"
        by (rule start_outcome_ok [OF _ _ ready line']) (use k auto in simp_all)
      then show ?thesis
        using via True auto by (cases "sdk_start os (?k', w')") (auto simp: init_imu_def)
    next
      case no_auto: False
      have "init_outcome g obs closing fd v (Inr True) (?k', w')"
        using ready line' k no_auto by (auto simp: init_outcome_def sdk_inv_def on_line_def worker_new_def)
      then show ?thesis using via True no_auto by (simp add: init_imu_def)
    qed
  qed
qed

lemma init_encoder_outcome:
  assumes k: "sdk_worker k = worker_new" "\<not> sdk_initialized k" "sdk_udp_client k = Some c"
      "sdk_config k = g"
    and m: "sdk_motor_controller k = Some m" "length (mc_cached_status m) = 6"
    and line: "on_line obs fd v (c, w)"
  shows "\<exists>res kw. init_encoder os (k, w) = Some (res, kw) \<and> init_outcome g obs closing fd v res kw"
proof -
  let ?r = "EncoderReader_new (EncoderReaderConfig_default\<lparr>erc_auto_start_thread := False\<rparr>) (os_now os w)"
  have "\<not> erc_auto_start_thread (er_config ?r)" by (simp add: EncoderReader_new_def)
  from session.encoder_initialize_total [OF encoder_wf_new this, where fd = fd and v = v
      and now = "link_now os" and spawn = "link_spawn os" and s = "(c, w)"] line
  obtain b r' c' w' where init: "encoder_initialize (send_and_receive os) (link_now os) (link_spawn os)
      (?r, c, w) = Some (Inr b, r', c', w')" and wf: "encoder_wf r'"
    and line': "on_line obs fd v (c', w')" by auto
  let ?k = "k\<lparr>sdk_encoder_reader := Some r', sdk_udp_client := Some c'\<rparr>"
  have via: "via_encoder (encoder_initialize (send_and_receive os) (link_now os) (link_spawn os))
      (k\<lparr>sdk_encoder_reader := Some ?r\<rparr>, w) = Some (Inr b, ?k, w')"
    using init k(3) by (simp add: via_encoder_def)
  show ?thesis
  proof (cases b)
    case False
    have "init_outcome g obs closing fd v (Inr False) (cleanup_resources os (?k, w'))"
      by (rule cleanup_outcome [OF _ _ _ line']) (use k in simp_all)
    then show ?thesis using via False by (simp add: init_encoder_def)
  next
    case True
    have "\<exists>res kw. init_imu os (?k, w') = Some (res, kw) \<and> init_outcome g obs closing fd v res kw"
      by (rule init_imu_outcome [OF _ _ _ _ _ m(2) _ wf line']) (use k m in simp_all)
    then show ?thesis using via True by (simp add: init_encoder_def)
  qed
qed

lemma init_motor_outcome:
  assumes k: "sdk_worker k = worker_new" "\<not> sdk_initialized k" "sdk_udp_client k = Some c"
      "sdk_config k = g"
    and line: "on_line obs fd v (c, w)"
  shows "\<exists>res kw. init_motor os (k, w) = Some (res, kw) \<and> init_outcome g obs closing fd v res kw"
proof -
  let ?m = "MotorController_new (MotorControllerConfig_default\<lparr>mcc_auto_start_thread := False\<rparr>) (os_now os w)"
  have "\<not> mcc_auto_start_thread (mc_config ?m)" by (simp add: MotorController_new_def)
  from session.motor_initialize_total [OF this, where fd = fd and v = v and spawn = "link_spawn os"
      and s = "(c, w)"] line
  obtain b c' w' where init: "motor_initialize (send_and_receive os) (link_spawn os)
      (?m, c, w) = Some (Inr b, ?m, c', w')" and line': "on_line obs fd v (c', w')" by auto
  have len: "length (mc_cached_status ?m) = 6" by (simp add: MotorController_new_def NUM_MOTORS_def)
  let ?k = "k\<lparr>sdk_motor_controller := Some ?m, sdk_udp_client := Some c'\<rparr>"
  have via: "via_motor (motor_initialize (send_and_receive os) (link_spawn os))
      (k\<lparr>sdk_motor_controller := Some ?m\<rparr>, w) = Some (Inr b, ?k, w')"
    using init k(3) by (simp add: via_motor_def)
  show ?thesis
  proof (cases b)
    case False
    have "init_outcome g obs closing fd v (Inr False) (cleanup_resources os (?k, w'))"
      by (rule cleanup_outcome [OF _ _ _ line']) (use k in simp_all)
    then show ?thesis using via False by (simp add: init_motor_def)
  next
    case True
    have "\<exists>res kw. init_encoder os (?k, w') = Some (res, kw) \<and> init_outcome g obs closing fd v res kw"
      by (rule init_encoder_outcome [OF _ _ _ _ _ len line']) (use k in simp_all)
    then show ?thesis using via True by (simp add: init_motor_def)
  qed
qed

end

interpretation unobserved: world_observation os "\<lambda>w. ()" "\<lambda>fd u. ()" for os :: "'w os"
  by unfold_locales simp_all

lemma fd_laws_observation: "fd_laws os fds \<Longrightarrow> world_observation os fds (\<lambda>fd F. F - {fd})"
  by unfold_locales (simp_all add: fd_laws_traffic fd_laws_close)

lemma sdk_empty_fields:
  assumes "sdk_inv k" and "\<not> sdk_initialized k"
  shows "sdk_worker k = worker_new" and "sdk_udp_client k = None" and "sdk_motor_controller k = None"
    and "sdk_encoder_reader k = None" and "sdk_imu_reader k = None"
  using assms by (simp_all add: sdk_inv_def sdk_empty_def)

lemma connect_new:
  assumes "connect os (UdpClient_new cfg, w) = (ok, c, w')"
  shows "ok \<longleftrightarrow> uc_connected c" and "ok \<longleftrightarrow> 0 \<le> uc_socket_fd c"
proof -
  have n: "\<not> uc_connected (UdpClient_new cfg)" by (simp add: UdpClient_new_def)
  have "udp_inv c" "ok = uc_connected c" using connect_inv [OF assms] by simp_all
  then show "ok \<longleftrightarrow> uc_connected c" and "ok \<longleftrightarrow> 0 \<le> uc_socket_fd c"
    by (simp_all add: udp_inv_def)
qed

text \<open>Initialisation of an SDK that is not initialised: the connection first, then the components.\<close>

context world_observation
begin

lemma sdk_initialize_outcome:
  assumes "sdk_inv k" and "\<not> sdk_initialized k"
    and "connect os (UdpClient_new (sdk_udp_config (sdk_config k)), w) = (ok, c, w1)"
  shows "\<exists>res kw. sdk_initialize os (k, w) = Some (res, kw)
    \<and> (if ok then init_outcome (sdk_config k) obs closing (uc_socket_fd c) (obs w1) res kw
       else res = Inr False \<and> sdk_inv (fst kw) \<and> \<not> sdk_initialized (fst kw) \<and> snd kw = w1)"
proof -
  let ?k = "k\<lparr>sdk_udp_client := Some c\<rparr>"
  note c = connect_new [OF assms(3)]
  show ?thesis
  proof (cases ok)
    case True
    with c have "on_line obs (uc_socket_fd c) (obs w1) (c, w1)" by (simp add: on_line_def)
    from init_motor_outcome [OF _ _ _ _ this, of ?k] sdk_empty_fields [OF assms(1,2)] assms(2,3) True
    show ?thesis by (simp add: sdk_initialize_def)
  next
    case False
    with c have "uc_socket_fd c < 0" by simp
    then have "snd (cleanup_resources os (?k, w1)) = w1"
      by (simp add: cleanup_world disconnect_eq)
    then show ?thesis
      using cleanup_empty [of ?k os w1] sdk_empty_fields [OF assms(1,2)] assms(2,3) False
      by (simp add: sdk_initialize_def)
  qed
qed

end

section \<open>Calls through the pointers\<close>

text \<open>A state of the SDK with all components, on line, that differs from \<open>k\<close> at most inside the components.\<close>

definition in_session :: "('w \<Rightarrow> 'o) \<Rightarrow> int \<Rightarrow> 'o \<Rightarrow> GloveSDK \<Rightarrow> 'w sdk \<Rightarrow> bool" where
  "in_session obs fd v k kw \<longleftrightarrow> (\<exists>c. sdk_ready (fst kw) c \<and> on_line obs fd v (c, snd kw))
     \<and> sdk_worker (fst kw) = sdk_worker k \<and> sdk_initialized (fst kw) = sdk_initialized k
     \<and> sdk_config (fst kw) = sdk_config k"

lemma in_session_inv:
  "in_session obs fd v k kw \<Longrightarrow> sdk_inv k \<Longrightarrow> sdk_initialized k \<Longrightarrow> sdk_inv (fst kw) \<and> sdk_initialized (fst kw)"
  by (auto simp: in_session_def sdk_inv_def)

lemma in_session_trans:
  "in_session obs fd v k kw \<Longrightarrow> in_session obs fd v (fst kw) kw' \<Longrightarrow> in_session obs fd v k kw'"
  by (auto simp: in_session_def)

lemma in_session_ready:
  assumes "sdk_inv k" and "sdk_initialized k"
  obtains fd where "in_session (\<lambda>w. ()) fd () k (k, w)"
  using assms that by (auto simp: sdk_inv_def in_session_def sdk_ready_def on_line_def)

context world_observation
begin

lemma via_motor_session:
  assumes "in_session obs fd v k (k, w)"
    and "\<And>m s. length (mc_cached_status m) = 6 \<Longrightarrow> \<exists>a m' s'. f (m, s) = Some (a, m', s')
           \<and> length (mc_cached_status m') = 6 \<and> (on_line obs fd v s \<longrightarrow> on_line obs fd v s')"
  shows "\<exists>a kw. via_motor f (k, w) = Some (a, kw) \<and> in_session obs fd v k kw"
proof -
  obtain c m where c: "sdk_ready k c" "on_line obs fd v (c, w)" "sdk_udp_client k = Some c"
    and m: "sdk_motor_controller k = Some m" "length (mc_cached_status m) = 6"
    using assms(1) by (auto simp: in_session_def sdk_ready_def)
  obtain a m' c' w' where f: "f (m, c, w) = Some (a, m', c', w')" "length (mc_cached_status m') = 6"
    "on_line obs fd v (c', w')"
    using assms(2) [OF m(2), of "(c, w)"] c(2) by auto
  then show ?thesis using c m by (auto simp: via_motor_def in_session_def on_line_def sdk_ready_def)
qed

lemma via_encoder_session:
  assumes "in_session obs fd v k (k, w)"
    and "\<And>r s. encoder_wf r \<Longrightarrow> \<exists>a r' s'. f (r, s) = Some (a, r', s') \<and> encoder_wf r'
           \<and> (on_line obs fd v s \<longrightarrow> on_line obs fd v s')"
  shows "\<exists>a kw. via_encoder f (k, w) = Some (a, kw) \<and> in_session obs fd v k kw"
proof -
  obtain c r where c: "sdk_ready k c" "on_line obs fd v (c, w)" "sdk_udp_client k = Some c"
    and r: "sdk_encoder_reader k = Some r" "encoder_wf r"
    using assms(1) by (auto simp: in_session_def sdk_ready_def)
  obtain a r' c' w' where f: "f (r, c, w) = Some (a, r', c', w')" "encoder_wf r'"
    "on_line obs fd v (c', w')"
    using assms(2) [OF r(2), of "(c, w)"] c(2) by auto
  then show ?thesis using c r by (auto simp: via_encoder_def in_session_def on_line_def sdk_ready_def)
qed

lemma via_imu_session:
  assumes "in_session obs fd v k (k, w)"
    and "\<And>r s. \<exists>a r' s'. f (r, s) = Some (a, r', s') \<and> (on_line obs fd v s \<longrightarrow> on_line obs fd v s')"
  shows "\<exists>a kw. via_imu f (k, w) = Some (a, kw) \<and> in_session obs fd v k kw"
proof -
  obtain c r where c: "sdk_ready k c" "on_line obs fd v (c, w)" "sdk_udp_client k = Some c"
    and r: "sdk_imu_reader k = Some r"
    using assms(1) by (auto simp: in_session_def sdk_ready_def)
  obtain a r' c' w' where f: "f (r, c, w) = Some (a, r', c', w')" "on_line obs fd v (c', w')"
    using assms(2) [of r "(c, w)"] c(2) by auto
  then show ?thesis using c r by (auto simp: via_imu_def in_session_def on_line_def sdk_ready_def)
qed

lemma motor_command_session:
  assumes "in_session obs fd v k (k, w)" and "sdk_initialized k"
    and "\<And>s. \<exists>b s'. f s = Some (b, s') \<and> (on_line obs fd v s \<longrightarrow> on_line obs fd v s')"
  shows "\<exists>b kw. motor_command f (k, w) = Some (b, kw) \<and> in_session obs fd v k kw"
proof -
  have "\<exists>a m' s'. (\<lambda>(m, s). do { (ok, s) \<leftarrow> f s; Some (ok, m, s) }) (m, s) = Some (a, m', s')
      \<and> length (mc_cached_status m') = 6 \<and> (on_line obs fd v s \<longrightarrow> on_line obs fd v s')"
    if "length (mc_cached_status m) = 6" for m s
    using assms(3) [of s] that by auto
  from via_motor_session [OF assms(1) this] assms(2) show ?thesis
    by (simp add: motor_command_def ensure_initialized_def)
qed

lemma sdk_commands_session:
  assumes "in_session obs fd v k (k, w)" and "sdk_initialized k"
  shows "\<exists>b kw. sdk_set_motor_mode os i x (k, w) = Some (b, kw) \<and> in_session obs fd v k kw"
    and "\<exists>b kw. sdk_set_all_modes os x (k, w) = Some (b, kw) \<and> in_session obs fd v k kw"
    and "\<exists>b kw. sdk_set_motor_position os i p (k, w) = Some (b, kw) \<and> in_session obs fd v k kw"
    and "\<exists>b kw. sdk_set_motor_force os i p (k, w) = Some (b, kw) \<and> in_session obs fd v k kw"
    and "\<exists>b kw. sdk_set_motor_speed os i q p (k, w) = Some (b, kw) \<and> in_session obs fd v k kw"
    and "length ps = 6 \<Longrightarrow> \<exists>b kw. sdk_set_all_positions os ps (k, w) = Some (b, kw) \<and> in_session obs fd v k kw"
    and "length ps = 6 \<Longrightarrow> \<exists>b kw. sdk_set_all_forces os ps (k, w) = Some (b, kw) \<and> in_session obs fd v k kw"
  unfolding sdk_set_motor_mode_def sdk_set_all_modes_def sdk_set_motor_position_def
    sdk_set_motor_force_def sdk_set_motor_speed_def sdk_set_all_positions_def sdk_set_all_forces_def
  by (rule motor_command_session [OF assms] session.set_motor_total session.set_all_total; assumption?)+

lemma calibrations_session:
  assumes "in_session obs fd v k (k, w)" and "sdk_initialized k"
  shows "\<exists>b kw. calibrate_encoders os (k, w) = Some (b, kw) \<and> in_session obs fd v k kw"
    and "\<exists>b kw. calibrate_imu os (k, w) = Some (b, kw) \<and> in_session obs fd v k kw"
    and "\<exists>b kw. calibrate_all os (k, w) = Some (b, kw) \<and> in_session obs fd v k kw"
proof -
  have enc: "\<exists>b kw. calibrate_encoders os (k, w) = Some (b, kw) \<and> in_session obs fd v k kw"
    if "in_session obs fd v k (k, w)" "sdk_initialized k" for k w
    using via_encoder_session [OF that(1) session.calibrate_zero_point_total] that(2)
    by (simp add: calibrate_encoders_def ensure_initialized_def)
  have imu: "\<exists>b kw. calibrate_imu os (k, w) = Some (b, kw) \<and> in_session obs fd v k kw"
    if "in_session obs fd v k (k, w)" "sdk_initialized k" for k w
    using via_imu_session [OF that(1) session.calibrate_zero_orientation_total] that(2)
    by (simp add: calibrate_imu_def ensure_initialized_def)
  obtain b k1 w1 where e: "calibrate_encoders os (k, w) = Some (b, k1, w1)" "in_session obs fd v k (k1, w1)"
    using enc [OF assms] by auto
  have "in_session obs fd v k1 (k1, w1)" "sdk_initialized k1"
    using e(2) assms(2) by (simp_all add: in_session_def)
  from imu [OF this] obtain b' kw' where i: "calibrate_imu os (k1, w1) = Some (b', kw')"
    "in_session obs fd v k1 kw'" by auto
  have "in_session obs fd v k kw'" using in_session_trans [OF e(2)] i(2) by simp
  with e(1) i(1) assms(2) show "\<exists>b kw. calibrate_all os (k, w) = Some (b, kw) \<and> in_session obs fd v k kw"
    by (auto simp: calibrate_all_def ensure_initialized_def)
qed (use assms via_encoder_session [OF assms(1) session.calibrate_zero_point_total]
      via_imu_session [OF assms(1) session.calibrate_zero_orientation_total]
      in \<open>simp_all add: calibrate_encoders_def calibrate_imu_def ensure_initialized_def\<close>)

end

section \<open>The segments of the unified loop\<close>

context world_observation
begin

lemma motor_segment_session:
  assumes "in_session obs fd v k (k, w)"
  shows "motor_segment os (k, w) = Some kw \<Longrightarrow> in_session obs fd v k kw"
    and "no_short_replies (send_and_receive os) \<Longrightarrow>
      \<exists>kw. motor_segment os (k, w) = Some kw \<and> in_session obs fd v k kw"
proof -
  obtain c m where c: "sdk_ready k c" "on_line obs fd v (c, w)" "sdk_udp_client k = Some c"
    and m: "sdk_motor_controller k = Some m" "length (mc_cached_status m) = 6"
    using assms by (auto simp: in_session_def sdk_ready_def)
  have seg: "motor_segment os (k, w)
      = map_option snd (via_motor (motor_update_once (send_and_receive os) (link_now os)) (k, w))"
    using m by (simp add: motor_segment_def)
  show "in_session obs fd v k kw" if "motor_segment os (k, w) = Some kw"
  proof -
    from that c m obtain a m' c' w' where
      u: "motor_update_once (send_and_receive os) (link_now os) (m, c, w) = Some (a, m', c', w')"
      and kw: "kw = (k\<lparr>sdk_motor_controller := Some m', sdk_udp_client := Some c'\<rparr>, w')"
      unfolding seg by (auto simp: via_motor_def Option.bind_eq_Some_conv)
    have "on_line obs fd v (c', w')" "length (mc_cached_status m') = 6"
      using session.update_motors_inv [OF u [unfolded motor_update_once_def] c(2)] m(2) by simp_all
    then show ?thesis using c kw by (auto simp: in_session_def on_line_def sdk_ready_def)
  qed
  assume "no_short_replies (send_and_receive os)"
  from via_motor_session [OF assms session.motor_update_once_total [OF this]]
  show "\<exists>kw. motor_segment os (k, w) = Some kw \<and> in_session obs fd v k kw"
    unfolding seg by fastforce
qed

lemma sensor_segments_session:
  assumes "in_session obs fd v k (k, w)"
  shows "\<exists>kw. encoder_segment os (k, w) = Some kw \<and> in_session obs fd v k kw"
    and "\<exists>kw. imu_segment os (k, w) = Some kw \<and> in_session obs fd v k kw"
proof -
  have "sdk_encoder_reader k \<noteq> None" "sdk_imu_reader k \<noteq> None"
    using assms by (auto simp: in_session_def sdk_ready_def)
  then show "\<exists>kw. encoder_segment os (k, w) = Some kw \<and> in_session obs fd v k kw"
    and "\<exists>kw. imu_segment os (k, w) = Some kw \<and> in_session obs fd v k kw"
    using via_encoder_session [OF assms session.encoder_update_total]
      via_imu_session [OF assms session.imu_update_total]
    by (fastforce simp: encoder_segment_def imu_segment_def)+
qed

lemma sleep_rest_session:
  "in_session obs fd v k kw \<Longrightarrow> in_session obs fd v k (sleep_rest os t kw)"
  by (cases kw) (auto simp: sleep_rest_def in_session_def on_line_def obs_sleep Let_def)

lemma unified_loop_session:
  assumes "no_short_replies (send_and_receive os)"
  shows "in_session obs fd v k (k, w) \<Longrightarrow>
    \<exists>kw. unified_update_loop os seg loads (k, w) = Some (False \<in> set loads, kw) \<and> in_session obs fd v k kw"
proof (induction loads arbitrary: seg k w)
  case (Cons running loads)
  show ?case
  proof (cases running)
    case True
    have step: "\<exists>kw. unified_update_loop os seg' loads kw1 = Some (False \<in> set loads, kw)
        \<and> in_session obs fd v k kw" if "in_session obs fd v k kw1" for seg' kw1
    proof -
      have "in_session obs fd v (fst kw1) (fst kw1, snd kw1)" using that by (simp add: in_session_def)
      from Cons.IH [OF this, of seg'] in_session_trans [OF that] show ?thesis by auto
    qed
    show ?thesis
    proof (cases seg)
      case Motor_Segment
      obtain kw1 where "motor_segment os (k, w) = Some kw1" "in_session obs fd v k kw1"
        using motor_segment_session(2) [OF Cons.prems assms] by blast
      with step True Motor_Segment show ?thesis by (simp add: Let_def)
    next
      case (Encoder_Segment t)
      obtain kw1 where "encoder_segment os (k, w) = Some kw1" "in_session obs fd v k kw1"
        using sensor_segments_session(1) [OF Cons.prems] by blast
      with step True Encoder_Segment show ?thesis by simp
    next
      case (Imu_Segment t)
      obtain kw1 where "imu_segment os (k, w) = Some kw1" "in_session obs fd v k kw1"
        using sensor_segments_session(2) [OF Cons.prems] by blast
      with step [OF sleep_rest_session] True Imu_Segment show ?thesis by simp
    qed
  next
    case False
    then show ?thesis using Cons.prems by simp
  qed
qed simp

end

section \<open>The SDK as a state machine\<close>

text \<open>The references to the components are defined (and the assertion in them holds) when the component exists.\<close>

definition motor_controller :: "GloveSDK \<Rightarrow> MotorController ub" where
  "motor_controller k = sdk_motor_controller k"

definition encoder_reader :: "GloveSDK \<Rightarrow> EncoderReader ub" where
  "encoder_reader k = sdk_encoder_reader k"

definition imu_reader :: "GloveSDK \<Rightarrow> ImuReader ub" where
  "imu_reader k = sdk_imu_reader k"

definition udp_client :: "GloveSDK \<Rightarrow> UdpClient ub" where
  "udp_client k = sdk_udp_client k"

definition is_initialized :: "GloveSDK \<Rightarrow> bool" where
  "is_initialized k = sdk_initialized k"

definition sdk_get_config :: "GloveSDK \<Rightarrow> GloveConfig" where
  "sdk_get_config k = sdk_config k"

text \<open>
  One step is one call of a public operation, or one segment of the unified thread while it exists, or
  a change of the world by others. The batch commands take arrays of six.
\<close>

inductive sdk_step :: "'w os \<Rightarrow> 'w sdk \<Rightarrow> 'w sdk \<Rightarrow> bool" for os where
  step_initialize: "sdk_initialize os kw = Some (r, kw') \<Longrightarrow> sdk_step os kw kw'"
| step_shutdown: "sdk_step os kw (sdk_shutdown os kw)"
| step_start: "sdk_start os kw = (out, kw') \<Longrightarrow> sdk_step os kw kw'"
| step_stop: "sdk_step os (k, w) (sdk_stop k, w)"
| step_mode: "sdk_set_motor_mode os i x kw = Some (b, kw') \<Longrightarrow> sdk_step os kw kw'"
| step_modes: "sdk_set_all_modes os x kw = Some (b, kw') \<Longrightarrow> sdk_step os kw kw'"
| step_position: "sdk_set_motor_position os i p kw = Some (b, kw') \<Longrightarrow> sdk_step os kw kw'"
| step_force: "sdk_set_motor_force os i p kw = Some (b, kw') \<Longrightarrow> sdk_step os kw kw'"
| step_speed: "sdk_set_motor_speed os i q p kw = Some (b, kw') \<Longrightarrow> sdk_step os kw kw'"
| step_positions: "length ps = 6 \<Longrightarrow> sdk_set_all_positions os ps kw = Some (b, kw') \<Longrightarrow> sdk_step os kw kw'"
| step_forces: "length ps = 6 \<Longrightarrow> sdk_set_all_forces os ps kw = Some (b, kw') \<Longrightarrow> sdk_step os kw kw'"
| step_calibrate_encoders: "calibrate_encoders os kw = Some (b, kw') \<Longrightarrow> sdk_step os kw kw'"
| step_calibrate_imu: "calibrate_imu os kw = Some (b, kw') \<Longrightarrow> sdk_step os kw kw'"
| step_calibrate_all: "calibrate_all os kw = Some (b, kw') \<Longrightarrow> sdk_step os kw kw'"
| step_reset: "sdk_step os (k, w) (reset_network_statistics k, w)"
| step_motor_segment: "thread_joinable (sdk_worker (fst kw)) \<Longrightarrow> motor_segment os kw = Some kw' \<Longrightarrow> sdk_step os kw kw'"
| step_encoder_segment: "thread_joinable (sdk_worker (fst kw)) \<Longrightarrow> encoder_segment os kw = Some kw' \<Longrightarrow> sdk_step os kw kw'"
| step_imu_segment: "thread_joinable (sdk_worker (fst kw)) \<Longrightarrow> imu_segment os kw = Some kw' \<Longrightarrow> sdk_step os kw kw'"
| step_world: "sdk_step os (k, w) (k, w')"

inductive sdk_reachable :: "'w os \<Rightarrow> 'w sdk \<Rightarrow> bool" for os where
  reach_sdk_new: "sdk_reachable os (GloveSDK_new config, w)"
| reach_sdk_step: "sdk_reachable os kw \<Longrightarrow> sdk_step os kw kw' \<Longrightarrow> sdk_reachable os kw'"

text \<open>On an SDK that is not initialised the calls behind the check do nothing.\<close>

lemmas sdk_command_defs = sdk_set_motor_mode_def sdk_set_all_modes_def sdk_set_motor_position_def
  sdk_set_motor_force_def sdk_set_motor_speed_def sdk_set_all_positions_def sdk_set_all_forces_def
  calibrate_encoders_def calibrate_imu_def calibrate_all_def motor_command_def ensure_initialized_def

lemma sdk_command_inert:
  assumes "\<not> sdk_initialized k"
  shows "sdk_set_motor_mode os i x (k, w) = Some (False, k, w)"
    and "sdk_set_all_modes os x (k, w) = Some (False, k, w)"
    and "sdk_set_motor_position os i p (k, w) = Some (False, k, w)"
    and "sdk_set_motor_force os i p (k, w) = Some (False, k, w)"
    and "sdk_set_motor_speed os i q p (k, w) = Some (False, k, w)"
    and "sdk_set_all_positions os ps (k, w) = Some (False, k, w)"
    and "sdk_set_all_forces os ps (k, w) = Some (False, k, w)"
    and "calibrate_encoders os (k, w) = Some (False, k, w)"
    and "calibrate_imu os (k, w) = Some (False, k, w)"
    and "calibrate_all os (k, w) = Some (False, k, w)"
  using assms by (simp_all add: sdk_command_defs)

lemma session_step_inv:
  assumes "sdk_inv k" and "\<not> sdk_initialized k \<Longrightarrow> kw' = (k, w)"
    and "\<And>fd. sdk_initialized k \<Longrightarrow> in_session (\<lambda>w. ()) fd () k (k, w) \<Longrightarrow> in_session (\<lambda>w. ()) fd () k kw'"
  shows "sdk_inv (fst kw')"
proof (cases "sdk_initialized k")
  case True
  obtain fd where "in_session (\<lambda>w. ()) fd () k (k, w)" using in_session_ready [OF assms(1) True] .
  from in_session_inv [OF assms(3) [OF True this] assms(1) True] show ?thesis ..
next
  case False
  with assms show ?thesis by simp
qed

lemma command_step_inv:
  assumes "op (k, w) = Some (b, kw')" and "sdk_inv k"
    and "\<not> sdk_initialized k \<Longrightarrow> op (k, w) = Some (b0, k, w)"
    and "\<And>fd. in_session (\<lambda>w. ()) fd () k (k, w) \<Longrightarrow> sdk_initialized k \<Longrightarrow>
      \<exists>b kw. op (k, w) = Some (b, kw) \<and> in_session (\<lambda>w. ()) fd () k kw"
  shows "sdk_inv (fst kw')"
proof (rule session_step_inv [OF assms(2), of kw' w])
  show "kw' = (k, w)" if "\<not> sdk_initialized k" using assms(1) assms(3) [OF that] by simp
  show "in_session (\<lambda>w. ()) fd () k kw'" if "sdk_initialized k" "in_session (\<lambda>w. ()) fd () k (k, w)" for fd
    using assms(1) assms(4) [OF that(2,1)] by auto
qed

lemma sdk_shutdown_inv: "sdk_inv k \<Longrightarrow> sdk_inv (fst (sdk_shutdown os (k, w)))"
  using cleanup_empty(1) [of "(sdk_stop k)\<lparr>sdk_initialized := False\<rparr>" os w]
  by (simp add: sdk_shutdown_def sdk_stop_def Let_def sdk_inv_def worker_stop_restores)

lemma sdk_start_inv: "sdk_start os (k, w) = (out, kw') \<Longrightarrow> sdk_inv k \<Longrightarrow> sdk_inv (fst kw') \<and> out \<noteq> Tried Terminates"
  by (auto simp: sdk_start_def sdk_inv_def sdk_ready_def Let_def split: if_splits prod.splits)

lemma sdk_stop_inv: "sdk_inv k \<Longrightarrow> sdk_inv (sdk_stop k)"
  by (auto simp: sdk_stop_def sdk_inv_def worker_stop_restores sdk_empty_def worker_new_def)

lemma reset_network_statistics_inv: "sdk_inv k \<Longrightarrow> sdk_inv (reset_network_statistics k)"
  by (auto simp: reset_network_statistics_def sdk_inv_def sdk_ready_def reset_statistics_def)

lemma sdk_initialize_inv:
  assumes "sdk_initialize os (k, w) = Some (r, kw')" and "sdk_inv k"
  shows "sdk_inv (fst kw')"
proof (cases "sdk_initialized k")
  case True
  with assms show ?thesis by (auto simp: sdk_initialize_def)
next
  case False
  obtain ok c w1 where "connect os (UdpClient_new (sdk_udp_config (sdk_config k)), w) = (ok, c, w1)"
    by (metis prod_cases3)
  from unobserved.sdk_initialize_outcome [OF assms(2) False this] assms(1)
  show ?thesis by (auto simp: init_outcome_def split: if_splits)
qed

lemma segment_step_inv:
  fixes w :: 'w and kw' :: "'w sdk"
  assumes "sdk_inv k" and "thread_joinable (sdk_worker k)"
    and "\<And>fd. in_session (\<lambda>w. ()) fd () k (k, w) \<Longrightarrow> in_session (\<lambda>w. ()) fd () k kw'"
  shows "sdk_inv (fst kw')"
proof -
  have "sdk_initialized k"
    using assms(1,2) by (auto simp: sdk_inv_def sdk_empty_def worker_new_def split: if_splits)
  then show ?thesis by (intro session_step_inv [OF assms(1), of kw' w] assms(3)) simp_all
qed

lemma sdk_command_step_inv:
  assumes "sdk_inv k"
  shows "sdk_set_motor_mode os i x (k, w) = Some (b, kw') \<Longrightarrow> sdk_inv (fst kw')"
    and "sdk_set_all_modes os x (k, w) = Some (b, kw') \<Longrightarrow> sdk_inv (fst kw')"
    and "sdk_set_motor_position os i p (k, w) = Some (b, kw') \<Longrightarrow> sdk_inv (fst kw')"
    and "sdk_set_motor_force os i p (k, w) = Some (b, kw') \<Longrightarrow> sdk_inv (fst kw')"
    and "sdk_set_motor_speed os i q p (k, w) = Some (b, kw') \<Longrightarrow> sdk_inv (fst kw')"
    and "length ps = 6 \<Longrightarrow> sdk_set_all_positions os ps (k, w) = Some (b, kw') \<Longrightarrow> sdk_inv (fst kw')"
    and "length ps = 6 \<Longrightarrow> sdk_set_all_forces os ps (k, w) = Some (b, kw') \<Longrightarrow> sdk_inv (fst kw')"
    and "calibrate_encoders os (k, w) = Some (b, kw') \<Longrightarrow> sdk_inv (fst kw')"
    and "calibrate_imu os (k, w) = Some (b, kw') \<Longrightarrow> sdk_inv (fst kw')"
    and "calibrate_all os (k, w) = Some (b, kw') \<Longrightarrow> sdk_inv (fst kw')"
proof -
  note step = command_step_inv [OF _ assms]
  show "sdk_set_motor_mode os i x (k, w) = Some (b, kw') \<Longrightarrow> sdk_inv (fst kw')"
    by (erule step [where op = "sdk_set_motor_mode os i x"]; (rule sdk_command_inert unobserved.sdk_commands_session; assumption))
  show "sdk_set_all_modes os x (k, w) = Some (b, kw') \<Longrightarrow> sdk_inv (fst kw')"
    by (erule step [where op = "sdk_set_all_modes os x"]; (rule sdk_command_inert unobserved.sdk_commands_session; assumption))
  show "sdk_set_motor_position os i p (k, w) = Some (b, kw') \<Longrightarrow> sdk_inv (fst kw')"
    by (erule step [where op = "sdk_set_motor_position os i p"]; (rule sdk_command_inert unobserved.sdk_commands_session; assumption))
  show "sdk_set_motor_force os i p (k, w) = Some (b, kw') \<Longrightarrow> sdk_inv (fst kw')"
    by (erule step [where op = "sdk_set_motor_force os i p"]; (rule sdk_command_inert unobserved.sdk_commands_session; assumption))
  show "sdk_set_motor_speed os i q p (k, w) = Some (b, kw') \<Longrightarrow> sdk_inv (fst kw')"
    by (erule step [where op = "sdk_set_motor_speed os i q p"]; (rule sdk_command_inert unobserved.sdk_commands_session; assumption))
  show "length ps = 6 \<Longrightarrow> sdk_set_all_positions os ps (k, w) = Some (b, kw') \<Longrightarrow> sdk_inv (fst kw')"
    by (erule step [where op = "sdk_set_all_positions os ps"]; (rule sdk_command_inert unobserved.sdk_commands_session; assumption))
  show "length ps = 6 \<Longrightarrow> sdk_set_all_forces os ps (k, w) = Some (b, kw') \<Longrightarrow> sdk_inv (fst kw')"
    by (erule step [where op = "sdk_set_all_forces os ps"]; (rule sdk_command_inert unobserved.sdk_commands_session; assumption))
  show "calibrate_encoders os (k, w) = Some (b, kw') \<Longrightarrow> sdk_inv (fst kw')"
    by (erule step [where op = "calibrate_encoders os"]; (rule sdk_command_inert unobserved.calibrations_session; assumption))
  show "calibrate_imu os (k, w) = Some (b, kw') \<Longrightarrow> sdk_inv (fst kw')"
    by (erule step [where op = "calibrate_imu os"]; (rule sdk_command_inert unobserved.calibrations_session; assumption))
  show "calibrate_all os (k, w) = Some (b, kw') \<Longrightarrow> sdk_inv (fst kw')"
    by (erule step [where op = "calibrate_all os"]; (rule sdk_command_inert unobserved.calibrations_session; assumption))
qed

lemma sdk_step_inv: "sdk_step os kw kw' \<Longrightarrow> sdk_inv (fst kw) \<Longrightarrow> sdk_inv (fst kw')"
proof (induction rule: sdk_step.induct)
  case (step_initialize kw r kw')
  then show ?case using sdk_initialize_inv [of os "fst kw" "snd kw" r kw'] by simp
next
  case (step_shutdown kw)
  then show ?case using sdk_shutdown_inv [of "fst kw" os "snd kw"] by simp
next
  case (step_start kw out kw')
  then show ?case using sdk_start_inv [of os "fst kw" "snd kw" out kw'] by simp
next
  case (step_motor_segment kw kw')
  then show ?case
    using segment_step_inv [of "fst kw" "snd kw" kw']
      unobserved.motor_segment_session(1) [of _ _ "fst kw" "snd kw" os kw'] by simp
next
  case (step_encoder_segment kw kw')
  then show ?case
    using segment_step_inv [of "fst kw" "snd kw" kw']
      unobserved.sensor_segments_session(1) [of _ _ "fst kw" "snd kw" os] by fastforce
next
  case (step_imu_segment kw kw')
  then show ?case
    using segment_step_inv [of "fst kw" "snd kw" kw']
      unobserved.sensor_segments_session(2) [of _ _ "fst kw" "snd kw" os] by fastforce
next
  case (step_mode i x kw b kw')
  then show ?case by (cases kw) (simp add: sdk_command_step_inv(1))
next
  case (step_modes x kw b kw')
  then show ?case by (cases kw) (simp add: sdk_command_step_inv(2))
next
  case (step_position i p kw b kw')
  then show ?case by (cases kw) (simp add: sdk_command_step_inv(3))
next
  case (step_force i p kw b kw')
  then show ?case by (cases kw) (simp add: sdk_command_step_inv(4))
next
  case (step_speed i q p kw b kw')
  then show ?case by (cases kw) (simp add: sdk_command_step_inv(5))
next
  case (step_positions ps kw b kw')
  then show ?case by (cases kw) (simp add: sdk_command_step_inv(6))
next
  case (step_forces ps kw b kw')
  then show ?case by (cases kw) (simp add: sdk_command_step_inv(7))
next
  case (step_calibrate_encoders kw b kw')
  then show ?case by (cases kw) (simp add: sdk_command_step_inv(8))
next
  case (step_calibrate_imu kw b kw')
  then show ?case by (cases kw) (simp add: sdk_command_step_inv(9))
next
  case (step_calibrate_all kw b kw')
  then show ?case by (cases kw) (simp add: sdk_command_step_inv(10))
next
  case (step_stop k w)
  then show ?case by (simp add: sdk_stop_inv)
next
  case (step_reset k w)
  then show ?case by (simp add: reset_network_statistics_inv)
qed simp

text \<open>Initialisation and shutdown with the open descriptors observed.\<close>

lemma sdk_initialize_descriptors:
  assumes "fd_laws os fds" and "sdk_inv k" and "\<not> sdk_initialized k"
  shows "\<exists>res k' w'. sdk_initialize os (k, w) = Some (res, k', w') \<and> sdk_inv k'
    \<and> ((\<exists>e. res = Inl e) \<longrightarrow> gc_auto_start_thread (sdk_config k))
    \<and> (if res = Inr False then \<not> sdk_initialized k' \<and> fds w' = fds w
       else sdk_initialized k' \<and> (res = Inr True \<or> res = Inl Throws_System_Error)
         \<and> sdk_worker k' = \<lparr>thread_running = gc_auto_start_thread (sdk_config k),
             thread_joinable = (gc_auto_start_thread (sdk_config k) \<and> res = Inr True)\<rparr>
         \<and> (\<exists>fd. fd \<notin> fds w \<and> in_session fds fd (insert fd (fds w)) k' (k', w')))"
proof -
  obtain ok c w1 where con: "connect os (UdpClient_new (sdk_udp_config (sdk_config k)), w) = (ok, c, w1)"
    by (metis prod_cases3)
  have fresh: "\<not> uc_connected (UdpClient_new cfg)" for cfg by (simp add: UdpClient_new_def)
  note fds1 = connect_fds [OF assms(1) fresh con]
  obtain res kw where i: "sdk_initialize os (k, w) = Some (res, kw)"
    and o: "if ok then init_outcome (sdk_config k) fds (\<lambda>fd F. F - {fd}) (uc_socket_fd c) (fds w1) res kw
       else res = Inr False \<and> sdk_inv (fst kw) \<and> \<not> sdk_initialized (fst kw) \<and> snd kw = w1"
    using world_observation.sdk_initialize_outcome [OF fd_laws_observation [OF assms(1)] assms(2,3) con]
    by blast
  obtain k' w' where kw: "kw = (k', w')" by (cases kw)
  note init = i [unfolded kw] and out = o [unfolded kw fst_conv snd_conv]
  have "sdk_inv k' \<and> ((\<exists>e. res = Inl e) \<longrightarrow> gc_auto_start_thread (sdk_config k))
    \<and> (if res = Inr False then \<not> sdk_initialized k' \<and> fds w' = fds w
       else sdk_initialized k' \<and> (res = Inr True \<or> res = Inl Throws_System_Error)
         \<and> sdk_worker k' = \<lparr>thread_running = gc_auto_start_thread (sdk_config k),
             thread_joinable = (gc_auto_start_thread (sdk_config k) \<and> res = Inr True)\<rparr>
         \<and> (\<exists>fd. fd \<notin> fds w \<and> in_session fds fd (insert fd (fds w)) k' (k', w')))"
  proof (cases "ok \<and> res \<noteq> Inr False")
    case True
    with out obtain c' where c': "sdk_inv k'" "sdk_initialized k'" "sdk_ready k' c'"
      "uc_socket_fd c' = uc_socket_fd c" "fds w' = fds w1"
      "(\<exists>e. res = Inl e) \<longrightarrow> gc_auto_start_thread (sdk_config k)" "res = Inr True \<or> res = Inl Throws_System_Error"
      "sdk_worker k' = \<lparr>thread_running = gc_auto_start_thread (sdk_config k),
         thread_joinable = (gc_auto_start_thread (sdk_config k) \<and> res = Inr True)\<rparr>"
      by (auto simp: init_outcome_def)
    from True fds1 have "uc_socket_fd c \<notin> fds w" "fds w1 = insert (uc_socket_fd c) (fds w)" by auto
    with c' True show ?thesis by (auto simp: in_session_def on_line_def sdk_ready_def)
  next
    case False
    with out fds1 show ?thesis by (auto simp: init_outcome_def split: if_splits)
  qed
  with init show ?thesis by blast
qed

lemma shutdown_descriptors:
  assumes "fd_laws os fds" and "in_session fds fd v k0 (k, w)" and "sdk_initialized k"
  shows "fds (snd (sdk_shutdown os (k, w))) = v - {fd}"
proof -
  obtain c where c: "sdk_udp_client k = Some c" "0 \<le> uc_socket_fd c" "uc_socket_fd c = fd" "fds w = v"
    using assms(2) by (auto simp: in_session_def on_line_def sdk_ready_def)
  then have "snd (sdk_shutdown os (k, w)) = os_close os fd w"
    using assms(3) by (simp add: sdk_shutdown_def Let_def sdk_stop_def cleanup_world [of _ c] disconnect_eq)
  then show ?thesis using c by (simp add: fd_laws_close [OF assms(1)])
qed

lemma sdk_reachable_inv: "sdk_reachable os kw \<Longrightarrow> sdk_inv (fst kw)"
  by (induction rule: sdk_reachable.induct) (auto simp: sdk_inv_new dest: sdk_step_inv)

text \<open>In every reachable state the accessors are defined exactly when the SDK says it is initialised.\<close>

lemma accessors_defined:
  assumes "sdk_reachable os (k, w)"
  shows "(motor_controller k \<noteq> None) = is_initialized k" "(encoder_reader k \<noteq> None) = is_initialized k"
    "(imu_reader k \<noteq> None) = is_initialized k" "(udp_client k \<noteq> None) = is_initialized k"
  using sdk_reachable_inv [OF assms]
  by (auto simp: motor_controller_def encoder_reader_def imu_reader_def udp_client_def is_initialized_def sdk_inv_def
      sdk_ready_def sdk_empty_def split: if_splits)

section \<open>Properties\<close>

text \<open>
  C5. No call of the SDK dereferences an empty pointer. In every state the operations of \<open>GloveSDK\<close> and the
  unified thread can bring it to, the four components exist exactly when the SDK says it is
  initialised; every convenience method, calibration, query, (re-)initialisation and start has a
  defined result, initialised or not, and starting never assigns over a joinable thread. The only public members that can
  go wrong are the four accessors of the components, which check nothing but an assertion: they are defined
  exactly when the SDK is initialised.
\<close>

theorem sdk_no_null_dereference:
  assumes "sdk_reachable os (k, w)" and "length ps = 6"
  shows "(if sdk_initialized k
      then sdk_udp_client k \<noteq> None \<and> sdk_motor_controller k \<noteq> None
        \<and> sdk_encoder_reader k \<noteq> None \<and> sdk_imu_reader k \<noteq> None
      else sdk_udp_client k = None \<and> sdk_motor_controller k = None
        \<and> sdk_encoder_reader k = None \<and> sdk_imu_reader k = None)
    \<and> (motor_controller k \<noteq> None) = is_initialized k \<and> (encoder_reader k \<noteq> None) = is_initialized k
    \<and> (imu_reader k \<noteq> None) = is_initialized k \<and> (udp_client k \<noteq> None) = is_initialized k
    \<and> sdk_set_motor_mode os i x (k, w) \<noteq> None \<and> sdk_set_all_modes os x (k, w) \<noteq> None
    \<and> sdk_set_motor_position os i p (k, w) \<noteq> None \<and> sdk_set_motor_force os i p (k, w) \<noteq> None
    \<and> sdk_set_motor_speed os i q p (k, w) \<noteq> None \<and> sdk_set_all_positions os ps (k, w) \<noteq> None
    \<and> sdk_set_all_forces os ps (k, w) \<noteq> None \<and> calibrate_encoders os (k, w) \<noteq> None
    \<and> calibrate_imu os (k, w) \<noteq> None \<and> calibrate_all os (k, w) \<noteq> None
    \<and> get_encoder_angles k \<noteq> None \<and> get_imu_orientation k \<noteq> None
    \<and> sdk_initialize os (k, w) \<noteq> None \<and> fst (sdk_start os (k, w)) \<noteq> Tried Terminates"
proof -
  have inv: "sdk_inv k" using sdk_reachable_inv [OF assms(1)] by simp
  have start: "fst (sdk_start os (k, w)) \<noteq> Tried Terminates"
    using sdk_start_inv [of os k w "fst (sdk_start os (k, w))" "snd (sdk_start os (k, w))"] inv by simp
  note acc = accessors_defined [OF assms(1)]
  show ?thesis
  proof (cases "sdk_initialized k")
    case True
    obtain fd where ses: "in_session (\<lambda>w. ()) fd () k (k, w)" using in_session_ready [OF inv True] .
    obtain c r where "sdk_ready k c" "sdk_encoder_reader k = Some r" "encoder_wf r"
      using inv True by (auto simp: sdk_inv_def sdk_ready_def)
    moreover from this have "get_cached_angles r \<noteq> None" using get_cached_angles_total by fastforce
    ultimately have rest: "sdk_udp_client k \<noteq> None" "sdk_motor_controller k \<noteq> None"
      "sdk_encoder_reader k \<noteq> None" "sdk_imu_reader k \<noteq> None"
      "get_encoder_angles k \<noteq> None" "get_imu_orientation k \<noteq> None" "sdk_initialize os (k, w) \<noteq> None"
      using True by (auto simp: sdk_ready_def get_encoder_angles_def get_imu_orientation_def
          ensure_initialized_def sdk_initialize_def)
    have some: "x \<noteq> None" if "\<exists>b kw. x = Some (b, kw) \<and> P b kw"
      for x :: "(bool \<times> 'a sdk) option" and P using that by blast
    note cmd = unobserved.sdk_commands_session [OF ses True]
      and cal = unobserved.calibrations_session [OF ses True]
    show ?thesis
      using True by (simp only: if_True) (intro conjI rest start acc some [OF cmd(1)] some [OF cmd(2)]
        some [OF cmd(3)] some [OF cmd(4)] some [OF cmd(5)] some [OF cmd(6) [OF assms(2)]]
        some [OF cmd(7) [OF assms(2)]] some [OF cal(1)] some [OF cal(2)] some [OF cal(3)])
  next
    case False
    obtain ok c w1 where "connect os (UdpClient_new (sdk_udp_config (sdk_config k)), w) = (ok, c, w1)"
      by (metis prod_cases3)
    from unobserved.sdk_initialize_outcome [OF inv False this]
    have "sdk_initialize os (k, w) \<noteq> None" by auto
    then show ?thesis
      using sdk_empty_fields(2-) [OF inv False] False start acc
      by (simp only: sdk_command_inert [OF False] if_False get_encoder_angles_def
          get_imu_orientation_def ensure_initialized_def not_False_eq_True if_True option.distinct
          simp_thms)
  qed
qed

text \<open>
  C8. Initialisation is all or nothing, descriptors included. From any reachable state that is not
  initialised, \<open>initialize\<close> ends. Either it reports false, every component is gone again, no thread was started and the open
  descriptors are those of before. Or the SDK is initialised with all four components, the client connected on
  the one fresh descriptor, the unified thread started exactly when the configuration asks for it, and \<open>shutdown\<close> gives that
  descriptor back; then it reports true, or the creation of the thread throws, which leaves all this with
  the running flag set and no thread.
\<close>

theorem sdk_initialize_all_or_nothing:
  assumes "fd_laws os fds" and "sdk_reachable os (k, w)" and "\<not> sdk_initialized k"
  shows "\<exists>res k' w'. sdk_initialize os (k, w) = Some (res, k', w')
    \<and> (if res = Inr False then \<not> sdk_initialized k' \<and> sdk_udp_client k' = None
         \<and> sdk_motor_controller k' = None \<and> sdk_encoder_reader k' = None \<and> sdk_imu_reader k' = None
         \<and> sdk_worker k' = worker_new \<and> fds w' = fds w
       else (res = Inr True \<or> res = Inl Throws_System_Error) \<and> sdk_initialized k'
         \<and> sdk_motor_controller k' \<noteq> None \<and> sdk_encoder_reader k' \<noteq> None \<and> sdk_imu_reader k' \<noteq> None
         \<and> sdk_is_running k' = gc_auto_start_thread (sdk_config k)
         \<and> thread_joinable (sdk_worker k') = (gc_auto_start_thread (sdk_config k) \<and> res = Inr True)
         \<and> (\<exists>c. sdk_udp_client k' = Some c \<and> uc_connected c
         \<and> uc_socket_fd c \<notin> fds w \<and> fds w' = insert (uc_socket_fd c) (fds w)
         \<and> fds (snd (sdk_shutdown os (k', w'))) = fds w))"
proof -
  let ?auto = "gc_auto_start_thread (sdk_config k)"
  have inv: "sdk_inv k" using sdk_reachable_inv [OF assms(2)] by simp
  from sdk_initialize_descriptors [OF assms(1) this assms(3), of w]
  obtain res k' w' where init: "sdk_initialize os (k, w) = Some (res, k', w')" and "sdk_inv k'"
    and out: "if res = Inr False then \<not> sdk_initialized k' \<and> fds w' = fds w
      else sdk_initialized k' \<and> (res = Inr True \<or> res = Inl Throws_System_Error)
        \<and> sdk_worker k' = \<lparr>thread_running = ?auto, thread_joinable = (?auto \<and> res = Inr True)\<rparr>
        \<and> (\<exists>fd. fd \<notin> fds w \<and> in_session fds fd (insert fd (fds w)) k' (k', w'))"
    by blast
  show ?thesis
  proof (cases "res = Inr False")
    case True
    with init out sdk_empty_fields [OF \<open>sdk_inv k'\<close>] show ?thesis by auto
  next
    case False
    with out obtain fd where fd: "sdk_initialized k'" "fd \<notin> fds w"
      "in_session fds fd (insert fd (fds w)) k' (k', w')" by auto
    have worker: "sdk_is_running k' = ?auto" "thread_joinable (sdk_worker k') = (?auto \<and> res = Inr True)"
      "res = Inr True \<or> res = Inl Throws_System_Error" using out False by (simp_all add: sdk_is_running_def)
    have "fds (snd (sdk_shutdown os (k', w'))) = fds w"
      using shutdown_descriptors [OF assms(1) fd(3,1)] fd(2) by simp
    moreover obtain c where "sdk_udp_client k' = Some c" "uc_connected c" "uc_socket_fd c = fd"
      "fds w' = insert fd (fds w)" "sdk_motor_controller k' \<noteq> None" "sdk_encoder_reader k' \<noteq> None" "sdk_imu_reader k' \<noteq> None"
      using fd(3) by (auto simp: in_session_def on_line_def sdk_ready_def)
    ultimately show ?thesis using init fd(1,2) False worker by auto
  qed
qed

text \<open>
  C38. A failed start sticks. When the unified thread cannot be created, \<open>start\<close> lets the exception out
  but leaves the flag set: the SDK says it is running, no thread exists, and every later \<open>start\<close>
  refuses as already running, until \<open>stop\<close> is called. The three component classes reset the flag.
\<close>

theorem sdk_start_failure_sticks:
  assumes "sdk_initialized k" and "\<not> sdk_is_running k" and "\<not> thread_joinable (sdk_worker k)"
    and "os_thread_create os w = (False, w1)"
  shows "\<exists>k'. sdk_start os (k, w) = (Tried Throws_System_Error, k', w1)
    \<and> sdk_is_running k' \<and> \<not> thread_joinable (sdk_worker k')
    \<and> (\<forall>os' w'. sdk_start os' (k', w') = (Tried Already_Running, k', w'))
    \<and> (\<forall>os' w'. fst (sdk_start os' (sdk_stop k', w')) \<noteq> Tried Already_Running)"
  using assms by (simp add: sdk_start_def sdk_is_running_def sdk_stop_def worker_stop_def Let_def
      split: prod.splits)

theorem sdk_start_failure_sticks_witness:
  "\<exists>k'. sdk_start (sim_os\<lparr>os_thread_create := (\<lambda>w. (False, w))\<rparr>)
      ((GloveSDK_new GloveConfig_default)\<lparr>sdk_initialized := True\<rparr>, sim_init [])
    = (Tried Throws_System_Error, k', sim_init []) \<and> sdk_is_running k'"
  using sdk_start_failure_sticks [of "(GloveSDK_new GloveConfig_default)\<lparr>sdk_initialized := True\<rparr>"
      "sim_os\<lparr>os_thread_create := (\<lambda>w. (False, w))\<rparr>" "sim_init []" "sim_init []"]
  by (auto simp: GloveSDK_new_def sdk_is_running_def worker_new_def)

text \<open>
  C34. The unified loop. As long as no exchange returns an 18-byte status reply (the one input that makes
  the motor update undefined), the loop has defined behaviour from every reachable initialised state
  on every schedule, leaves exactly when one of the three loads per round returns false, and leaves
  the SDK initialised with all components and its connection.
\<close>

theorem unified_loop_runs:
  assumes "sdk_reachable os (k, w)" and "sdk_initialized k" and "no_short_replies (send_and_receive os)"
  shows "\<exists>k' w' c. unified_update_loop os Motor_Segment loads (k, w) = Some (False \<in> set loads, k', w')
    \<and> sdk_initialized k' \<and> sdk_worker k' = sdk_worker k \<and> sdk_udp_client k' = Some c \<and> uc_connected c
    \<and> sdk_motor_controller k' \<noteq> None \<and> sdk_encoder_reader k' \<noteq> None \<and> sdk_imu_reader k' \<noteq> None"
proof -
  have inv: "sdk_inv k" using sdk_reachable_inv [OF assms(1)] by simp
  obtain fd where "in_session (\<lambda>w. ()) fd () k (k, w)" using in_session_ready [OF inv assms(2)] .
  from unobserved.unified_loop_session [OF assms(3) this, of Motor_Segment loads] assms(2)
  show ?thesis by (fastforce simp: in_session_def sdk_ready_def)
qed

text \<open>
  A device for the witness: it acknowledges motor requests, answers encoder requests with zeros, and IMU
  requests with the firmware's frame.
\<close>

definition demo_reply :: "u8 \<Rightarrow> u8 list" where
  "demo_reply t = (if t = TARGET_MOTOR then serialize (plain_packet TARGET_MOTOR [])
     else if t = TARGET_ENCODER then serialize (plain_packet TARGET_ENCODER (replicate 32 0))
     else firmware_imu_frame (replicate 12 0))"

lemma device_receive_fine:
  assumes "\<And>t q. deserialize (reply t) = Some (Some q) \<Longrightarrow> \<not> short_status_reply q"
    and "\<And>t. length (reply t) \<le> 1024"
    and "receive_packet (device_os reply) s = Some (Some q, s')"
  shows "\<not> short_status_reply q"
proof -
  have key: "\<not> short_status_reply (unpack_frame (reply t))" if "frame_ok (reply t)" for t
    using assms(1) [of t] that by (simp add: deserialize_eq)
  show ?thesis
    using assms(2,3) key by (cases s) (auto simp: receive_packet_eq device_os_def split: if_splits)
qed

lemma no_short_replies_device:
  assumes "\<And>t q. deserialize (reply t) = Some (Some q) \<Longrightarrow> \<not> short_status_reply q"
    and "\<And>t. length (reply t) \<le> 1024"
  shows "no_short_replies (send_and_receive (device_os reply))"
proof -
  have "\<not> short_status_reply q" if "receive_packet (device_os reply) s = Some (Some q, s')" for q s s'
    by (rule device_receive_fine [OF assms that])
  then show ?thesis
    unfolding no_short_replies_def send_and_receive_def by (auto split: if_splits prod.splits)
qed

lemma demo_reply_fine:
  "deserialize (demo_reply t) = Some (Some q) \<Longrightarrow> \<not> short_status_reply q" "length (demo_reply t) \<le> 1024"
proof -
  have "\<forall>d \<in> {serialize (plain_packet TARGET_MOTOR []), serialize (plain_packet TARGET_ENCODER (replicate 32 0)),
      firmware_imu_frame (replicate 12 0)}. length d \<le> 1024 \<and>
      (case deserialize d of Some (Some q) \<Rightarrow> \<not> short_status_reply q | _ \<Rightarrow> True)"
    by code_simp
  then show "length (demo_reply t) \<le> 1024"
    and "deserialize (demo_reply t) = Some (Some q) \<Longrightarrow> \<not> short_status_reply q"
    by (auto simp: demo_reply_def split: if_splits)
qed

lemma no_short_replies_demo: "no_short_replies (send_and_receive (device_os demo_reply))"
  by (rule no_short_replies_device) (rule demo_reply_fine, assumption, rule demo_reply_fine)

text \<open>An initialised SDK with a running thread in front of that device.\<close>

lemma demo_running:
  obtains k w where "sdk_reachable (device_os demo_reply) (k, w)" and "sdk_initialized k"
    and "thread_running (sdk_worker k)" and "thread_joinable (sdk_worker k)"
proof -
  let ?os = "device_os demo_reply"
  let ?kw = "(GloveSDK_new GloveConfig_default, sim_init [])"
  have "map_option (\<lambda>(r, k, w). sdk_initialized k \<and> thread_running (sdk_worker k)
      \<and> thread_joinable (sdk_worker k)) (sdk_initialize ?os ?kw) = Some True" by code_simp
  then obtain r k w where "sdk_initialize ?os ?kw = Some (r, k, w)" "sdk_initialized k"
    "thread_running (sdk_worker k)" "thread_joinable (sdk_worker k)" by auto
  with that reach_sdk_step [OF reach_sdk_new step_initialize] show thesis by metis
qed

theorem sdk_no_null_dereference_witness:
  "\<exists>k w. is_initialized k \<and> motor_controller k \<noteq> None \<and> get_encoder_angles k \<noteq> None
    \<and> calibrate_all (device_os demo_reply) (k, w) \<noteq> None
    \<and> sdk_set_all_forces (device_os demo_reply) [1, 2, 3, 4, 5, 6] (k, w) \<noteq> None"
proof -
  obtain k w where kw: "sdk_reachable (device_os demo_reply) (k, w)" "sdk_initialized k" by (rule demo_running)
  have six: "length [1, 2, 3, 4, 5, 6 :: u16] = 6" by simp
  have "is_initialized k" using kw(2) by (simp add: is_initialized_def)
  with sdk_no_null_dereference [OF kw(1) six, of 0 0 0 0] show ?thesis by blast
qed

text \<open>Both branches of the initialisation: nobody answers, and the demo device answers everything.\<close>

theorem sdk_initialize_all_or_nothing_witness:
  "(\<exists>k' w'. sdk_initialize sim_os (GloveSDK_new GloveConfig_default, sim_init []) = Some (Inr False, k', w')
      \<and> sdk_udp_client k' = None \<and> sim_open w' = sim_open (sim_init []))
    \<and> (\<exists>k' w'. sdk_initialize (device_os demo_reply) (GloveSDK_new GloveConfig_default, sim_init []) = Some (Inr True, k', w')
      \<and> sdk_motor_controller k' \<noteq> None \<and> sdk_encoder_reader k' \<noteq> None \<and> sdk_imu_reader k' \<noteq> None \<and> sdk_is_running k'
      \<and> sim_open (snd (sdk_shutdown (device_os demo_reply) (k', w'))) = sim_open (sim_init []))"
proof -
  let ?k = "GloveSDK_new GloveConfig_default"
  have new: "\<not> sdk_initialized ?k" "gc_auto_start_thread (sdk_config ?k)"
    by (simp_all add: GloveSDK_new_def GloveConfig_default_def)
  have silent: "map_option fst (sdk_initialize sim_os (?k, sim_init [])) = Some (Inr False)"
    and answered: "map_option fst (sdk_initialize (device_os demo_reply) (?k, sim_init [])) = Some (Inr True)"
    by code_simp+
  show ?thesis
    using sdk_initialize_all_or_nothing [OF fd_laws_sim reach_sdk_new new(1), of "sim_init []"] silent
      sdk_initialize_all_or_nothing [OF fd_laws_device reach_sdk_new new(1), of demo_reply "sim_init []"] answered new(2)
    by auto
qed

theorem unified_loop_runs_witness:
  "\<exists>k w k' w'. sdk_initialized k \<and>
     unified_update_loop (device_os demo_reply) Motor_Segment [True, True, True, True, False] (k, w)
       = Some (True, k', w') \<and> sdk_initialized k'"
proof -
  obtain k w where "sdk_reachable (device_os demo_reply) (k, w)" "sdk_initialized k" by (rule demo_running)
  from unified_loop_runs [OF this no_short_replies_demo, of "[True, True, True, True, False]"] this(2)
  show ?thesis by auto
qed

end
