(* ===== verification/Concurrency.thy ===== *)
theory Concurrency
  imports Udp_Client Worker "HOL-Library.Multiset"
begin

text \<open>
  What the atomic model of the other theories leaves out: operations of several threads interleaved at
  the points where the code holds no lock. \<open>send_and_receive\<close> locks its two halves separately
  (\<open>call_step\<close>), and the start functions check, set and create in three steps (\<open>start_step\<close>). Both are step
  relations, shown to be the atomic functions when undisturbed, with what can go wrong between the
  steps. The first section is about time instead of threads: how requests and responses pair up when the
  device answers in order. \<open>turn\<close> and \<open>run_turns\<close> run threads on a schedule, for \<open>Sdk_Threads\<close>.
\<close>

section \<open>A device that answers in order\<close>

text \<open>
  A loss-free, order-preserving network to a device that answers each request once: \<open>queue\<close> reads the
  answers not yet received off the world.
\<close>

definition fifo_device :: "'w os \<Rightarrow> ('w \<Rightarrow> u8 list list) \<Rightarrow> (u8 list \<Rightarrow> u8 list) \<Rightarrow> bool" where
  "fifo_device os queue answer \<longleftrightarrow>
     (\<forall>fd data w. \<exists>w'. os_send os fd data w = (int (length data), w') \<and> queue w' = queue w @ [answer data])
   \<and> (\<forall>fd n w d ds. queue w = d # ds \<longrightarrow> (\<exists>w'. os_recv os fd n w = (Recv_Data d, w') \<and> queue w' = ds))"

text \<open>What becomes of a received datagram.\<close>

definition parsed :: "u8 list \<Rightarrow> Packet option" where
  "parsed d = (if frame_ok (take 1024 d) then Some (unpack_frame (take 1024 d)) else None)"

definition answer_to :: "(u8 list \<Rightarrow> u8 list) \<Rightarrow> Packet \<Rightarrow> u8 list" where
  "answer_to answer p = answer (serialize p)"

lemma fifo_send:
  assumes "fifo_device os queue answer" and "uc_connected c"
  obtains w' where "send_packet os p (c, w) = (True, update_send_stats True c, w')"
    and "queue w' = queue w @ [answer_to answer p]"
proof -
  obtain w' where "os_send os (uc_socket_fd c) (serialize p) w = (int (length (serialize p)), w')"
    "queue w' = queue w @ [answer (serialize p)]"
    using assms(1) unfolding fifo_device_def by metis
  then show thesis
    using that assms(2) by (simp add: send_packet_def Let_def answer_to_def)
qed

lemma fifo_receive:
  assumes "fifo_device os queue answer" and "uc_connected c" and "queue w = d # ds"
  obtains c' w' where "receive_packet os (c, w) = Some (parsed d, c', w')"
    and "uc_connected c'" and "queue w' = ds"
proof -
  obtain w' where "os_recv os (uc_socket_fd c) 1024 w = (Recv_Data d, w')" "queue w' = ds"
    using assms(1,3) unfolding fifo_device_def by metis
  then show thesis
    using that [of "update_receive_stats (parsed d \<noteq> None) False (parsed d = None) c" w'] assms(2)
    by (simp add: receive_packet_eq parsed_def update_receive_stats_def Let_def)
qed

lemma fifo_exchange:
  assumes "fifo_device os queue answer" and "uc_connected c" and "queue w @ [answer_to answer p] = d # ds"
  obtains c' w' where "send_and_receive os p (c, w) = Some (parsed d, c', w')"
    and "uc_connected c'" and "queue w' = ds"
proof -
  obtain w1 where s: "send_packet os p (c, w) = (True, update_send_stats True c, w1)"
    "queue w1 = d # ds" using fifo_send [OF assms(1,2)] assms(3) by metis
  have "uc_connected (update_send_stats True c)" using assms(2) by simp
  from fifo_receive [OF assms(1) this s(2)] obtain c' w' where
    "receive_packet os (update_send_stats True c, w1) = Some (parsed d, c', w')"
    "uc_connected c'" "queue w' = ds" .
  with s(1) that show thesis by (simp add: send_and_receive_def)
qed

lemma exchange_all_fifo:
  assumes "fifo_device os queue answer"
  shows "uc_connected c \<Longrightarrow> \<exists>c' w'. exchange_all (send_and_receive os) ps (c, w) = Some
      (map parsed (take (length ps) (queue w @ map (answer_to answer) ps)), c', w')
    \<and> uc_connected c' \<and> queue w' = drop (length ps) (queue w @ map (answer_to answer) ps)"
proof (induction ps arbitrary: c w)
  case (Cons p ps)
  obtain d ds where d: "queue w @ [answer_to answer p] = d # ds"
    by (cases "queue w @ [answer_to answer p]") auto
  obtain c1 w1 where x: "send_and_receive os p (c, w) = Some (parsed d, c1, w1)"
    "uc_connected c1" "queue w1 = ds"
    using fifo_exchange [OF assms Cons.prems d] .
  have "queue w @ map (answer_to answer) (p # ps) = (queue w @ [answer_to answer p]) @ map (answer_to answer) ps"
    by simp
  also have "\<dots> = d # (queue w1 @ map (answer_to answer) ps)" using d x(3) by simp
  finally have q: "queue w @ map (answer_to answer) (p # ps) = d # (queue w1 @ map (answer_to answer) ps)" .
  from Cons.IH [OF x(2), of w1] x(1) show ?case unfolding q by fastforce
qed simp

lemma fifo_device_sim: "fifo_device (fifo_os answer) sim_queue answer"
  unfolding fifo_device_def
proof (intro conjI allI impI)
  show "\<exists>w'. os_send (fifo_os answer) fd data w = (int (length data), w')
      \<and> sim_queue w' = sim_queue w @ [answer data]" for fd data w
    by (simp add: fifo_os_def) (simp add: sim_queue_def)
  show "\<exists>w'. os_recv (fifo_os answer) fd n w = (Recv_Data d, w') \<and> sim_queue w' = ds"
    if "sim_queue w = d # ds" for fd n w d ds
    using that by (simp add: fifo_os_def sim_tick_def)
qed

section \<open>Threads\<close>

text \<open>
  Threads are a list of phases over a shared state; \<open>local\<close> is what one thread can do in one atomic
  section. A step of the whole is a step of any one thread.
\<close>

inductive interleave ::
  "('p \<times> 's \<Rightarrow> 'p \<times> 's \<Rightarrow> bool) \<Rightarrow> 'p list \<times> 's \<Rightarrow> 'p list \<times> 's \<Rightarrow> bool" for local where
  thread_step: "i < length ts \<Longrightarrow> local (ts ! i, s) (t', s') \<Longrightarrow> interleave local (ts, s) (ts[i := t'], s')"

inductive_cases interleaveE: "interleave local (ts, s) (ts', s')"

lemma interleave_single: "interleave local ([t], s) (ts', s') \<longleftrightarrow> (\<exists>t'. ts' = [t'] \<and> local (t, s) (t', s'))"
  by (auto elim!: interleaveE intro: thread_step [of 0 "[t]", simplified])

text \<open>One thread alone runs as its own relation says.\<close>

lemma interleave_alone:
  "(interleave local)\<^sup>*\<^sup>* ([t], s) (ts', s') \<longleftrightarrow> (\<exists>t'. ts' = [t'] \<and> local\<^sup>*\<^sup>* (t, s) (t', s'))"
proof
  show "\<exists>t'. ts' = [t'] \<and> local\<^sup>*\<^sup>* (t, s) (t', s')" if "(interleave local)\<^sup>*\<^sup>* ([t], s) (ts', s')"
    using that
  proof (induction "(ts', s')" arbitrary: ts' s' rule: rtranclp_induct)
    case (step y)
    then show ?case by (cases y) (auto simp: interleave_single intro: rtranclp.rtrancl_into_rtrancl)
  qed simp
next
  have "(interleave local)\<^sup>*\<^sup>* ([t], s) ([fst ts], snd ts)" if "local\<^sup>*\<^sup>* (t, s) ts" for ts
    using that
  proof (induction rule: rtranclp_induct)
    case (step y z)
    then have "interleave local ([fst y], snd y) ([fst z], snd z)" by (simp add: interleave_single)
    with step show ?case by (meson rtranclp.rtrancl_into_rtrancl)
  qed simp
  then show "\<exists>t'. ts' = [t'] \<and> local\<^sup>*\<^sup>* (t, s) (t', s') \<Longrightarrow> (interleave local)\<^sup>*\<^sup>* ([t], s) (ts', s')"
    by force
qed

text \<open>A quantity added up over all threads changes by what the moving thread changes.\<close>

lemma sum_list_map_update:
  fixes f :: "'p \<Rightarrow> 'm :: comm_monoid_add"
  shows "i < length ts \<Longrightarrow> sum_list (map f (ts[i := t'])) + f (ts ! i) = sum_list (map f ts) + f t'"
  by (induction ts arbitrary: i) (auto simp: nth_Cons ac_simps split: nat.splits)

text \<open>
  Bookkeeping over threads: each thread has a weight, the shared state has a balance, and a step of a
  thread moves between the two. Then the total never changes, whatever the interleaving.
\<close>

locale ledger =
  fixes local_step :: "'p \<times> 's \<Rightarrow> 'p \<times> 's \<Rightarrow> bool"
    and weight :: "'p \<Rightarrow> 'm :: comm_monoid_add" and balance :: "'s \<Rightarrow> 'm"
  assumes step_balance: "local_step (t, s) (t', s') \<Longrightarrow> weight t' + balance s' = weight t + balance s"
begin

lemma interleave_balance:
  assumes "interleave local_step (ts, s) (ts', s')"
  shows "sum_list (map weight ts') + balance s' = sum_list (map weight ts) + balance s
    \<and> length ts' = length ts"
  using assms
proof (rule interleaveE)
  fix i t' assume i: "ts' = ts[i := t']" "i < length ts" "local_step (ts ! i, s) (t', s')"
  let ?rest = "sum_list (map weight (take i ts)) + sum_list (map weight (drop (Suc i) ts))"
  have "sum_list (map weight ts') = ?rest + weight t'"
    using i(1,2) by (simp add: upd_conv_take_nth_drop ac_simps)
  moreover have "sum_list (map weight ts) = ?rest + weight (ts ! i)"
    by (subst id_take_nth_drop [OF i(2)]) (simp add: ac_simps)
  ultimately show ?thesis using step_balance [OF i(3)] i(1) by (simp add: add.assoc)
qed

lemma run_balance:
  "(interleave local_step)\<^sup>*\<^sup>* S S' \<Longrightarrow>
    sum_list (map weight (fst S')) + balance (snd S') = sum_list (map weight (fst S)) + balance (snd S)
    \<and> length (fst S') = length (fst S)"
  by (induction rule: rtranclp_induct) (use interleave_balance in fastforce)+

end

section \<open>Schedules\<close>

text \<open>
  Where one thread's step is a function, \<open>None\<close> for a thread that blocks or has ended, a schedule gives
  the turns: at time \<open>n\<close> thread \<open>sched n\<close> may move. A fair schedule gives every thread a turn again and
  again.
\<close>

fun turn :: "('p \<times> 's \<Rightarrow> ('p \<times> 's) option) \<Rightarrow> nat \<Rightarrow> 'p list \<times> 's \<Rightarrow> 'p list \<times> 's" where
  "turn step i (ts, s) =
     (if i < length ts then case step (ts ! i, s) of None \<Rightarrow> (ts, s) | Some (t', s') \<Rightarrow> (ts[i := t'], s')
      else (ts, s))"

primrec run_turns ::
  "('p \<times> 's \<Rightarrow> ('p \<times> 's) option) \<Rightarrow> (nat \<Rightarrow> nat) \<Rightarrow> 'p list \<times> 's \<Rightarrow> nat \<Rightarrow> 'p list \<times> 's" where
  "run_turns step sched S 0 = S"
| "run_turns step sched S (Suc n) = turn step (sched n) (run_turns step sched S n)"

definition fair :: "nat \<Rightarrow> (nat \<Rightarrow> nat) \<Rightarrow> bool" where
  "fair threads sched \<longleftrightarrow> (\<forall>i < threads. \<forall>n. \<exists>m \<ge> n. sched m = i)"

lemma fair_round_robin: "0 < threads \<Longrightarrow> fair threads (\<lambda>n. n mod threads)"
  unfolding fair_def
proof (intro allI impI)
  fix i n assume "i < threads" "0 < threads"
  then have "n \<le> n * threads + i" by (cases threads) auto
  moreover have "(n * threads + i) mod threads = i" using \<open>i < threads\<close> by simp
  ultimately show "\<exists>m \<ge> n. m mod threads = i" by blast
qed

lemma turn_interleaves:
  "(interleave (\<lambda>x y. step x = Some y))\<^sup>*\<^sup>* S (turn step i S)"
proof (cases S)
  case (Pair ts s)
  then show ?thesis by (auto split: option.splits intro: thread_step)
qed

lemma run_turns_interleaves:
  "(interleave (\<lambda>x y. step x = Some y))\<^sup>*\<^sup>* S (run_turns step sched S n)"
  by (induction n) (auto intro: rtranclp_trans turn_interleaves)

lemma run_turns_invariant:
  assumes "\<And>S i. P S \<Longrightarrow> P (turn step i S)" and "P S"
  shows "P (run_turns step sched S n)"
  using assms by (induction n) simp_all

text \<open>
  Progress: when every turn keeps \<open>P\<close> or establishes \<open>Q\<close>, and the turns of one thread establish \<open>Q\<close>,
  then after \<open>P\<close> a fair schedule sooner or later has \<open>Q\<close>.
\<close>

lemma fair_progress:
  assumes "fair threads sched" and "i < threads" and "P (run_turns step sched S n)"
    and keep: "\<And>S j. P S \<Longrightarrow> P (turn step j S) \<or> Q (turn step j S)"
    and move: "\<And>S. P S \<Longrightarrow> Q (turn step i S)"
  shows "\<exists>m \<ge> n. Q (run_turns step sched S m)"
proof (rule ccontr)
  assume never: "\<not> (\<exists>m \<ge> n. Q (run_turns step sched S m))"
  have P: "P (run_turns step sched S (n + d))" for d
  proof (induction d)
    case (Suc d)
    have "\<not> Q (run_turns step sched S (Suc (n + d)))" using never by (meson le_SucI le_add1)
    then show ?case using keep [OF Suc.IH, of "sched (n + d)"] by simp
  qed (use assms(3) in simp)
  obtain m where m: "m \<ge> n" "sched m = i" using assms(1,2) unfolding fair_def by blast
  have "Q (run_turns step sched S (Suc m))"
    using move [OF P [of "m - n"]] m by simp
  then show False using never m(1) by (meson le_SucI)
qed

text \<open>
  Repeated along a rank: the thread \<open>mover r\<close> can always lower the rank \<open>r\<close>, and no other raises it.
\<close>

lemma fair_termination:
  assumes fair: "fair threads sched"
    and good: "\<And>S j. good S \<Longrightarrow> good (turn step j S)"
    and keep: "\<And>S j. good S \<Longrightarrow> rank (turn step j S) \<le> (rank S :: nat)"
    and move: "\<And>S. good S \<Longrightarrow> 0 < rank S \<Longrightarrow>
      mover (rank S) < threads \<and> rank (turn step (mover (rank S)) S) < rank S"
  shows "good (run_turns step sched S n) \<Longrightarrow> \<exists>m \<ge> n. rank (run_turns step sched S m) = 0"
proof (induction "rank (run_turns step sched S n)" arbitrary: n rule: less_induct)
  case less
  let ?run = "run_turns step sched S"
  show ?case
  proof (cases "rank (?run n) = 0")
    case False
    let ?r = "rank (?run n)"
    have "mover ?r < threads" using move [OF less.prems] False by simp
    have "\<exists>m \<ge> n. good (?run m) \<and> rank (?run m) < ?r"
    proof (rule fair_progress [OF fair \<open>mover ?r < threads\<close>, where P = "\<lambda>S. good S \<and> rank S = ?r"])
      show "good (?run n) \<and> ?r = ?r" using less.prems by simp
      show "(good (turn step j S) \<and> rank (turn step j S) = ?r) \<or> (good (turn step j S) \<and> rank (turn step j S) < ?r)"
        if "good S \<and> rank S = ?r" for S j
        using good [of S j] keep [of S j] that by auto
      show "good (turn step (mover ?r) S) \<and> rank (turn step (mover ?r) S) < ?r"
        if "good S \<and> rank S = ?r" for S
        using good [of S] move [of S] that False by auto
    qed
    then obtain m where m: "m \<ge> n" "good (?run m)" "rank (?run m) < ?r" by blast
    from less.hyps [OF m(3,2)] m(1) show ?thesis by (meson order_trans)
  qed auto
qed

section \<open>Concurrent exchanges\<close>

text \<open>
  A call of \<open>send_and_receive\<close> between its two locked halves. \<open>send_packet\<close> and \<open>receive_packet\<close> each hold
  their mutex, the call as a whole holds none.
\<close>

datatype call = Ready Packet | Waiting Packet | Finished "Packet option"

inductive call_step :: "'w os \<Rightarrow> call \<times> 'w link \<Rightarrow> call \<times> 'w link \<Rightarrow> bool" for os where
  call_send: "send_packet os p s = (sent, s') \<Longrightarrow>
    call_step os (Ready p, s) (if sent then Waiting p else Finished None, s')"
| call_receive: "receive_packet os s = Some (r, s') \<Longrightarrow> call_step os (Waiting p, s) (Finished r, s')"

inductive_cases call_stepE: "call_step os (t, s) (t', s')"
inductive_simps call_step_ready: "call_step os (Ready p, s) ts"
inductive_simps call_step_waiting: "call_step os (Waiting p, s) ts"
inductive_simps call_step_finished: "call_step os (Finished r, s) ts"

lemma finished_final: "(call_step os)\<^sup>*\<^sup>* (Finished r, s) ts \<longleftrightarrow> ts = (Finished r, s)"
  by (auto elim: converse_rtranclpE simp: call_step_finished)

lemma calls_alone:
  "(call_step os)\<^sup>*\<^sup>* (Ready p, s) (Finished r, s') \<longleftrightarrow> send_and_receive os p s = Some (r, s')"
proof
  assume "(call_step os)\<^sup>*\<^sup>* (Ready p, s) (Finished r, s')"
  then obtain t1 s1 where 1: "call_step os (Ready p, s) (t1, s1)"
    "(call_step os)\<^sup>*\<^sup>* (t1, s1) (Finished r, s')"
    by (auto elim: converse_rtranclpE)
  from 1(1) obtain sent where send: "send_packet os p s = (sent, s1)"
    and t1: "t1 = (if sent then Waiting p else Finished None)" by (auto simp: call_step_ready)
  show "send_and_receive os p s = Some (r, s')"
  proof (cases sent)
    case True
    with 1(2) t1 obtain t2 s2 where 2: "call_step os (Waiting p, s1) (t2, s2)"
      "(call_step os)\<^sup>*\<^sup>* (t2, s2) (Finished r, s')"
      by (auto elim: converse_rtranclpE)
    then show ?thesis using send True
      by (auto simp: call_step_waiting finished_final send_and_receive_def)
  next
    case False
    with 1(2) t1 send show ?thesis by (auto simp: finished_final send_and_receive_def)
  qed
next
  assume r: "send_and_receive os p s = Some (r, s')"
  obtain sent s1 where send: "send_packet os p s = (sent, s1)" by (cases "send_packet os p s")
  have first: "call_step os (Ready p, s) (if sent then Waiting p else Finished None, s1)"
    using send by (rule call_send)
  show "(call_step os)\<^sup>*\<^sup>* (Ready p, s) (Finished r, s')"
  proof (cases sent)
    case True
    with r send have "call_step os (Waiting p, s1) (Finished r, s')"
      by (auto simp: send_and_receive_def intro: call_receive)
    with first True show ?thesis by (auto intro: converse_rtranclp_into_rtranclp)
  next
    case False
    with r send have "r = None" "s' = s1" by (auto simp: send_and_receive_def)
    with first False show ?thesis by auto
  qed
qed

text \<open>The counters of the client as ledgers over the calls in progress.\<close>

fun unasked :: "call \<Rightarrow> bool" where
  "unasked (Ready p) = True" | "unasked _ = False"

fun unanswered :: "call \<Rightarrow> bool" where
  "unanswered (Waiting p) = True" | "unanswered _ = False"

fun answered :: "call \<Rightarrow> bool" where
  "answered (Finished (Some q)) = True" | "answered _ = False"

lemma call_step_counted:
  assumes "call_step os (t, c, w) (t', c', w')"
  shows "of_bool (unasked t') + sends_counted c' = of_bool (unasked t) + sends_counted c"
    and "of_bool (unanswered t') + (receives_counted c' - packets_sent (uc_stats c'))
      = of_bool (unanswered t) + (receives_counted c - packets_sent (uc_stats c))"
    and "packets_received (uc_stats c') - of_bool (answered t')
      = packets_received (uc_stats c) - of_bool (answered t)"
proof -
  have "of_bool (unasked t') + sends_counted c' = of_bool (unasked t) + sends_counted c
    \<and> of_bool (unanswered t') + (receives_counted c' - packets_sent (uc_stats c'))
      = of_bool (unanswered t) + (receives_counted c - packets_sent (uc_stats c))
    \<and> packets_received (uc_stats c') - of_bool (answered t')
      = packets_received (uc_stats c) - of_bool (answered t)"
    using assms
  proof (rule call_stepE)
    fix p sent assume "t = Ready p" "t' = (if sent then Waiting p else Finished None)"
      "send_packet os p (c, w) = (sent, c', w')"
    then show ?thesis using send_packet_outcome(1) by (fastforce simp: update_stats_counted)
  next
    fix p r assume t: "t = Waiting p" "t' = Finished r" and r: "receive_packet os (c, w) = Some (r, c', w')"
    from r obtain a e where "c' = update_receive_stats (r \<noteq> None) a e c" by (rule receive_packet_outcome)
    with t show ?thesis by (cases r) (simp_all add: update_stats_counted)
  qed
  then show "of_bool (unasked t') + sends_counted c' = of_bool (unasked t) + sends_counted c"
    and "of_bool (unanswered t') + (receives_counted c' - packets_sent (uc_stats c'))
      = of_bool (unanswered t) + (receives_counted c - packets_sent (uc_stats c))"
    and "packets_received (uc_stats c') - of_bool (answered t')
      = packets_received (uc_stats c) - of_bool (answered t)" by blast+
qed

interpretation sends: ledger "call_step os" "\<lambda>t. of_bool (unasked t) :: u64" "\<lambda>s. sends_counted (fst s)"
  for os :: "'w os"
  by unfold_locales (auto dest: call_step_counted(1))

interpretation receives: ledger "call_step os" "\<lambda>t. of_bool (unanswered t) :: u64"
  "\<lambda>s. receives_counted (fst s) - packets_sent (uc_stats (fst s))" for os :: "'w os"
  by unfold_locales (auto dest: call_step_counted(2))

interpretation responses: ledger "call_step os" "\<lambda>t. - of_bool (answered t) :: u64"
  "\<lambda>s. packets_received (uc_stats (fst s))" for os :: "'w os"
  by unfold_locales (auto dest: call_step_counted(3))

lemma sum_list_of_bool: "sum_list (map (\<lambda>t. of_bool (P t)) ts) = (of_nat (length (filter P ts)) :: 'a :: semiring_1)"
  by (induction ts) simp_all

lemma sum_list_minus: "sum_list (map (\<lambda>t. - f t) ts) = - (sum_list (map f ts) :: 'a :: ring_1)"
  by (induction ts) simp_all

text \<open>
  On a connected client in front of a device that answers in order, two quantities are kept: as many
  calls wait as answers are on their way, and the results handed out, the answers on their way and the
  answers still to be asked for are together always the same.
\<close>

definition is_waiting :: "call \<Rightarrow> nat" where
  "is_waiting t = (case t of Waiting p \<Rightarrow> 1 | _ \<Rightarrow> 0)"

definition outcome_of :: "(u8 list \<Rightarrow> u8 list) \<Rightarrow> call \<Rightarrow> Packet option multiset" where
  "outcome_of answer t = (case t of
     Ready p \<Rightarrow> {#parsed (answer_to answer p)#} | Waiting p \<Rightarrow> {#} | Finished r \<Rightarrow> {#r#})"

lemma call_measures [simp]:
  "is_waiting (Ready p) = 0" "is_waiting (Waiting p) = 1" "is_waiting (Finished r) = 0"
  "outcome_of answer (Ready p) = {#parsed (answer_to answer p)#}"
  "outcome_of answer (Waiting p) = {#}" "outcome_of answer (Finished r) = {#r#}"
  by (simp_all add: is_waiting_def outcome_of_def)

definition in_flight :: "('w \<Rightarrow> u8 list list) \<Rightarrow> call list \<times> 'w link \<Rightarrow> bool" where
  "in_flight queue S \<longleftrightarrow> (case S of (ts, c, w) \<Rightarrow>
     uc_connected c \<and> sum_list (map is_waiting ts) = length (queue w))"

definition all_outcomes ::
  "(u8 list \<Rightarrow> u8 list) \<Rightarrow> ('w \<Rightarrow> u8 list list) \<Rightarrow> call list \<times> 'w link \<Rightarrow> Packet option multiset" where
  "all_outcomes answer queue S = (case S of (ts, c, w) \<Rightarrow>
     sum_list (map (outcome_of answer) ts) + mset (map parsed (queue w)))"

lemma waiting_queue_nonempty:
  assumes "in_flight queue (ts, c, w)" and "i < length ts" and "ts ! i = Waiting p"
  obtains d ds where "queue w = d # ds"
proof -
  have "is_waiting (ts ! i) \<le> sum_list (map is_waiting ts)"
    using assms(2) by (intro member_le_sum_list) auto
  moreover have "is_waiting (ts ! i) = 1" using assms(3) by (simp add: is_waiting_def)
  moreover have "sum_list (map is_waiting ts) = length (queue w)" using assms(1) by (simp add: in_flight_def)
  ultimately show thesis using that by (cases "queue w") auto
qed

lemma flight_step:
  assumes dev: "fifo_device os queue answer"
    and "interleave (call_step os) S S'" and "in_flight queue S"
  shows "in_flight queue S' \<and> all_outcomes answer queue S' = all_outcomes answer queue S"
  using assms(2)
proof cases
  case (thread_step i ts s t' s')
  obtain c w c' w' where s: "s = (c, w)" "s' = (c', w')" by (metis prod.exhaust)
  have conn: "uc_connected c" and cnt: "sum_list (map is_waiting ts) = length (queue w)"
    using assms(3) thread_step(1) s by (simp_all add: in_flight_def)
  note upd = sum_list_map_update [OF thread_step(3), of is_waiting t']
    sum_list_map_update [OF thread_step(3), of "outcome_of answer" t']
  show ?thesis
  proof (cases "ts ! i")
    case (Ready p)
    from fifo_send [OF dev conn] obtain w1 where
      "send_packet os p (c, w) = (True, update_send_stats True c, w1)"
      "queue w1 = queue w @ [answer_to answer p]" .
    with thread_step(4) Ready s have "t' = Waiting p" "uc_connected c'"
      "queue w' = queue w @ [answer_to answer p]" by (auto simp: call_step_ready conn)
    then show ?thesis using upd cnt Ready thread_step(1,2) s
      by (simp add: in_flight_def all_outcomes_def)
  next
    case (Waiting p)
    obtain d ds where q: "queue w = d # ds"
      using waiting_queue_nonempty [of queue ts c w i p] assms(3) thread_step(1,3) Waiting s by metis
    from fifo_receive [OF dev conn q] obtain c1 w1 where
      "receive_packet os (c, w) = Some (parsed d, c1, w1)" "uc_connected c1" "queue w1 = ds" .
    with thread_step(4) Waiting s have "t' = Finished (parsed d)" "uc_connected c'" "queue w' = ds"
      by (auto simp: call_step_waiting)
    then show ?thesis using upd cnt q Waiting thread_step(1,2) s
      by (simp add: in_flight_def all_outcomes_def)
  next
    case (Finished r)
    with thread_step(4) show ?thesis by (simp add: call_step_finished)
  qed
qed

lemma flight_steps:
  assumes "fifo_device os queue answer" and "(interleave (call_step os))\<^sup>*\<^sup>* S S'" and "in_flight queue S"
  shows "in_flight queue S' \<and> all_outcomes answer queue S' = all_outcomes answer queue S"
  using assms(2,3)
  by (induction rule: rtranclp_induct) (use flight_step [OF assms(1)] in auto)

lemma ready_measures [simp]:
  "sum_list (map (outcome_of answer) (map Ready ps)) = mset (map (parsed \<circ> answer_to answer) ps)"
  "sum_list (map is_waiting (map Ready ps)) = 0"
  by (induction ps) simp_all

lemma finished_measures [simp]:
  "sum_list (map (outcome_of answer) (map Finished rs)) = mset rs"
  "sum_list (map is_waiting (map Finished rs)) = 0"
  by (induction rs) simp_all

text \<open>All requests can go out before the first response is fetched.\<close>

lemma send_all:
  assumes "fifo_device os queue answer" and "uc_connected c"
  shows "\<exists>s'. (interleave (call_step os))\<^sup>*\<^sup>* (done @ map Ready ps, c, w) (done @ map Waiting ps, s')"
  using assms(2)
proof (induction ps arbitrary: "done" c w)
  case (Cons p ps)
  obtain w1 where send: "send_packet os p (c, w) = (True, update_send_stats True c, w1)"
    using fifo_send [OF assms(1) Cons.prems] by metis
  let ?c = "update_send_stats True c"
  have "interleave (call_step os) (done @ map Ready (p # ps), c, w) ((done @ [Waiting p]) @ map Ready ps, ?c, w1)"
    using thread_step [of "length done" "done @ map Ready (p # ps)" "call_step os" "(c, w)" "Waiting p"]
      call_send [OF send] by simp
  moreover have "uc_connected ?c" using Cons.prems by simp
  note Cons.IH [OF this, of "done @ [Waiting p]" w1]
  ultimately show ?case by (auto intro: converse_rtranclp_into_rtranclp)
qed auto

text \<open>And the waiting calls can fetch the responses in any order.\<close>

definition may_become :: "call \<Rightarrow> Packet option \<Rightarrow> bool" where
  "may_become t r \<longleftrightarrow> t = Finished r \<or> (\<exists>p. t = Waiting p)"

lemma waiting_for:
  assumes "list_all2 may_become ts rs"
    and "count (sum_list (map (outcome_of answer) ts)) x < count (mset rs) x"
  shows "\<exists>i p. i < length ts \<and> ts ! i = Waiting p \<and> rs ! i = x"
  using assms
proof (induction rule: list_all2_induct)
  case (Cons t ts r rs)
  show ?case
  proof (cases "r = x \<and> (\<exists>p. t = Waiting p)")
    case True
    then show ?thesis by (auto intro: exI [of _ 0])
  next
    case False
    with Cons(1,4) have "count (sum_list (map (outcome_of answer) ts)) x < count (mset rs) x"
      by (auto simp: may_become_def split: if_splits)
    from Cons.IH [OF this] show ?thesis by (metis Suc_less_eq length_Cons nth_Cons_Suc)
  qed
qed simp

lemma receive_in_order_of:
  assumes dev: "fifo_device os queue answer"
  shows "in_flight queue (ts, c, w) \<Longrightarrow> all_outcomes answer queue (ts, c, w) = mset rs \<Longrightarrow>
    list_all2 may_become ts rs \<Longrightarrow> \<exists>s'. (interleave (call_step os))\<^sup>*\<^sup>* (ts, c, w) (map Finished rs, s')"
proof (induction "queue w" arbitrary: ts c w)
  case Nil
  then have "\<forall>t \<in> set ts. is_waiting t = 0" by (simp add: in_flight_def)
  with Nil.prems(3) have "list_all2 (\<lambda>t r. t = Finished r) ts rs"
    by (auto simp: list_all2_conv_all_nth may_become_def is_waiting_def) (metis call.simps(11) nth_mem zero_neq_one)
  then have "ts = map Finished rs" by (induction rule: list_all2_induct) simp_all
  then show ?case by auto
next
  case (Cons d ds)
  from Cons.prems(2) have "count (sum_list (map (outcome_of answer) ts)) (parsed d) < count (mset rs) (parsed d)"
    by (simp add: all_outcomes_def flip: Cons.hyps(2) Cons.prems(2))
  from waiting_for [OF Cons.prems(3) this] obtain i p where
    i: "i < length ts" "ts ! i = Waiting p" "rs ! i = parsed d" by blast
  have "uc_connected c" using Cons.prems(1) by (simp add: in_flight_def)
  from fifo_receive [OF dev this Cons.hyps(2) [symmetric]] obtain c' w' where
    r: "receive_packet os (c, w) = Some (parsed d, c', w')" "queue w' = ds" .
  let ?ts = "ts[i := Finished (parsed d)]"
  have step: "interleave (call_step os) (ts, c, w) (?ts, c', w')"
    using thread_step [OF i(1), of "call_step os"] call_receive [OF r(1)] i(2) by metis
  have "list_all2 may_become ?ts (rs[i := parsed d])"
    by (rule list_all2_update_cong [OF Cons.prems(3)]) (simp add: may_become_def)
  then have "list_all2 may_become ?ts rs" using i(3) by (metis list_update_id)
  with Cons.hyps(1) [of w' ?ts c'] r(2) flight_step [OF dev step Cons.prems(1)] Cons.prems(2)
  obtain s' where "(interleave (call_step os))\<^sup>*\<^sup>* (?ts, c', w') (map Finished rs, s')" by auto
  with step show ?case by (meson converse_rtranclp_into_rtranclp)
qed

lemma calls_any_matching:
  assumes "fifo_device os queue answer" and "uc_connected c" and "queue w = []"
  shows "(\<exists>s'. (interleave (call_step os))\<^sup>*\<^sup>* (map Ready ps, c, w) (map Finished rs, s'))
    \<longleftrightarrow> mset rs = mset (map (parsed \<circ> answer_to answer) ps)"
proof
  have start: "in_flight queue (map Ready ps, c, w)"
    and all: "all_outcomes answer queue (map Ready ps, c, w) = mset (map (parsed \<circ> answer_to answer) ps)"
    using assms(2,3) by (simp_all add: in_flight_def all_outcomes_def del: map_map)
  {
    assume "\<exists>s'. (interleave (call_step os))\<^sup>*\<^sup>* (map Ready ps, c, w) (map Finished rs, s')"
    then obtain c' w' where run: "(interleave (call_step os))\<^sup>*\<^sup>* (map Ready ps, c, w) (map Finished rs, c', w')"
      by auto
    have "in_flight queue (map Finished rs, c', w')"
      "all_outcomes answer queue (map Finished rs, c', w') = mset (map (parsed \<circ> answer_to answer) ps)"
      using flight_steps [OF assms(1) run start] all by simp_all
    then show "mset rs = mset (map (parsed \<circ> answer_to answer) ps)"
      by (simp add: in_flight_def all_outcomes_def del: map_map)
  next
    assume perm: "mset rs = mset (map (parsed \<circ> answer_to answer) ps)"
    obtain c' w' where send: "(interleave (call_step os))\<^sup>*\<^sup>* (map Ready ps, c, w) (map Waiting ps, c', w')"
      using send_all [OF assms(1,2), of "[]" ps w] by auto
    have "length (map Waiting ps) = length rs" using mset_eq_length [OF perm] by simp
    then have "list_all2 may_become (map Waiting ps) rs"
      by (simp add: list_all2_conv_all_nth may_become_def)
    moreover have "in_flight queue (map Waiting ps, c', w')"
      "all_outcomes answer queue (map Waiting ps, c', w') = mset rs"
      using flight_steps [OF assms(1) send start] all perm by simp_all
    ultimately obtain s' where "(interleave (call_step os))\<^sup>*\<^sup>* (map Waiting ps, c', w') (map Finished rs, s')"
      using receive_in_order_of [OF assms(1)] by blast
    with send show "\<exists>s'. (interleave (call_step os))\<^sup>*\<^sup>* (map Ready ps, c, w) (map Finished rs, s')"
      by (meson rtranclp_trans)
  }
qed

text \<open>A connected client and two requests, for the instances.\<close>

definition online :: UdpClient where
  "online = (UdpClient_new UdpConfig_default)\<lparr>uc_socket_fd := 3, uc_connected := True\<rparr>"

definition status_request :: "u8 \<Rightarrow> Packet" where
  "status_request i = the (encode_read_motor_status i)"

lemma parsed_request [simp]: "parsed (answer_to (\<lambda>d. d) (status_request 1)) = Some (status_request 1)"
  "parsed (answer_to (\<lambda>d. d) (status_request 2)) = Some (status_request 2)"
  by code_simp+

section \<open>Concurrent starts\<close>

text \<open>
  The start functions check the flag, set it and create the thread in three steps without a lock. The
  last includes the assignment to the thread member.
\<close>

datatype start_phase = At_Check | At_Store | At_Create | Start_Done start_outcome

inductive start_step ::
  "('s \<Rightarrow> bool \<times> 's) \<Rightarrow> start_phase \<times> worker \<times> 's \<Rightarrow> start_phase \<times> worker \<times> 's \<Rightarrow> bool" for spawn where
  start_check: "start_step spawn (At_Check, t, s)
    (if thread_running t then Start_Done Already_Running else At_Store, t, s)"
| start_store: "start_step spawn (At_Store, t, s) (At_Create, t\<lparr>thread_running := True\<rparr>, s)"
| start_created: "spawn s = (True, s') \<Longrightarrow> \<not> thread_joinable t \<Longrightarrow>
    start_step spawn (At_Create, t, s) (Start_Done Started, t\<lparr>thread_joinable := True\<rparr>, s')"
| start_terminates: "spawn s = (True, s') \<Longrightarrow> thread_joinable t \<Longrightarrow>
    start_step spawn (At_Create, t, s) (Start_Done Terminates, t, s')"
| start_throws: "spawn s = (False, s') \<Longrightarrow>
    start_step spawn (At_Create, t, s) (Start_Done Throws_System_Error, t\<lparr>thread_running := False\<rparr>, s')"

inductive_simps start_step_simps:
  "start_step spawn (At_Check, t, s) ts" "start_step spawn (At_Store, t, s) ts"
  "start_step spawn (At_Create, t, s) ts" "start_step spawn (Start_Done r, t, s) ts"

lemma steps_first:
  "x \<noteq> z \<Longrightarrow> R\<^sup>*\<^sup>* x z \<longleftrightarrow> (\<exists>y. R x y \<and> R\<^sup>*\<^sup>* y z)"
  by (auto elim: converse_rtranclpE intro: converse_rtranclp_into_rtranclp)

lemma start_done_final: "(start_step spawn)\<^sup>*\<^sup>* (Start_Done r, ts) z \<longleftrightarrow> z = (Start_Done r, ts)"
  by (cases ts) (auto elim: converse_rtranclpE simp: start_step_simps)

lemma start_from:
  "(start_step spawn)\<^sup>*\<^sup>* (At_Check, t, s) (Start_Done r, z) \<longleftrightarrow>
     (start_step spawn)\<^sup>*\<^sup>* (if thread_running t then Start_Done Already_Running else At_Store, t, s) (Start_Done r, z)"
  "(start_step spawn)\<^sup>*\<^sup>* (At_Store, t, s) (Start_Done r, z) \<longleftrightarrow>
     (start_step spawn)\<^sup>*\<^sup>* (At_Create, t\<lparr>thread_running := True\<rparr>, s) (Start_Done r, z)"
  "(start_step spawn)\<^sup>*\<^sup>* (At_Create, t, s) (Start_Done r, z) \<longleftrightarrow>
     (\<exists>y. start_step spawn (At_Create, t, s) y \<and> (start_step spawn)\<^sup>*\<^sup>* y (Start_Done r, z))"
  by (simp_all add: steps_first [of _ "(Start_Done r, z)"] start_step_simps)

lemma starts_alone:
  "(start_step spawn)\<^sup>*\<^sup>* (At_Check, ts) (Start_Done r, ts') \<longleftrightarrow> worker_start spawn ts = (r, ts')"
proof -
  obtain t s where ts: "ts = (t, s)" by (cases ts)
  obtain ok s1 where spawn: "spawn s = (ok, s1)" by (cases "spawn s")
  show ?thesis
    using spawn by (cases ok; cases "thread_running t"; cases "thread_joinable t")
      (auto simp: ts start_from start_done_final start_step_simps worker_start_def Let_def)
qed

section \<open>Properties\<close>

text \<open>
  Undisturbed calls. When no other thread interferes, the two locked halves of \<open>send_and_receive\<close>
  amount to the one function of the atomic model, and the three steps of a start function to
  \<open>worker_start\<close>, with the same outcome and the same final state.
\<close>

lemma undisturbed_calls_atomic:
  "(interleave (call_step os))\<^sup>*\<^sup>* ([Ready p], s) ([Finished r], s') = (send_and_receive os p s = Some (r, s'))
   \<and> (interleave (start_step spawn))\<^sup>*\<^sup>* ([At_Check], ts) ([Start_Done out], ts')
     = (worker_start spawn ts = (out, ts'))"
  by (simp add: interleave_alone calls_alone starts_alone)

text \<open>
  The counters under concurrency. At every moment of any number of interleaved calls on a client with
  fresh counters, on any network: packets sent and send errors together count the calls that have made
  their attempt to send; every packet sent is accounted for by exactly one of received, timed out,
  rejected, failed, or a call that still waits; and packets received counts the responses returned.
\<close>

lemma concurrent_accounting:
  assumes "uc_stats c = NetworkStatistics_default"
    and "(interleave (call_step os))\<^sup>*\<^sup>* (map Ready ps, c, w) (ts, c', w')"
  shows "packets_sent (uc_stats c') + send_errors (uc_stats c')
      = of_nat (length (filter (\<lambda>t. \<not> unasked t) ts))
    \<and> packets_received (uc_stats c') + receive_errors (uc_stats c') + timeouts (uc_stats c')
        + checksum_errors (uc_stats c') + of_nat (length (filter unanswered ts)) = packets_sent (uc_stats c')
    \<and> packets_received (uc_stats c') = of_nat (length (filter answered ts))"
proof -
  have fresh: "sends_counted c = 0" "receives_counted c = 0" "packets_sent (uc_stats c) = 0"
    "packets_received (uc_stats c) = 0"
    using assms(1) by (simp_all add: sends_counted_def receives_counted_def NetworkStatistics_default_def)
  have "of_nat (length (filter unasked ts)) + sends_counted c' = of_nat (length ps)"
    using sends.run_balance [OF assms(2)] fresh by (simp add: sum_list_of_bool sum_list_triv comp_def)
  moreover have "length ts = length ps" using sends.run_balance [OF assms(2)] by simp
  then have "of_nat (length ps) = (of_nat (length (filter unasked ts)) + of_nat (length (filter (\<lambda>t. \<not> unasked t) ts)) :: u64)"
    using sum_length_filter_compl [of unasked ts] by (metis of_nat_add)
  moreover have "of_nat (length (filter unanswered ts)) + (receives_counted c' - packets_sent (uc_stats c')) = 0"
    using receives.run_balance [OF assms(2)] fresh by (simp add: sum_list_of_bool sum_list_triv comp_def)
  then have "receives_counted c' + of_nat (length (filter unanswered ts)) = packets_sent (uc_stats c')"
    by (simp add: algebra_simps)
  moreover have "packets_received (uc_stats c') = of_nat (length (filter answered ts))"
    using responses.run_balance [OF assms(2)] fresh
    by (simp add: sum_list_minus sum_list_of_bool comp_def)
  ultimately show ?thesis by (simp add: sends_counted_def receives_counted_def)
qed

lemma concurrent_accounting_instance:
  "\<exists>ts c' w'. (interleave (call_step (fifo_os (\<lambda>d. d))))\<^sup>*\<^sup>*
      (map Ready [status_request 1, status_request 2], online, sim_init []) (ts, c', w')
    \<and> packets_received (uc_stats c') = 2"
proof -
  let ?rs = "[Some (status_request 1), Some (status_request 2)]"
  have "\<exists>s'. (interleave (call_step (fifo_os (\<lambda>d. d))))\<^sup>*\<^sup>*
      (map Ready [status_request 1, status_request 2], online, sim_init []) (map Finished ?rs, s')"
    by (rule calls_any_matching [OF fifo_device_sim, THEN iffD2]) (simp_all add: online_def sim_init_def)
  then obtain c' w' where run: "(interleave (call_step (fifo_os (\<lambda>d. d))))\<^sup>*\<^sup>*
      (map Ready [status_request 1, status_request 2], online, sim_init []) (map Finished ?rs, c', w')" by auto
  have "uc_stats online = NetworkStatistics_default" by (simp add: online_def UdpClient_new_def)
  from concurrent_accounting [OF this run] run show ?thesis by fastforce
qed

text \<open>
  C11. Concurrent calls. In front of a device that answers every request, in order and without loss, any
  number of concurrent calls of \<open>send_and_receive\<close> can end with exactly those results that are a
  permutation of the right ones: no reply is lost, duplicated or invented, but every assignment of the
  replies to the callers is possible, because the lock is given up between the two halves.
\<close>

theorem concurrent_calls_any_matching:
  assumes "fifo_device os queue answer" and "uc_connected c" and "queue w = []"
  shows "(\<exists>s'. (interleave (call_step os))\<^sup>*\<^sup>* (map Ready ps, c, w) (map Finished rs, s'))
    \<longleftrightarrow> mset rs = mset (map (parsed \<circ> answer_to answer) ps)"
  using assms by (rule calls_any_matching)

theorem concurrent_calls_any_matching_witness:
  "(\<exists>s'. (interleave (call_step (fifo_os (\<lambda>d. d))))\<^sup>*\<^sup>*
      (map Ready [status_request 1, status_request 2], online, sim_init [])
      (map Finished [Some (status_request 2), Some (status_request 1)], s'))
    \<and> status_request 1 \<noteq> status_request 2"
proof
  show "\<exists>s'. (interleave (call_step (fifo_os (\<lambda>d. d))))\<^sup>*\<^sup>*
      (map Ready [status_request 1, status_request 2], online, sim_init [])
      (map Finished [Some (status_request 2), Some (status_request 1)], s')"
    by (rule concurrent_calls_any_matching [OF fifo_device_sim, THEN iffD2])
      (simp_all add: online_def sim_init_def)
  show "status_request 1 \<noteq> status_request 2" by code_simp
qed

definition imu_request :: Packet where
  "imu_request = the encode_read_imu"

text \<open>
  An IMU read next to a status poll. When one thread reads the IMU while another polls a motor, as a
  calibration next to the update thread does, the IMU read can get the motor's status reply, and
  \<open>parse_imu_data\<close>, which looks at neither target nor command, turns it into an orientation.
\<close>

lemma imu_read_takes_motor_reply:
  assumes "fifo_device os queue answer" and "uc_connected c" and "queue w = []"
    and "parsed (answer_to answer (status_request i)) = Some q" and "motor_reply_shape q"
  shows "(\<exists>s'. (interleave (call_step os))\<^sup>*\<^sup>* ([Ready imu_request, Ready (status_request i)], c, w)
      ([Finished (Some q), Finished (parsed (answer_to answer imu_request))], s'))
    \<and> (\<exists>d. parse_imu_data q now = Some (Some d))"
proof
  have "mset [Some q, parsed (answer_to answer imu_request)]
      = mset (map (parsed \<circ> answer_to answer) [imu_request, status_request i])"
    using assms(4) by simp
  from calls_any_matching [OF assms(1-3), THEN iffD2, OF this]
  show "\<exists>s'. (interleave (call_step os))\<^sup>*\<^sup>* ([Ready imu_request, Ready (status_request i)], c, w)
      ([Finished (Some q), Finished (parsed (answer_to answer imu_request))], s')" by simp
  show "\<exists>d. parse_imu_data q now = Some (Some d)"
    using assms(5) by (simp add: parse_imu_data_eq imu_reply_shape_def motor_reply_shape_def)
qed

text \<open>A status reply with all fields zero, and a device that answers status requests with it.\<close>

definition zero_status_frame :: "u8 list" where
  "zero_status_frame = device_frame 0x16 0x01 0x20 (status_body \<lparr>ms_motor_id = 1,
     ms_target_position = 0, ms_actual_position = 0, ms_actual_current = 0, ms_force_value = 0,
     ms_force_raw = 0, ms_temperature = 0, ms_fault_code = 0, ms_timestamp = 0\<rparr>)"

lemma imu_read_takes_motor_reply_instance:
  "\<exists>s' q d. (interleave (call_step (fifo_os (\<lambda>_. zero_status_frame))))\<^sup>*\<^sup>*
      ([Ready imu_request, Ready (status_request 1)], online, sim_init [])
      ([Finished (Some q), Finished (Some q)], s') \<and> parse_imu_data q 0 = Some (Some d)"
proof -
  have "map_option motor_reply_shape (parsed zero_status_frame) = Some True" by code_simp
  then obtain q where q: "parsed zero_status_frame = Some q" "motor_reply_shape q" by auto
  have "uc_connected online" "sim_queue (sim_init []) = []" by (simp_all add: online_def sim_init_def)
  moreover have "parsed (answer_to (\<lambda>_. zero_status_frame) (status_request 1)) = Some q"
    by (simp add: answer_to_def q)
  ultimately show ?thesis
    using imu_read_takes_motor_reply [OF fifo_device_sim _ _ _ q(2), where answer = "\<lambda>_. zero_status_frame"
        and c = online and w = "sim_init []" and i = 1 and now = 0] q(1)
    by (auto simp: answer_to_def)
qed

text \<open>
  C31. A reply that comes late. In front of the same device the responses of a sequence of calls are the
  answers already on their way followed by the answers to the requests, cut to the number of calls. So
  after \<open>k\<close> timed-out requests every later call returns the reply to the request \<open>k\<close> before its own, for
  as long as the client is used: as many answers as before stay on their way and the client stays connected.
\<close>

theorem late_replies_shift_responses:
  assumes "fifo_device os queue answer" and "uc_connected c"
  shows "\<exists>c' w'. exchange_all (send_and_receive os) ps (c, w) = Some
      (map parsed (take (length ps) (queue w @ map (answer_to answer) ps)), c', w')
    \<and> uc_connected c' \<and> length (queue w') = length (queue w)"
  using exchange_all_fifo [OF assms, of ps w] by fastforce

theorem late_replies_shift_responses_witness:
  "\<exists>c' w'. exchange_all (send_and_receive (fifo_os (\<lambda>d. d))) [status_request 1, status_request 2]
      (online, sim_init [Recv_Data []])
    = Some ([None, Some (status_request 1)], c', w') \<and> uc_connected c'"
proof -
  have "sim_queue (sim_init [Recv_Data []]) = [[]]" by (simp add: sim_queue_def sim_init_def)
  moreover have "parsed [] = None" by code_simp
  ultimately show ?thesis
    using late_replies_shift_responses [OF fifo_device_sim, of online "\<lambda>d. d"
        "[status_request 1, status_request 2]" "sim_init [Recv_Data []]"]
    by (auto simp: online_def)
qed

text \<open>
  Concurrent starts. Two threads that start the same stopped worker at the same time can both pass
  the check of the flag; the second creation then assigns over the joinable thread of the first, which
  terminates the program. A single caller never gets there.
\<close>

lemma concurrent_starts_terminate:
  assumes "spawn s = (True, s1)" and "spawn s1 = (True, s2)"
  shows "(interleave (start_step spawn))\<^sup>*\<^sup>* ([At_Check, At_Check], worker_new, s)
      ([Start_Done Started, Start_Done Terminates], \<lparr>thread_running = True, thread_joinable = True\<rparr>, s2)
    \<and> \<not> (interleave (start_step spawn))\<^sup>*\<^sup>* ([At_Check], worker_new, s) ([Start_Done Terminates], ts')"
proof -
  let ?run = "\<lparr>thread_running = True, thread_joinable = False\<rparr>"
  let ?R = "interleave (start_step spawn)"
  note at = thread_step [of 0 "[t, u]" for t u :: start_phase, simplified]
    thread_step [of 1 "[t, u]" for t u :: start_phase, simplified]
  have "?R ([At_Check, At_Check], worker_new, s) ([At_Store, At_Check], worker_new, s)"
    "?R ([At_Store, At_Check], worker_new, s) ([At_Store, At_Store], worker_new, s)"
    "?R ([At_Store, At_Store], worker_new, s) ([At_Create, At_Store], ?run, s)"
    "?R ([At_Create, At_Store], ?run, s) ([At_Create, At_Create], ?run, s)"
    "?R ([At_Create, At_Create], ?run, s)
      ([Start_Done Started, At_Create], ?run\<lparr>thread_joinable := True\<rparr>, s1)"
    "?R ([Start_Done Started, At_Create], ?run\<lparr>thread_joinable := True\<rparr>, s1)
      ([Start_Done Started, Start_Done Terminates], ?run\<lparr>thread_joinable := True\<rparr>, s2)"
    using assms by (auto intro!: at simp: start_step_simps worker_new_def)
  then have "?R\<^sup>*\<^sup>* ([At_Check, At_Check], worker_new, s)
      ([Start_Done Started, Start_Done Terminates], ?run\<lparr>thread_joinable := True\<rparr>, s2)"
    by (meson converse_rtranclp_into_rtranclp rtranclp.rtrancl_refl)
  moreover have "worker_start spawn (worker_new, s) \<noteq> (Terminates, ts')"
    using assms(1) by (simp add: worker_start_def worker_new_def)
  ultimately show ?thesis by (simp add: interleave_alone starts_alone)
qed

lemma concurrent_starts_terminate_instance:
  "\<not> (interleave (start_step (\<lambda>n. (True, n))))\<^sup>*\<^sup>* ([At_Check], worker_new, 0 :: nat)
     ([Start_Done Terminates], worker_new, 0)"
  using concurrent_starts_terminate [of "\<lambda>n. (True, n)" "0 :: nat" 0 0 "(worker_new, 0)"] by simp

end
