(* ===== verification/Sdk_Threads.thy ===== *)
theory Sdk_Threads
  imports Glove_Sdk Concurrency
begin

text \<open>
  The threads of one SDK at the granularity of their loads and stores: the unified update thread, a thread
  in \<open>shutdown\<close> and threads in a convenience method, on one schedule. \<open>shutdown\<close> waits for the
  update thread before it frees anything, and with a fair schedule the wait ends; a convenience method
  is not waited for.
\<close>

section \<open>Steps of the threads\<close>

text \<open>
  The update thread alternates between a load of the flag and the segment of the body behind it.
  \<open>shutdown\<close> (with \<open>init_mutex_\<close> held, so one at a time) checks \<open>initialized_\<close>; its \<open>stop\<close> checks the flag, clears it and
  joins; then \<open>initialized_\<close> is cleared and the components are freed. A convenience method
  checks \<open>initialized_\<close> and then goes through the pointer. \<open>Undefined\<close> is a thread whose last step had no
  defined behaviour.
\<close>

datatype phase =
    Loop_Load segment | Loop_Body segment | Loop_Left
  | Shut_Check | Shut_Stop | Shut_Store | Shut_Join | Shut_Clear | Shut_Release | Shut_Done
  | Call_Check | Call_Use | Call_Done
  | Undefined

text \<open>The shared state: the SDK with its world, and whether the update thread has returned.\<close>

type_synonym 'w shared = "'w sdk \<times> bool"

definition run_segment :: "'w os \<Rightarrow> segment \<Rightarrow> 'w sdk \<Rightarrow> (segment \<times> 'w sdk) ub" where
  "run_segment os seg kw = (case seg of
     Motor_Segment \<Rightarrow>
       let start_time = os_now os (snd kw)
       in do { kw \<leftarrow> motor_segment os kw; Some (Encoder_Segment start_time, kw) }
   | Encoder_Segment start_time \<Rightarrow> do { kw \<leftarrow> encoder_segment os kw; Some (Imu_Segment start_time, kw) }
   | Imu_Segment start_time \<Rightarrow>
       do { kw \<leftarrow> imu_segment os kw; Some (Motor_Segment, sleep_rest os start_time kw) })"

fun sdk_thread_step ::
  "'w os \<Rightarrow> ('w sdk \<Rightarrow> (bool \<times> 'w sdk) ub) \<Rightarrow> phase \<times> 'w shared \<Rightarrow> (phase \<times> 'w shared) option" where
  "sdk_thread_step os use (Loop_Load seg, (k, w), left) =
     Some (if thread_running (sdk_worker k) then (Loop_Body seg, (k, w), left) else (Loop_Left, (k, w), True))"
| "sdk_thread_step os use (Loop_Body seg, kw, left) =
     Some (case run_segment os seg kw of
       None \<Rightarrow> (Undefined, kw, left) | Some (seg, kw) \<Rightarrow> (Loop_Load seg, kw, left))"
| "sdk_thread_step os use (Shut_Check, (k, w), left) =
     Some (if sdk_initialized k then Shut_Stop else Shut_Done, (k, w), left)"
| "sdk_thread_step os use (Shut_Stop, (k, w), left) =
     Some (if thread_running (sdk_worker k) then Shut_Store else Shut_Clear, (k, w), left)"
| "sdk_thread_step os use (Shut_Store, (k, w), left) =
     Some (Shut_Join, (k\<lparr>sdk_worker := (sdk_worker k)\<lparr>thread_running := False\<rparr>\<rparr>, w), left)"
| "sdk_thread_step os use (Shut_Join, (k, w), left) =
     (if \<not> thread_joinable (sdk_worker k) then Some (Shut_Clear, (k, w), left)
      else if left
      then Some (Shut_Clear, (k\<lparr>sdk_worker := (sdk_worker k)\<lparr>thread_joinable := False\<rparr>\<rparr>, w), left)
      else None)"
| "sdk_thread_step os use (Shut_Clear, (k, w), left) =
     Some (Shut_Release, (k\<lparr>sdk_initialized := False\<rparr>, w), left)"
| "sdk_thread_step os use (Shut_Release, kw, left) = Some (Shut_Done, cleanup_resources os kw, left)"
| "sdk_thread_step os use (Call_Check, (k, w), left) =
     Some (if ensure_initialized k then Call_Use else Call_Done, (k, w), left)"
| "sdk_thread_step os use (Call_Use, kw, left) =
     Some (case use kw of None \<Rightarrow> (Undefined, kw, left) | Some (b, kw) \<Rightarrow> (Call_Done, kw, left))"
| "sdk_thread_step os use (_, kw, left) = None"

text \<open>On its own the thread in \<open>shutdown\<close> does what \<open>sdk_shutdown\<close> does.\<close>

lemma shutdown_alone:
  assumes "left \<or> \<not> thread_joinable (sdk_worker k)"
  shows "\<exists>n. run_turns (sdk_thread_step os use) (\<lambda>n. 0) ([Shut_Check], (k, w), left) n
    = ([Shut_Done], sdk_shutdown os (k, w), left)"
proof -
  have "run_turns (sdk_thread_step os use) (\<lambda>n. 0) ([Shut_Check], (k, w), left) 6
    = ([Shut_Done], sdk_shutdown os (k, w), left)"
    using assms
    by (auto simp: numeral_eq_Suc sdk_shutdown_def sdk_stop_def worker_stop_def Let_def)
  then show ?thesis ..
qed

text \<open>And the update thread alone, told the flag by a list, is \<open>unified_update_loop\<close>.\<close>

lemma unified_loop_segments:
  "unified_update_loop os seg (running # loads) kw =
     (if running then do { (seg, kw) \<leftarrow> run_segment os seg kw; unified_update_loop os seg loads kw }
      else Some (True, kw))"
  by (simp add: run_segment_def Let_def split: segment.splits)

section \<open>The update thread next to shutdown\<close>

definition live :: "'w sdk \<Rightarrow> bool" where
  "live kw \<longleftrightarrow> (\<exists>c. sdk_ready (fst kw) c)"

lemma live_session:
  assumes "live (k, w)"
  obtains fd where "in_session (\<lambda>w. ()) fd () k (k, w)"
  using assms that by (auto simp: live_def in_session_def on_line_def sdk_ready_def)

lemma session_live: "in_session obs fd v k kw \<Longrightarrow> live kw"
  by (auto simp: in_session_def live_def)

context world_observation
begin

lemma run_segment_session:
  assumes "no_short_replies (send_and_receive os)" and "in_session obs fd v k (k, w)"
  shows "\<exists>seg' kw'. run_segment os seg (k, w) = Some (seg', kw') \<and> in_session obs fd v k kw'"
proof (cases seg)
  case Motor_Segment
  then show ?thesis using motor_segment_session(2) [OF assms(2,1)] by (auto simp: run_segment_def Let_def)
next
  case (Encoder_Segment t)
  then show ?thesis using sensor_segments_session(1) [OF assms(2)] by (auto simp: run_segment_def)
next
  case (Imu_Segment t)
  obtain kw' where "imu_segment os (k, w) = Some kw'" "in_session obs fd v k kw'"
    using sensor_segments_session(2) [OF assms(2)] by blast
  with Imu_Segment sleep_rest_session [OF this(2), of t] show ?thesis by (auto simp: run_segment_def)
qed

end

lemma run_segment_live:
  assumes "no_short_replies (send_and_receive os)" and "live kw"
  obtains seg' kw' where "run_segment os seg kw = Some (seg', kw')" and "live kw'"
    and "sdk_worker (fst kw') = sdk_worker (fst kw)" and "sdk_initialized (fst kw') = sdk_initialized (fst kw)"
proof -
  obtain k w where kw: "kw = (k, w)" by (cases kw)
  obtain fd where s: "in_session (\<lambda>w. ()) fd () k (k, w)" using live_session assms(2) unfolding kw .
  from unobserved.run_segment_session [OF assms(1) this, of seg]
  obtain seg' kw' where r: "run_segment os seg kw = Some (seg', kw')"
    "in_session (\<lambda>w. ()) fd () k kw'" unfolding kw by blast
  then show thesis using that [OF r(1) session_live [OF r(2)]] by (simp add: in_session_def kw)
qed

lemma cleanup_frees:
  "sdk_motor_controller (fst (cleanup_resources os kw)) = None
   \<and> sdk_encoder_reader (fst (cleanup_resources os kw)) = None
   \<and> sdk_imu_reader (fst (cleanup_resources os kw)) = None"
  by (cases kw) (simp add: cleanup_resources_def Let_def split: option.splits prod.splits)

text \<open>What holds at each phase of the thread in \<open>shutdown\<close>, next to an update thread.\<close>

definition serving :: "GloveSDK \<Rightarrow> bool \<Rightarrow> bool \<Rightarrow> bool \<Rightarrow> bool" where
  "serving k initialized running joinable \<longleftrightarrow> (\<exists>c. sdk_ready k c) \<and> sdk_initialized k = initialized
     \<and> sdk_worker k = \<lparr>thread_running = running, thread_joinable = joinable\<rparr>"

fun shut_inv :: "phase list \<times> 'w shared \<Rightarrow> bool" where
  "shut_inv ([p, q], (k, w), left) \<longleftrightarrow>
     (left \<longleftrightarrow> p = Loop_Left) \<and> (left \<or> (\<exists>seg. p = Loop_Load seg \<or> p = Loop_Body seg))
   \<and> (case q of
        Shut_Check \<Rightarrow> serving k True True True \<and> \<not> left
      | Shut_Stop \<Rightarrow> serving k True True True \<and> \<not> left
      | Shut_Store \<Rightarrow> serving k True True True \<and> \<not> left
      | Shut_Join \<Rightarrow> serving k True False True
      | Shut_Clear \<Rightarrow> serving k True False False \<and> left
      | Shut_Release \<Rightarrow> serving k False False False \<and> left
      | Shut_Done \<Rightarrow> sdk_empty k \<and> \<not> sdk_initialized k \<and> left
      | _ \<Rightarrow> False)"
| "shut_inv _ = False"

lemma run_segment_serving:
  assumes "no_short_replies (send_and_receive os)" and "serving k i r j"
  obtains seg' k' w' where "run_segment os seg (k, w) = Some (seg', k', w')" and "serving k' i r j"
proof -
  have "live (k, w)" using assms(2) by (auto simp: live_def serving_def)
  from run_segment_live [OF assms(1) this, of seg] that assms(2) show thesis
    unfolding serving_def live_def by (metis fst_conv surj_pair)
qed

lemma sdk_ready_initialized [simp]: "sdk_ready (k\<lparr>sdk_initialized := b\<rparr>) = sdk_ready k"
  by (simp add: fun_eq_iff sdk_ready_def)

lemma serving_worker: "serving k i r j \<Longrightarrow> thread_running (sdk_worker k) = r
    \<and> thread_joinable (sdk_worker k) = j \<and> sdk_initialized k = i"
  by (simp add: serving_def)

lemma cleanup_serving:
  "serving k False False False \<Longrightarrow> sdk_empty (fst (cleanup_resources os (k, w)))
     \<and> \<not> sdk_initialized (fst (cleanup_resources os (k, w)))"
  using cleanup_empty [of k os w] by (auto simp: serving_def worker_new_def sdk_inv_def)

lemma shut_inv_turn:
  assumes short: "no_short_replies (send_and_receive os)" and inv: "shut_inv S"
  shows "shut_inv (turn (sdk_thread_step os use) i S)"
proof -
  obtain p q k w left where S: "S = ([p, q], (k, w), left)"
    using inv by (cases S rule: shut_inv.cases) auto
  consider "i = 0" | "i = 1" | "1 < i" by linarith
  then show ?thesis
  proof cases
    case 1
    show ?thesis
    proof (cases "\<exists>seg. p = Loop_Body seg")
      case True
      then obtain seg where p: "p = Loop_Body seg" by blast
      with inv S obtain i r j where k: "serving k i r j" "\<not> left" by (auto split: phase.splits)
      obtain seg' k' w' where "run_segment os seg (k, w) = Some (seg', k', w')" "serving k' i r j"
        using run_segment_serving [OF short k(1)] .
      with inv S 1 p k show ?thesis by (auto split: phase.splits dest: serving_worker)
    next
      case False
      with inv S 1 show ?thesis by (auto split: phase.splits if_splits dest: serving_worker)
    qed
  next
    case 2
    show ?thesis
    proof (cases "q = Shut_Release")
      case True
      with inv S cleanup_serving [of k os w] 2 show ?thesis
        by (cases "cleanup_resources os (k, w)") auto
    next
      case False
      with inv S 2 show ?thesis by (cases q) (auto simp: serving_def)
    qed
  next
    case 3
    then have "turn (sdk_thread_step os use) i S = S" unfolding S by simp
    with inv show ?thesis by simp
  qed
qed

lemma update_shut_inv:
  assumes "sdk_reachable os (k, w)" and "sdk_initialized k" and "thread_joinable (sdk_worker k)"
  shows "shut_inv ([Loop_Load seg, Shut_Check], (k, w), False)"
proof -
  have "sdk_inv k" using sdk_reachable_inv [OF assms(1)] by simp
  with assms(2,3) show ?thesis by (cases "sdk_worker k") (simp add: sdk_inv_def serving_def)
qed

fun shut_rank :: "phase list \<times> 'w shared \<Rightarrow> nat" where
  "shut_rank ([p, q], s) = (case q of
     Shut_Check \<Rightarrow> 9 | Shut_Stop \<Rightarrow> 8 | Shut_Store \<Rightarrow> 7
   | Shut_Join \<Rightarrow> (case p of Loop_Body seg \<Rightarrow> 6 | Loop_Load seg \<Rightarrow> 5 | _ \<Rightarrow> 4)
   | Shut_Clear \<Rightarrow> 3 | Shut_Release \<Rightarrow> 2 | _ \<Rightarrow> 0)"
| "shut_rank _ = 0"

definition shut_mover :: "nat \<Rightarrow> nat" where
  "shut_mover r = (if r = 5 \<or> r = 6 then 0 else 1)"

lemma shut_rank_turn:
  assumes "no_short_replies (send_and_receive os)" and "shut_inv S"
  shows "shut_rank (turn (sdk_thread_step os use) i S) \<le> shut_rank S"
    and "0 < shut_rank S \<Longrightarrow>
      shut_rank (turn (sdk_thread_step os use) (shut_mover (shut_rank S)) S) < shut_rank S"
proof -
  obtain p q k w left where S: "S = ([p, q], (k, w), left)"
    using assms(2) by (cases S rule: shut_inv.cases) auto
  have body: "\<exists>seg' kw'. run_segment os seg (k, w) = Some (seg', kw')" if "p = Loop_Body seg" for seg
  proof -
    from assms(2) S that obtain i r j where "serving k i r j" by (auto split: phase.splits)
    from run_segment_serving [OF assms(1) this, of seg] show ?thesis by metis
  qed
  have loop: "shut_rank (turn (sdk_thread_step os use) 0 S) \<le> shut_rank S
    \<and> (shut_rank S = 5 \<or> shut_rank S = 6 \<longrightarrow> shut_rank (turn (sdk_thread_step os use) 0 S) < shut_rank S)"
  proof (cases "\<exists>seg. p = Loop_Body seg")
    case True
    then obtain seg seg' kw' where "p = Loop_Body seg" "run_segment os seg (k, w) = Some (seg', kw')"
      using body by blast
    with S show ?thesis by (simp split: phase.splits)
  next
    case False
    with assms(2) S show ?thesis by (auto split: phase.splits dest: serving_worker)
  qed
  have shut: "shut_rank (turn (sdk_thread_step os use) 1 S) \<le> shut_rank S
    \<and> (0 < shut_rank S \<and> shut_rank S \<noteq> 5 \<and> shut_rank S \<noteq> 6 \<longrightarrow>
       shut_rank (turn (sdk_thread_step os use) 1 S) < shut_rank S)"
    using assms(2) S by (cases q) (auto dest: serving_worker split: phase.splits)
  consider "i = 0" | "i = 1" | "1 < i" by linarith
  then show "shut_rank (turn (sdk_thread_step os use) i S) \<le> shut_rank S"
    using loop shut S by cases simp_all
  show "shut_rank (turn (sdk_thread_step os use) (shut_mover (shut_rank S)) S) < shut_rank S"
    if "0 < shut_rank S"
    using loop shut that by (simp add: shut_mover_def)
qed

section \<open>Properties\<close>

text \<open>
  Shutting down a running SDK. On every schedule of the update thread and a thread in \<open>shutdown\<close>, with
  replies the parser can take, neither thread ever runs into undefined behaviour, and when
  \<open>shutdown\<close> has returned the update thread has ended and nothing is left of the components.
\<close>

lemma shutdown_waits_for_update_thread:
  assumes "no_short_replies (send_and_receive os)" and "sdk_reachable os (k, w)"
    and "sdk_initialized k" and "thread_joinable (sdk_worker k)"
    and "run_turns (sdk_thread_step os use) sched ([Loop_Load Motor_Segment, Shut_Check], (k, w), False) n
      = ([p, q], (k', w'), left)"
  shows "p \<noteq> Undefined \<and> q \<noteq> Undefined \<and> (q = Shut_Done \<longrightarrow> p = Loop_Left \<and> sdk_empty k')"
proof -
  have "shut_inv ([p, q], (k', w'), left)"
    using run_turns_invariant [of shut_inv, OF shut_inv_turn [OF assms(1)] update_shut_inv [OF assms(2-4)]]
    unfolding assms(5) [symmetric] .
  then show ?thesis by (auto split: phase.splits)
qed

text \<open>
  The join of \<open>shutdown\<close> ends. On every fair schedule \<open>shutdown\<close> returns, however the update thread was
  under way, and the SDK stays shut down.
\<close>

lemma shutdown_returns:
  assumes "no_short_replies (send_and_receive os)" and "sdk_reachable os (k, w)"
    and "sdk_initialized k" and "thread_joinable (sdk_worker k)" and "fair 2 sched"
  shows "\<exists>n k' w'. run_turns (sdk_thread_step os use) sched ([Loop_Load Motor_Segment, Shut_Check], (k, w), False) n
    = ([Loop_Left, Shut_Done], (k', w'), True)"
proof -
  let ?run = "run_turns (sdk_thread_step os use) sched ([Loop_Load Motor_Segment, Shut_Check], (k, w), False)"
  note start = update_shut_inv [OF assms(2-4)]
  have "\<exists>m \<ge> 0. shut_rank (?run m) = 0"
  proof (rule fair_termination [OF assms(5), where good = shut_inv and mover = shut_mover])
    show "shut_inv (?run 0)" using start by simp
  qed (use shut_inv_turn [OF assms(1)] shut_rank_turn [OF assms(1)] in \<open>auto simp: shut_mover_def\<close>)
  then obtain m where m: "shut_rank (?run m) = 0" by blast
  have i: "shut_inv (?run m)"
    by (rule run_turns_invariant) (use shut_inv_turn [OF assms(1)] start in auto)
  then obtain p q k' w' left where S: "?run m = ([p, q], (k', w'), left)"
    by (cases "?run m" rule: shut_inv.cases) auto
  from i m S have "p = Loop_Left" "q = Shut_Done" "left" by (auto split: phase.splits)
  with S have "?run m = ([Loop_Left, Shut_Done], (k', w'), True)" by simp
  then show ?thesis by blast
qed

text \<open>
  C37. A method that forwards to a component, next to \<open>shutdown\<close>. The method checks \<open>initialized_\<close> once, before it follows the
  pointer, and \<open>shutdown\<close> does not wait for it: in every reachable initialised state, with the unified thread at a load of its flag
  if there is one, there is a schedule on which \<open>shutdown\<close> returns and the method then dereferences a null pointer, whichever component it
  is for. That \<open>shutdown\<close> does wait for the unified thread is of no help.
\<close>

theorem call_races_with_shutdown:
  assumes "sdk_reachable os (k, w)" and "sdk_initialized k"
    and "use = via_motor f \<or> use = via_encoder g \<or> use = via_imu h"
    and "loop = (if thread_joinable (sdk_worker k) then Loop_Load seg else Loop_Left)"
  shows "\<exists>sched n. fst (run_turns (sdk_thread_step os use) sched ([Call_Check, Shut_Check, loop], (k, w), False) n)
    = [Undefined, Shut_Done, Loop_Left]"
proof -
  let ?sched = "\<lambda>n. [0, 1, 1, 1, 2, 1, 1, 1, 0] ! n"
  have inv: "thread_joinable (sdk_worker k) \<longrightarrow> thread_running (sdk_worker k)"
    using sdk_reachable_inv [OF assms(1)] by (simp add: sdk_inv_def)
  have use: "use (cleanup_resources os kw) = None" for kw
    using assms(3) cleanup_frees [of os kw] by (cases "cleanup_resources os kw") (auto simp: via_motor_def via_encoder_def via_imu_def)
  have "fst (run_turns (sdk_thread_step os use) ?sched ([Call_Check, Shut_Check, loop], (k, w), False) 9)
    = [Undefined, Shut_Done, Loop_Left]"
    using assms(2,4) inv use by (cases "thread_running (sdk_worker k)"; cases "thread_joinable (sdk_worker k)")
      (simp_all add: numeral_eq_Suc ensure_initialized_def)
  then show ?thesis by blast
qed

lemma shutdown_waits_for_update_thread_instance:
  "\<exists>k w k' w'. thread_running (sdk_worker k)
     \<and> run_turns (sdk_thread_step (device_os demo_reply) (\<lambda>kw. None)) (\<lambda>n. n mod 2)
         ([Loop_Load Motor_Segment, Shut_Check], (k, w), False) 1
       = ([Loop_Body Motor_Segment, Shut_Check], (k', w'), False)
     \<and> Loop_Body Motor_Segment \<noteq> Undefined"
proof -
  obtain k w where kw: "sdk_reachable (device_os demo_reply) (k, w)" "sdk_initialized k"
    "thread_running (sdk_worker k)" "thread_joinable (sdk_worker k)" by (rule demo_running)
  have step: "run_turns (sdk_thread_step (device_os demo_reply) (\<lambda>kw. None)) (\<lambda>n. n mod 2)
      ([Loop_Load Motor_Segment, Shut_Check], (k, w), False) 1
    = ([Loop_Body Motor_Segment, Shut_Check], (k, w), False)"
    using kw(3) by simp
  from shutdown_waits_for_update_thread [OF no_short_replies_demo kw(1,2,4) step] kw(3) step
  show ?thesis by blast
qed

lemma shutdown_returns_instance:
  "\<exists>k w n k' w'. thread_running (sdk_worker k)
     \<and> run_turns (sdk_thread_step (device_os demo_reply) (\<lambda>kw. None)) (\<lambda>n. n mod 2)
         ([Loop_Load Motor_Segment, Shut_Check], (k, w), False) n
       = ([Loop_Left, Shut_Done], (k', w'), True)"
proof -
  obtain k w where kw: "sdk_reachable (device_os demo_reply) (k, w)" "sdk_initialized k"
    "thread_running (sdk_worker k)" "thread_joinable (sdk_worker k)" by (rule demo_running)
  have "fair 2 (\<lambda>n. n mod 2)" by (rule fair_round_robin) simp
  from shutdown_returns [OF no_short_replies_demo kw(1,2,4) this] kw(3) show ?thesis by blast
qed

theorem call_races_with_shutdown_witness:
  "\<exists>k w sched n. sdk_initialized k \<and> thread_joinable (sdk_worker k)
     \<and> fst (run_turns (sdk_thread_step (device_os demo_reply)
         (via_motor (\<lambda>(m, s). do { (ok, s) \<leftarrow> set_motor_mode (send_and_receive (device_os demo_reply)) 1 0 s; Some (ok, m, s) })))
         sched ([Call_Check, Shut_Check, Loop_Load Motor_Segment], (k, w), False) n) = [Undefined, Shut_Done, Loop_Left]"
proof -
  let ?os = "device_os demo_reply"
  obtain k w where kw: "sdk_reachable ?os (k, w)" "sdk_initialized k" "thread_joinable (sdk_worker k)"
    by (rule demo_running)
  from call_races_with_shutdown [OF kw(1,2) disjI1 [OF refl] refl, of _ Motor_Segment] kw(2,3)
  show ?thesis by (simp only: if_True) blast
qed

end
