(* ===== verification/Lifecycle.thy ===== *)
theory Lifecycle
  imports Sdk_Threads
begin

text \<open>
  The life of the SDK under several threads. \<open>initialize\<close> and \<open>shutdown\<close> hold \<open>init_mutex_\<close>; \<open>start\<close> and \<open>stop\<close>
  take no lock. Here each of the four is the list of its loads, stores and calls on the members that make up
  the life of the SDK, every failure included (a component that does not connect or initialise, a thread that
  cannot be created); threads interleave between any two steps, and for every pair of calls from every
  settled state the set of all endings is computed: the configurations that can be reached are finitely many,
  and \<open>explore\<close> visits them all. Each operation on a member is one step; that the standard calls unsynchronised
  operations on the handle of a thread a data race is not part of the model.
\<close>

section \<open>Exploring finitely many configurations\<close>

text \<open>
  Level by level: \<open>cs\<close> are the configurations met after the same number of moves, \<open>ends\<close> those met so far that
  have no move.
\<close>

fun explore :: "('c \<Rightarrow> 'c list) \<Rightarrow> nat \<Rightarrow> 'c list \<Rightarrow> 'c list \<Rightarrow> 'c list option" where
  "explore succs n ends [] = Some ends"
| "explore succs 0 ends (c # cs) = None"
| "explore succs (Suc n) ends (c # cs) =
     (let nexts = map (\<lambda>c. (c, succs c)) (c # cs)
      in explore succs n (map fst (filter (\<lambda>(c, ds). ds = []) nexts) @ ends) (remdups (concat (map snd nexts))))"

definition finals_from :: "('c \<Rightarrow> 'c list) \<Rightarrow> 'c set \<Rightarrow> 'c set" where
  "finals_from succs cs = {d. succs d = [] \<and> (\<exists>c \<in> cs. (\<lambda>c d. d \<in> set (succs c))\<^sup>*\<^sup>* c d)}"

lemma reaches_first_step: "R\<^sup>*\<^sup>* c d \<longleftrightarrow> c = d \<or> (\<exists>b. R c b \<and> R\<^sup>*\<^sup>* b d)"
  by (metis converse_rtranclpE converse_rtranclp_into_rtranclp rtranclp.rtrancl_refl)

lemma finals_from_step:
  "finals_from succs cs = {c \<in> cs. succs c = []} \<union> finals_from succs (\<Union>c \<in> cs. set (succs c))"
proof -
  let ?R = "\<lambda>c d. d \<in> set (succs c)"
  have "(\<exists>c \<in> cs. ?R\<^sup>*\<^sup>* c d) \<longleftrightarrow> (\<exists>c \<in> cs. c = d \<or> (\<exists>b. ?R c b \<and> ?R\<^sup>*\<^sup>* b d))" for d
    by (rule bex_cong [OF refl]) (rule reaches_first_step)
  then show ?thesis unfolding finals_from_def by auto
qed

lemma ends_of_level: "map fst (filter (\<lambda>(c, ds). ds = []) (map (\<lambda>c. (c, succs c)) cs)) = filter (\<lambda>c. succs c = []) cs"
  by (induction cs) auto

lemma explore_finals:
  "explore succs n ends cs = Some fs \<Longrightarrow> set fs = set ends \<union> finals_from succs (set cs)"
proof (induction succs n ends cs rule: explore.induct)
  case (3 succs n ends c cs)
  let ?nexts = "map (\<lambda>c. (c, succs c)) (c # cs)"
  have "set (remdups (concat (map snd ?nexts))) = (\<Union>c \<in> set (c # cs). set (succs c))" by auto
  moreover have "set fs = set (map fst (filter (\<lambda>(c, ds). ds = []) ?nexts) @ ends) \<union> finals_from succs (set (remdups (concat (map snd ?nexts))))"
    using 3 by (simp only: explore.simps Let_def)
  ultimately show ?case
    using finals_from_step [of succs "set (c # cs)"] unfolding ends_of_level by auto
qed (simp_all add: finals_from_def)

section \<open>The calls as lists of steps\<close>

text \<open>
  The members: the two flags, the thread behind \<open>update_thread_\<close>, if there is one, the threads that are
  constructed and not yet moved into \<open>update_thread_\<close> (under the number of the call that constructed them),
  whether a join is under way, whether \<open>init_mutex_\<close> is held, and the components that exist, in the order
  of their creation. \<open>lf_fate\<close> says whether the program still runs. A thread is about to load the flag for the
  first time, in its loop, where it uses the components, or has left the loop.
\<close>

datatype fate = Alive | Terminated | Joined_Twice | Raced

datatype sdk_part = Part_Client | Part_Motor | Part_Encoder | Part_Imu

datatype loop_phase = Fresh | In_Loop | Left_Loop

record life =
  lf_initialized :: bool
  lf_running :: bool
  lf_handle :: "loop_phase option"
  lf_temps :: "(nat \<times> loop_phase) list"
  lf_joining :: bool
  lf_locked :: bool
  lf_built :: "sdk_part list"
  lf_fate :: fate

text \<open>
  A step of a call; \<open>Unless_x n\<close> skips the next \<open>n\<close> steps when \<open>x\<close> does not hold, which is how the early returns
  are written, and \<open>Skip n\<close> skips them always. \<open>Make c n\<close> creates the component \<open>c\<close> and connects or initialises it,
  which may fail: then the next \<open>n\<close> steps, up to the clean-up, are skipped. \<open>Construct_Thread\<close> is the
  construction of the \<open>std::thread\<close>, which may throw, and \<open>Move_Thread\<close> the assignment to \<open>update_thread_\<close>;
  \<open>Enter_Join\<close> and \<open>Leave_Join\<close> are the two ends of \<open>join\<close>.
\<close>

datatype instr =
    Lock | Unlock | Skip nat
  | Unless_Initialized nat | Unless_Down nat | Set_Initialized | Clear_Initialized
  | Unless_Running nat | Unless_Stopped nat | Set_Running | Clear_Running
  | Construct_Thread | Move_Thread | Unless_Joinable nat | Enter_Join | Leave_Join
  | Make sdk_part nat | Clean_Up

definition start_code :: "instr list" where
  "start_code = [Unless_Initialized 4, Unless_Stopped 3, Set_Running, Construct_Thread, Move_Thread]"

definition stop_code :: "instr list" where
  "stop_code = [Unless_Running 4, Clear_Running, Unless_Joinable 2, Enter_Join, Leave_Join]"

definition shutdown_code :: "instr list" where
  "shutdown_code = Lock # Unless_Initialized (length stop_code + 2) # stop_code @ [Clear_Initialized, Clean_Up, Unlock]"

text \<open>
  \<open>initialize\<close>, with or without \<open>auto_start_thread\<close>: every component that fails leads to \<open>cleanup_resources\<close> and the
  end of the call; after the last one the flag is set and \<open>start\<close> is called, whose exception leaves the call.
\<close>

definition initialize_code :: "bool \<Rightarrow> instr list" where
  "initialize_code auto_start =
     (let rest = Set_Initialized # (if auto_start then start_code else []) @ [Skip 1];
          rest = Make Part_Imu (length rest) # rest;
          rest = Make Part_Encoder (length rest) # rest;
          rest = Make Part_Motor (length rest) # rest;
          rest = Make Part_Client (length rest) # rest
      in Lock # Unless_Down (length rest + 1) # rest @ [Clean_Up, Unlock])"

datatype life_call = Start | Stop | Shutdown | Initialize bool

fun code_of :: "life_call \<Rightarrow> instr list" where
  "code_of Start = start_code"
| "code_of Stop = stop_code"
| "code_of Shutdown = shutdown_code"
| "code_of (Initialize auto_start) = initialize_code auto_start"

text \<open>
  A thread of the program: the update threads, a call with its number and the number of steps it is past, or a
  call that an exception has left, from the construction of the thread or from a join without a thread. A call
  that throws gives the mutex back if it is one that holds it.
\<close>

datatype life_error = No_Thread | Not_Joinable

datatype life_thread = Update_Threads | Call nat life_call nat | Threw life_error

definition throws :: "life_error \<Rightarrow> life_call \<Rightarrow> life \<Rightarrow> life_thread \<times> life" where
  "throws e c s = (Threw e, if Unlock \<in> set (code_of c) then s\<lparr>lf_locked := False\<rparr> else s)"

definition in_use :: "life \<Rightarrow> bool" where
  "in_use s \<longleftrightarrow> lf_handle s = Some In_Loop \<or> In_Loop \<in> set (map snd (lf_temps s))"

text \<open>The ways a step of the call \<open>c\<close> with the number \<open>me\<close> can go; \<open>go n\<close> goes on after \<open>n\<close> skipped steps.\<close>

fun instr_step :: "instr \<Rightarrow> nat \<Rightarrow> life_call \<Rightarrow> (nat \<Rightarrow> life_thread) \<Rightarrow> life \<Rightarrow> (life_thread \<times> life) list" where
  "instr_step Lock me c go s = (if lf_locked s then [] else [(go 0, s\<lparr>lf_locked := True\<rparr>)])"
| "instr_step Unlock me c go s = [(go 0, s\<lparr>lf_locked := False\<rparr>)]"
| "instr_step (Skip n) me c go s = [(go n, s)]"
| "instr_step (Unless_Initialized n) me c go s = [(go (if lf_initialized s then 0 else n), s)]"
| "instr_step (Unless_Down n) me c go s = [(go (if \<not> lf_initialized s then 0 else n), s)]"
| "instr_step Set_Initialized me c go s = [(go 0, s\<lparr>lf_initialized := True\<rparr>)]"
| "instr_step Clear_Initialized me c go s = [(go 0, s\<lparr>lf_initialized := False\<rparr>)]"
| "instr_step (Unless_Running n) me c go s = [(go (if lf_running s then 0 else n), s)]"
| "instr_step (Unless_Stopped n) me c go s = [(go (if \<not> lf_running s then 0 else n), s)]"
| "instr_step Set_Running me c go s = [(go 0, s\<lparr>lf_running := True\<rparr>)]"
| "instr_step Clear_Running me c go s = [(go 0, s\<lparr>lf_running := False\<rparr>)]"
| "instr_step Construct_Thread me c go s =
     [(go 0, s\<lparr>lf_temps := lf_temps s @ [(me, Fresh)]\<rparr>), throws No_Thread c s]"
| "instr_step Move_Thread me c go s = [(go 0,
     if lf_handle s \<noteq> None then s\<lparr>lf_fate := Terminated\<rparr>
     else s\<lparr>lf_handle := map_of (lf_temps s) me, lf_temps := filter (\<lambda>(n, _). n \<noteq> me) (lf_temps s)\<rparr>)]"
| "instr_step (Unless_Joinable n) me c go s = [(go (if lf_handle s \<noteq> None then 0 else n), s)]"
| "instr_step Enter_Join me c go s =
     (if lf_handle s = None then [throws Not_Joinable c s]
      else if lf_joining s then [(go 0, s\<lparr>lf_fate := Joined_Twice\<rparr>)]
      else [(go 0, s\<lparr>lf_joining := True\<rparr>)])"
| "instr_step Leave_Join me c go s =
     (if lf_handle s = Some Left_Loop then [(go 0, s\<lparr>lf_handle := None, lf_joining := False\<rparr>)] else [])"
| "instr_step (Make x n) me c go s =
     (if in_use s then [(go 0, s\<lparr>lf_fate := Raced\<rparr>)]
      else let s = s\<lparr>lf_built := lf_built s @ [x]\<rparr> in [(go 0, s), (go n, s)])"
| "instr_step Clean_Up me c go s =
     [(go 0, if in_use s then s\<lparr>lf_fate := Raced\<rparr> else s\<lparr>lf_built := []\<rparr>)]"

text \<open>An update thread enters its loop when it finds the flag set and leaves it when it finds it cleared.\<close>

fun loop_step :: "bool \<Rightarrow> loop_phase \<Rightarrow> loop_phase option" where
  "loop_step running Fresh = Some (if running then In_Loop else Left_Loop)"
| "loop_step running In_Loop = (if running then None else Some Left_Loop)"
| "loop_step running Left_Loop = None"

definition loop_steps :: "life \<Rightarrow> (life_thread \<times> life) list" where
  "loop_steps s =
     (case Option.bind (lf_handle s) (loop_step (lf_running s)) of
        None \<Rightarrow> [] | Some p \<Rightarrow> [(Update_Threads, s\<lparr>lf_handle := Some p\<rparr>)])
     @ concat (map (\<lambda>i. case loop_step (lf_running s) (snd (lf_temps s ! i)) of
         None \<Rightarrow> []
       | Some p \<Rightarrow> [(Update_Threads, s\<lparr>lf_temps := (lf_temps s)[i := (fst (lf_temps s ! i), p)]\<rparr>)])
       [0..<length (lf_temps s)])"

text \<open>Once the program is at its end nothing moves.\<close>

fun thread_steps :: "life_thread \<Rightarrow> life \<Rightarrow> (life_thread \<times> life) list" where
  "thread_steps Update_Threads s = loop_steps s"
| "thread_steps (Call me c pc) s =
     (if pc < length (code_of c) then instr_step (code_of c ! pc) me c (\<lambda>n. Call me c (Suc (pc + n))) s else [])"
| "thread_steps (Threw e) s = []"

definition life_step :: "life_thread \<times> life \<Rightarrow> (life_thread \<times> life) list" where
  "life_step ts = (case ts of (t, s) \<Rightarrow> if lf_fate s = Alive then thread_steps t s else [])"

abbreviation life_move :: "life_thread list \<times> life \<Rightarrow> life_thread list \<times> life \<Rightarrow> bool" where
  "life_move \<equiv> interleave (\<lambda>x y. y \<in> set (life_step x))"

text \<open>All steps of a configuration.\<close>

definition life_succs :: "life_thread list \<times> life \<Rightarrow> (life_thread list \<times> life) list" where
  "life_succs c = (case c of (ts, s) \<Rightarrow>
     concat (map (\<lambda>i. map (\<lambda>(t, s'). (ts[i := t], s')) (life_step (ts ! i, s))) [0..<length ts]))"

lemma life_succs_interleave: "d \<in> set (life_succs c) \<longleftrightarrow> life_move c d"
proof -
  obtain ts s ts' s' where c: "c = (ts, s)" "d = (ts', s')" by (cases c, cases d)
  have "d \<in> set (life_succs c) \<longleftrightarrow> (\<exists>i < length ts. \<exists>t. (t, s') \<in> set (life_step (ts ! i, s)) \<and> ts' = ts[i := t])"
    unfolding c life_succs_def by (auto simp: image_iff Bex_def)
  also have "\<dots> \<longleftrightarrow> life_move c d"
    unfolding c by (auto elim!: interleaveE intro!: thread_step)
  finally show ?thesis .
qed

text \<open>Every step consumes something, so every schedule comes to an end.\<close>

fun phase_size :: "loop_phase \<Rightarrow> nat" where
  "phase_size Fresh = 2" | "phase_size In_Loop = 1" | "phase_size Left_Loop = 0"

fun thread_size :: "life_thread \<Rightarrow> nat" where
  "thread_size (Call me c pc) = 3 * (length (code_of c) - pc)" | "thread_size _ = 0"

definition loops_size :: "life \<Rightarrow> nat" where
  "loops_size s = (case lf_handle s of None \<Rightarrow> 0 | Some p \<Rightarrow> phase_size p) + sum_list (map (phase_size \<circ> snd) (lf_temps s))"

definition life_size :: "life_thread list \<times> life \<Rightarrow> nat" where
  "life_size c = (case c of (ts, s) \<Rightarrow> sum_list (map thread_size ts) + loops_size s)"

lemma temps_move_size:
  "(case map_of xs me of None \<Rightarrow> 0 | Some p \<Rightarrow> phase_size p)
     + sum_list (map (phase_size \<circ> snd) (filter (\<lambda>(n, _). n \<noteq> me) xs)) \<le> sum_list (map (phase_size \<circ> snd) xs)"
proof (induction xs)
  case (Cons x xs)
  have "sum_list (map (phase_size \<circ> snd) (filter P xs)) \<le> sum_list (map (phase_size \<circ> snd) xs)" for P
    by (induction xs) auto
  with Cons show ?case by (cases x) auto
qed simp

lemma instr_step_size:
  assumes "(t, s') \<in> set (instr_step i me c (\<lambda>n. Call me c (Suc (pc + n))) s)" and "pc < length (code_of c)"
  shows "thread_size t + loops_size s' < thread_size (Call me c pc) + loops_size s"
proof (cases i)
  case Move_Thread
  with assms temps_move_size [of "lf_temps s" me] show ?thesis
    by (auto simp: loops_size_def split: if_splits option.splits)
qed (use assms in \<open>auto simp: loops_size_def throws_def Let_def split: if_splits option.splits\<close>)

lemma loop_step_size: "Some q = loop_step b p \<Longrightarrow> phase_size q < phase_size p"
  by (cases p) (auto split: if_splits)

lemma loop_steps_size:
  assumes "(t, s') \<in> set (loop_steps s)"
  shows "t = Update_Threads \<and> loops_size s' < loops_size s"
proof -
  have temps: "sum_list (map (phase_size \<circ> snd) (xs[i := (n, q)])) < sum_list (map (phase_size \<circ> snd) xs)"
    if "i < length xs" "phase_size q < phase_size (snd (xs ! i))" for xs :: "(nat \<times> loop_phase) list" and i n q
    using that by (induction xs arbitrary: i) (auto simp: nth_Cons split: nat.splits)
  from assms show ?thesis
    unfolding loop_steps_def
    by (auto simp: loops_size_def bind_eq_Some_conv dest: loop_step_size [OF sym] loop_step_size intro!: temps split: option.splits)
qed

lemma life_step_size:
  "(t', s') \<in> set (life_step (t, s)) \<Longrightarrow> thread_size t' + loops_size s' < thread_size t + loops_size s"
  by (cases t) (auto simp: life_step_def simp del: thread_size.simps split: if_splits dest: instr_step_size loop_steps_size)

lemma life_ends:
  assumes "life_move c d"
  shows "life_size d < life_size c"
proof -
  obtain ts s ts' s' where c: "c = (ts, s)" "d = (ts', s')" by (cases c, cases d)
  from assms [unfolded c] obtain i t' where i: "ts' = ts[i := t']" "i < length ts" "(t', s') \<in> set (life_step (ts ! i, s))"
    by (auto elim: interleaveE)
  have "sum_list (map thread_size ts') + thread_size (ts ! i) = sum_list (map thread_size ts) + thread_size t'"
    unfolding i(1) by (rule sum_list_map_update [OF i(2)])
  with life_step_size [OF i(3)] show ?thesis by (simp add: c life_size_def)
qed

lemma life_terminates: "wfp (\<lambda>d c. life_move c d)"
  by (rule wfp_if_convertible_to_nat [where f = life_size]) (rule life_ends)

section \<open>Endings\<close>

text \<open>
  How a configuration in which nothing moves has ended: the program terminated (a thread was moved over a joinable
  one); two joins ran at the same time, which is undefined; components
  were created or freed while an update thread was in its loop; a join was called on a thread that is not joinable,
  which throws; a call waits forever; a thread is left on an SDK that is not initialised, which nothing will ever
  join; some components exist and others do not; a thread that has left its loop is not joined; the flag is set without
  a thread, after a call that has thrown since the thread could not be created, or without one; or all is well,
  and the SDK is down, ready or running.
\<close>

datatype ending = Ends_Terminated | Ends_Joined_Twice | Ends_Raced | Ends_Join_Threw | Ends_Waiting | Ends_Stray
  | Ends_Partial | Ends_Thread_Only | Ends_Start_Failed | Ends_Flag_Only | Ends_Down | Ends_Ready | Ends_Running

definition all_parts :: "sdk_part list" where
  "all_parts = [Part_Client, Part_Motor, Part_Encoder, Part_Imu]"

fun unfinished :: "life_thread \<Rightarrow> bool" where
  "unfinished (Call me c pc) \<longleftrightarrow> pc < length (code_of c)" | "unfinished _ \<longleftrightarrow> False"

fun ending_of :: "life_thread list \<times> life \<Rightarrow> ending" where
  "ending_of (ts, s) =
     (if lf_fate s = Terminated then Ends_Terminated
      else if lf_fate s = Joined_Twice then Ends_Joined_Twice
      else if lf_fate s = Raced then Ends_Raced
      else if Threw Not_Joinable \<in> set ts then Ends_Join_Threw
      else if \<exists>t \<in> set ts. unfinished t then Ends_Waiting
      else if lf_handle s \<noteq> None \<and> \<not> lf_initialized s then Ends_Stray
      else if lf_built s \<noteq> (if lf_initialized s then all_parts else []) then Ends_Partial
      else if lf_handle s = Some Left_Loop then Ends_Thread_Only
      else if lf_handle s = None \<and> lf_running s
        then if Threw No_Thread \<in> set ts then Ends_Start_Failed else Ends_Flag_Only
      else if \<not> lf_initialized s then Ends_Down
      else if lf_running s then Ends_Running else Ends_Ready)"

text \<open>The configurations in which the calls have come to an end, next to the update threads.\<close>

definition life_threads :: "life_call list \<Rightarrow> life_thread list" where
  "life_threads calls = Update_Threads # map (\<lambda>(me, c). Call me c 0) (enumerate 1 calls)"

definition life_finals :: "life \<Rightarrow> life_call list \<Rightarrow> (life_thread list \<times> life) set" where
  "life_finals s calls = {c. life_move\<^sup>*\<^sup>* (life_threads calls, s) c \<and> (\<forall>d. \<not> life_move c d)}"

definition endings :: "life \<Rightarrow> life_call list \<Rightarrow> ending set" where
  "endings s calls = ending_of ` life_finals s calls"

definition all_endings :: "ending list" where
  "all_endings = [Ends_Terminated, Ends_Joined_Twice, Ends_Raced, Ends_Join_Threw, Ends_Waiting, Ends_Stray,
     Ends_Partial, Ends_Thread_Only, Ends_Start_Failed, Ends_Flag_Only, Ends_Down, Ends_Ready, Ends_Running]"

definition explored_finals :: "life \<Rightarrow> life_call list \<Rightarrow> (life_thread list \<times> life) list option" where
  "explored_finals s calls = map_option remdups (explore life_succs 100 [] [(life_threads calls, s)])"

definition explored_endings :: "life \<Rightarrow> life_call list \<Rightarrow> ending list option" where
  "explored_endings s calls =
     map_option (\<lambda>cs. let es = map ending_of cs in filter (\<lambda>e. List.member es e) all_endings) (explored_finals s calls)"

lemma explored_finals_exact:
  assumes "explored_finals s calls = Some fs"
  shows "life_finals s calls = set fs"
proof -
  have "life_succs c = [] \<longleftrightarrow> (\<forall>d. \<not> life_move c d)" for c
    unfolding life_succs_interleave [symmetric] by (cases "life_succs c") auto
  moreover from assms have "set fs = finals_from life_succs {(life_threads calls, s)}"
    by (auto simp: explored_finals_def dest: explore_finals)
  ultimately show ?thesis unfolding life_finals_def finals_from_def life_succs_interleave by auto
qed

lemma explored_endings_exact:
  assumes "explored_endings s calls = Some es"
  shows "endings s calls = set es"
proof -
  obtain cs where cs: "explored_finals s calls = Some cs" "es = filter (\<lambda>e. List.member (map ending_of cs) e) all_endings"
    using assms unfolding explored_endings_def map_option_eq_Some Let_def by blast
  have "e \<in> set all_endings" for e by (cases e) (simp_all add: all_endings_def)
  then have "set es = ending_of ` set cs" unfolding cs(2) by (auto simp: List.member_iff)
  then show ?thesis by (simp add: endings_def explored_finals_exact [OF cs(1)])
qed

text \<open>The settled states, and the one that a failed creation of the thread leaves: the flag set and no thread.\<close>

definition life_down :: life where
  "life_down = \<lparr>lf_initialized = False, lf_running = False, lf_handle = None, lf_temps = [], lf_joining = False,
     lf_locked = False, lf_built = [], lf_fate = Alive\<rparr>"

definition life_ready :: life where
  "life_ready = life_down\<lparr>lf_initialized := True, lf_built := all_parts\<rparr>"

definition life_running :: life where
  "life_running = life_ready\<lparr>lf_running := True, lf_handle := Some In_Loop\<rparr>"

definition life_flagged :: life where
  "life_flagged = life_ready\<lparr>lf_running := True\<rparr>"

section \<open>The table\<close>

lemma start_next_to_start:
  "explored_endings life_down [Start, Start] = Some [Ends_Down]"
  "explored_endings life_ready [Start, Start] = Some [Ends_Terminated, Ends_Start_Failed, Ends_Running]"
  "explored_endings life_running [Start, Start] = Some [Ends_Running]"
  "explored_endings life_flagged [Start, Start] = Some [Ends_Flag_Only]"
  by code_simp+

lemma start_next_to_stop:
  "explored_endings life_down [Start, Stop] = Some [Ends_Down]"
  "explored_endings life_ready [Start, Stop] = Some [Ends_Thread_Only, Ends_Start_Failed, Ends_Ready, Ends_Running]"
  "explored_endings life_running [Start, Stop] = Some [Ends_Terminated, Ends_Waiting, Ends_Start_Failed, Ends_Ready, Ends_Running]"
  "explored_endings life_flagged [Start, Stop] = Some [Ends_Waiting, Ends_Start_Failed, Ends_Ready, Ends_Running]"
  by code_simp+

lemma start_next_to_shutdown:
  "explored_endings life_down [Start, Shutdown] = Some [Ends_Down]"
  "explored_endings life_ready [Start, Shutdown] = Some [Ends_Raced, Ends_Stray, Ends_Start_Failed, Ends_Down]"
  "explored_endings life_running [Start, Shutdown] = Some [Ends_Terminated, Ends_Raced, Ends_Waiting, Ends_Stray, Ends_Start_Failed, Ends_Down]"
  "explored_endings life_flagged [Start, Shutdown] = Some [Ends_Raced, Ends_Waiting, Ends_Stray, Ends_Start_Failed, Ends_Down]"
  by code_simp+

lemma start_next_to_plain_initialize:
  "explored_endings life_down [Start, Initialize False] = Some [Ends_Start_Failed, Ends_Down, Ends_Ready, Ends_Running]"
  "explored_endings life_ready [Start, Initialize False] = Some [Ends_Start_Failed, Ends_Running]"
  "explored_endings life_running [Start, Initialize False] = Some [Ends_Running]"
  "explored_endings life_flagged [Start, Initialize False] = Some [Ends_Flag_Only]"
  by code_simp+

lemma start_next_to_starting_initialize:
  "explored_endings life_down [Start, Initialize True] = Some [Ends_Terminated, Ends_Start_Failed, Ends_Down, Ends_Running]"
  "explored_endings life_ready [Start, Initialize True] = Some [Ends_Start_Failed, Ends_Running]"
  "explored_endings life_running [Start, Initialize True] = Some [Ends_Running]"
  "explored_endings life_flagged [Start, Initialize True] = Some [Ends_Flag_Only]"
  by code_simp+

lemma stop_next_to_stop:
  "explored_endings life_down [Stop, Stop] = Some [Ends_Down]"
  "explored_endings life_ready [Stop, Stop] = Some [Ends_Ready]"
  "explored_endings life_running [Stop, Stop] = Some [Ends_Joined_Twice, Ends_Join_Threw, Ends_Ready]"
  "explored_endings life_flagged [Stop, Stop] = Some [Ends_Ready]"
  by code_simp+

lemma stop_next_to_shutdown:
  "explored_endings life_down [Stop, Shutdown] = Some [Ends_Down]"
  "explored_endings life_ready [Stop, Shutdown] = Some [Ends_Down]"
  "explored_endings life_running [Stop, Shutdown] = Some [Ends_Joined_Twice, Ends_Raced, Ends_Join_Threw, Ends_Down]"
  "explored_endings life_flagged [Stop, Shutdown] = Some [Ends_Down]"
  by code_simp+

lemma stop_next_to_plain_initialize:
  "explored_endings life_down [Stop, Initialize False] = Some [Ends_Down, Ends_Ready]"
  "explored_endings life_ready [Stop, Initialize False] = Some [Ends_Ready]"
  "explored_endings life_running [Stop, Initialize False] = Some [Ends_Ready]"
  "explored_endings life_flagged [Stop, Initialize False] = Some [Ends_Ready]"
  by code_simp+

lemma stop_next_to_starting_initialize:
  "explored_endings life_down [Stop, Initialize True] = Some [Ends_Thread_Only, Ends_Start_Failed, Ends_Down, Ends_Ready, Ends_Running]"
  "explored_endings life_ready [Stop, Initialize True] = Some [Ends_Ready]"
  "explored_endings life_running [Stop, Initialize True] = Some [Ends_Ready]"
  "explored_endings life_flagged [Stop, Initialize True] = Some [Ends_Ready]"
  by code_simp+

lemma shutdown_next_to_shutdown:
  "explored_endings life_down [Shutdown, Shutdown] = Some [Ends_Down]"
  "explored_endings life_ready [Shutdown, Shutdown] = Some [Ends_Down]"
  "explored_endings life_running [Shutdown, Shutdown] = Some [Ends_Down]"
  "explored_endings life_flagged [Shutdown, Shutdown] = Some [Ends_Down]"
  by code_simp+

lemma shutdown_next_to_plain_initialize:
  "explored_endings life_down [Shutdown, Initialize False] = Some [Ends_Down, Ends_Ready]"
  "explored_endings life_ready [Shutdown, Initialize False] = Some [Ends_Down, Ends_Ready]"
  "explored_endings life_running [Shutdown, Initialize False] = Some [Ends_Down, Ends_Ready]"
  "explored_endings life_flagged [Shutdown, Initialize False] = Some [Ends_Down, Ends_Ready]"
  by code_simp+

lemma shutdown_next_to_starting_initialize:
  "explored_endings life_down [Shutdown, Initialize True] = Some [Ends_Start_Failed, Ends_Down, Ends_Running]"
  "explored_endings life_ready [Shutdown, Initialize True] = Some [Ends_Start_Failed, Ends_Down, Ends_Running]"
  "explored_endings life_running [Shutdown, Initialize True] = Some [Ends_Start_Failed, Ends_Down, Ends_Running]"
  "explored_endings life_flagged [Shutdown, Initialize True] = Some [Ends_Start_Failed, Ends_Down, Ends_Running]"
  by code_simp+

lemma plain_initialize_next_to_plain_initialize:
  "explored_endings life_down [Initialize False, Initialize False] = Some [Ends_Down, Ends_Ready]"
  "explored_endings life_ready [Initialize False, Initialize False] = Some [Ends_Ready]"
  "explored_endings life_running [Initialize False, Initialize False] = Some [Ends_Running]"
  "explored_endings life_flagged [Initialize False, Initialize False] = Some [Ends_Flag_Only]"
  by code_simp+

lemma plain_initialize_next_to_starting_initialize:
  "explored_endings life_down [Initialize False, Initialize True] = Some [Ends_Start_Failed, Ends_Down, Ends_Ready, Ends_Running]"
  "explored_endings life_ready [Initialize False, Initialize True] = Some [Ends_Ready]"
  "explored_endings life_running [Initialize False, Initialize True] = Some [Ends_Running]"
  "explored_endings life_flagged [Initialize False, Initialize True] = Some [Ends_Flag_Only]"
  by code_simp+

lemma starting_initialize_next_to_plain_initialize:
  "explored_endings life_down [Initialize True, Initialize False] = Some [Ends_Start_Failed, Ends_Down, Ends_Ready, Ends_Running]"
  "explored_endings life_ready [Initialize True, Initialize False] = Some [Ends_Ready]"
  "explored_endings life_running [Initialize True, Initialize False] = Some [Ends_Running]"
  "explored_endings life_flagged [Initialize True, Initialize False] = Some [Ends_Flag_Only]"
  by code_simp+

lemma starting_initialize_next_to_starting_initialize:
  "explored_endings life_down [Initialize True, Initialize True] = Some [Ends_Start_Failed, Ends_Down, Ends_Running]"
  "explored_endings life_ready [Initialize True, Initialize True] = Some [Ends_Ready]"
  "explored_endings life_running [Initialize True, Initialize True] = Some [Ends_Running]"
  "explored_endings life_flagged [Initialize True, Initialize True] = Some [Ends_Flag_Only]"
  by code_simp+

text \<open>
  What follows the endings that look harmless. With a joinable thread and the flag cleared, \<open>stop\<close> does nothing and the
  next \<open>start\<close> terminates the program, if its thread can be created; a thread on an SDK that is shut down is not
  stopped by \<open>shutdown\<close>, so the destructor destroys a joinable thread, which terminates the program as well.
\<close>

definition life_thread_only :: life where
  "life_thread_only = life_ready\<lparr>lf_handle := Some Left_Loop\<rparr>"

definition life_stray :: life where
  "life_stray = life_down\<lparr>lf_running := True, lf_handle := Some In_Loop\<rparr>"

abbreviation alone :: "life_call \<Rightarrow> life \<Rightarrow> life_thread list \<times> life" where
  "alone c s \<equiv> ([Update_Threads, Call 1 c (length (code_of c))], s)"

lemma after_the_race:
  "explored_finals life_thread_only [Stop] = Some [alone Stop life_thread_only]"
  "explored_endings life_thread_only [Start] = Some [Ends_Terminated, Ends_Thread_Only]"
  "explored_finals life_stray [Shutdown] = Some [alone Shutdown life_stray]"
  by code_simp+

section \<open>The calls alone\<close>

text \<open>What of the SDK is its life.\<close>

definition life_of :: "GloveSDK \<Rightarrow> life" where
  "life_of k = life_down\<lparr>lf_initialized := sdk_initialized k, lf_running := thread_running (sdk_worker k),
     lf_handle := (if thread_joinable (sdk_worker k) then Some In_Loop else None),
     lf_built := (if sdk_udp_client k \<noteq> None then [Part_Client] else [])
       @ (if sdk_motor_controller k \<noteq> None then [Part_Motor] else [])
       @ (if sdk_encoder_reader k \<noteq> None then [Part_Encoder] else [])
       @ (if sdk_imu_reader k \<noteq> None then [Part_Imu] else [])\<rparr>"

definition life_in :: "bool \<Rightarrow> worker \<Rightarrow> life" where
  "life_in initialized t =
     (if \<not> initialized then life_down else if thread_joinable t then life_running
      else if thread_running t then life_flagged else life_ready)"

lemma life_of_inv: "sdk_inv k \<Longrightarrow> life_of k = life_in (sdk_initialized k) (sdk_worker k)"
  by (auto simp: life_of_def life_in_def sdk_inv_def sdk_ready_def sdk_empty_def worker_new_def life_running_def
      life_flagged_def life_ready_def life_down_def all_parts_def split: if_splits)

abbreviation start_failed :: "life \<Rightarrow> life_thread list \<times> life" where
  "start_failed s \<equiv> ([Update_Threads, Threw No_Thread], s)"

lemma start_finals:
  "explored_finals life_down [Start] = Some [alone Start life_down]"
  "map_option set (explored_finals life_ready [Start]) = Some {alone Start life_running, start_failed life_flagged}"
  "explored_finals life_running [Start] = Some [alone Start life_running]"
  "explored_finals life_flagged [Start] = Some [alone Start life_flagged]"
  by code_simp+

lemma stop_finals:
  "explored_finals life_down [Stop] = Some [alone Stop life_down]"
  "explored_finals life_ready [Stop] = Some [alone Stop life_ready]"
  "explored_finals life_running [Stop] = Some [alone Stop life_ready]"
  "explored_finals life_flagged [Stop] = Some [alone Stop life_ready]"
  by code_simp+

lemma shutdown_finals:
  "explored_finals life_down [Shutdown] = Some [alone Shutdown life_down]"
  "explored_finals life_ready [Shutdown] = Some [alone Shutdown life_down]"
  "explored_finals life_running [Shutdown] = Some [alone Shutdown life_down]"
  "explored_finals life_flagged [Shutdown] = Some [alone Shutdown life_down]"
  by code_simp+

lemma initialize_finals_down:
  "map_option set (explored_finals life_down [Initialize False])
    = Some {alone (Initialize False) life_down, alone (Initialize False) life_ready}"
  "map_option set (explored_finals life_down [Initialize True])
    = Some {alone (Initialize True) life_down, alone (Initialize True) life_running, start_failed life_flagged}"
  by code_simp+

lemma initialize_finals:
  "explored_finals life_ready [Initialize b] = Some [alone (Initialize b) life_ready]"
  "explored_finals life_running [Initialize b] = Some [alone (Initialize b) life_running]"
  "explored_finals life_flagged [Initialize b] = Some [alone (Initialize b) life_flagged]"
  by (cases b; simp only:; code_simp)+

lemma explored_finals_set:
  "map_option set (explored_finals s calls) = Some fs \<Longrightarrow> life_finals s calls = fs"
  by (auto dest: explored_finals_exact)

lemmas finals_exact = start_finals(1,3,4) [THEN explored_finals_exact] start_finals(2) [THEN explored_finals_set]
  stop_finals [THEN explored_finals_exact] shutdown_finals [THEN explored_finals_exact]
  initialize_finals [THEN explored_finals_exact] initialize_finals_down [THEN explored_finals_set]

lemma lives_distinct:
  "life_down \<noteq> life_ready" "life_ready \<noteq> life_down" "life_running \<noteq> life_ready" "life_flagged \<noteq> life_ready"
  "life_running \<noteq> life_down" "life_flagged \<noteq> life_down"
  by (simp_all add: life_down_def life_ready_def life_running_def life_flagged_def)

text \<open>What the four calls of the atomic model make of the worker, and so of the life of the SDK.\<close>

lemma life_inv_cases:
  assumes "sdk_inv k"
  obtains "\<not> sdk_initialized k" and "sdk_worker k = worker_new" and "life_of k = life_down"
  | "sdk_initialized k" and "sdk_worker k = worker_new" and "life_of k = life_ready"
  | "sdk_initialized k" and "sdk_worker k = \<lparr>thread_running = True, thread_joinable = True\<rparr>" and "life_of k = life_running"
  | "sdk_initialized k" and "sdk_worker k = \<lparr>thread_running = True, thread_joinable = False\<rparr>" and "life_of k = life_flagged"
proof -
  have "thread_joinable (sdk_worker k) \<longrightarrow> thread_running (sdk_worker k)" "\<not> sdk_initialized k \<longrightarrow> sdk_worker k = worker_new"
    using assms by (auto simp: sdk_inv_def sdk_empty_def split: if_splits)
  with life_of_inv [OF assms] that show thesis
    by (cases "sdk_worker k"; cases "sdk_initialized k") (auto simp: worker_new_def life_in_def split: if_splits)
qed

definition start_final :: "sdk_start_outcome \<times> 'w sdk \<Rightarrow> life_thread list \<times> life" where
  "start_final okw = (case okw of (out, k, w) \<Rightarrow>
     if out = Tried Throws_System_Error then start_failed (life_of k) else alone Start (life_of k))"

definition initialize_final :: "bool \<Rightarrow> (start_outcome + bool) \<Rightarrow> GloveSDK \<Rightarrow> life_thread list \<times> life" where
  "initialize_final auto_start res k =
     (if res = Inl Throws_System_Error then start_failed (life_of k) else alone (Initialize auto_start) (life_of k))"

lemma sdk_start_final:
  assumes "sdk_inv k" and "sdk_start (os\<lparr>os_thread_create := \<lambda>w. (ok, w)\<rparr>) (k, w) = okw"
  shows "start_final okw =
    (if life_of k = life_ready then if ok then alone Start life_running else start_failed life_flagged else alone Start (life_of k))"
proof (cases rule: life_inv_cases [OF assms(1)])
  case 2
  obtain out k1 w1 where okw: "okw = (out, k1, w1)" by (cases okw)
  from assms(2) 2(1,2) okw have out: "out = Tried (if ok then Started else Throws_System_Error)"
    "sdk_worker k1 = \<lparr>thread_running = True, thread_joinable = ok\<rparr>" "sdk_initialized k1"
    by (auto simp: sdk_start_cases)
  moreover have "sdk_inv k1" using sdk_start_inv [OF assms(2) [unfolded okw] assms(1)] by simp
  ultimately show ?thesis using 2(3) by (simp add: okw start_final_def life_of_inv life_in_def)
qed (use assms(2) in \<open>auto simp: sdk_start_def start_final_def life_down_def life_ready_def life_running_def life_flagged_def\<close>)

lemma sdk_stop_life:
  assumes "sdk_inv k"
  shows "life_of (sdk_stop k) = (if life_of k = life_down then life_down else life_ready)"
proof -
  have "sdk_worker (sdk_stop k) = worker_new"
    using assms by (auto simp: sdk_stop_def sdk_inv_def intro!: worker_stop_restores)
  then show ?thesis
    using life_of_inv [OF sdk_stop_inv [OF assms]]
    by (cases rule: life_inv_cases [OF assms])
      (simp_all add: worker_new_def sdk_stop_def life_in_def life_down_def life_ready_def life_running_def life_flagged_def)
qed

lemma sdk_shutdown_life: "sdk_inv k \<Longrightarrow> life_of (fst (sdk_shutdown os (k, w))) = life_down"
proof -
  assume inv: "sdk_inv k"
  have "\<not> sdk_initialized (fst (sdk_shutdown os (k, w)))"
    by (simp add: sdk_shutdown_def cleanup_resources_def Let_def split: option.splits prod.splits)
  then show ?thesis using life_of_inv [OF sdk_shutdown_inv [OF inv, where os = os and w = w]] by (simp add: life_in_def)
qed

lemma sdk_initialize_final:
  assumes "sdk_inv k" and "sdk_initialize os (k, w) = Some (res, k', w')" and "b = gc_auto_start_thread (sdk_config k)"
  shows "if sdk_initialized k then initialize_final b res k' = alone (Initialize b) (life_of k)
    else initialize_final b res k' \<in> (if b then {alone (Initialize True) life_down, alone (Initialize True) life_running,
      start_failed life_flagged} else {alone (Initialize False) life_down, alone (Initialize False) life_ready})"
proof (cases "sdk_initialized k")
  case True
  then show ?thesis using assms(2) by (auto simp: sdk_initialize_def initialize_final_def)
next
  case False
  obtain ok c w1 where con: "connect os (UdpClient_new (sdk_udp_config (sdk_config k)), w) = (ok, c, w1)"
    by (metis prod_cases3)
  have inv: "sdk_inv k'" using sdk_initialize_inv [OF assms(2,1)] by simp
  from unobserved.sdk_initialize_outcome [OF assms(1) False con] assms(2,3)
  have "res = Inr False \<and> \<not> sdk_initialized k' \<or> (res = Inr True \<or> b \<and> res = Inl Throws_System_Error) \<and> sdk_initialized k'
      \<and> sdk_worker k' = \<lparr>thread_running = b, thread_joinable = (b \<and> res = Inr True)\<rparr>"
    by (auto simp: init_outcome_def split: if_splits)
  with False life_of_inv [OF inv] show ?thesis by (auto simp: initialize_final_def life_in_def)
qed

section \<open>Properties\<close>

text \<open>
  C15. \<open>start\<close> and \<open>stop\<close> take no lock. All the ways in which a \<open>start\<close> or a \<open>stop\<close> can end next to a \<open>start\<close>, \<open>stop\<close>, \<open>shutdown\<close> or
  \<open>initialize\<close> (with and without \<open>auto_start_thread\<close>), with an update thread if there is one, from an SDK that is down, ready, running, or
  left by a failed creation of the thread with the flag set and no thread; components may fail to initialise, and the creation of
  the thread may throw. On an SDK that is down or already has its flag, most pairs are harmless. Otherwise
  the program can be terminated by a thread moved over a joinable one, the components can be
  freed under the working update thread, two joins can meet or the second one throw, a thread can be left that
  nothing will stop or that is not joined, and a \<open>stop\<close> or \<open>shutdown\<close> can wait forever, for a thread that finds the flag set again by a
  start.
\<close>

theorem lifecycle_races:
  "endings life_down [Start, Start] = {Ends_Down}
   \<and> endings life_ready [Start, Start] = {Ends_Terminated, Ends_Start_Failed, Ends_Running}
   \<and> endings life_running [Start, Start] = {Ends_Running}
   \<and> endings life_flagged [Start, Start] = {Ends_Flag_Only}
   \<and> endings life_down [Start, Stop] = {Ends_Down}
   \<and> endings life_ready [Start, Stop] = {Ends_Thread_Only, Ends_Start_Failed, Ends_Ready, Ends_Running}
   \<and> endings life_running [Start, Stop] = {Ends_Terminated, Ends_Waiting, Ends_Start_Failed, Ends_Ready, Ends_Running}
   \<and> endings life_flagged [Start, Stop] = {Ends_Waiting, Ends_Start_Failed, Ends_Ready, Ends_Running}
   \<and> endings life_down [Start, Shutdown] = {Ends_Down}
   \<and> endings life_ready [Start, Shutdown] = {Ends_Raced, Ends_Stray, Ends_Start_Failed, Ends_Down}
   \<and> endings life_running [Start, Shutdown] = {Ends_Terminated, Ends_Raced, Ends_Waiting, Ends_Stray, Ends_Start_Failed, Ends_Down}
   \<and> endings life_flagged [Start, Shutdown] = {Ends_Raced, Ends_Waiting, Ends_Stray, Ends_Start_Failed, Ends_Down}
   \<and> endings life_down [Start, Initialize False] = {Ends_Start_Failed, Ends_Down, Ends_Ready, Ends_Running}
   \<and> endings life_ready [Start, Initialize False] = {Ends_Start_Failed, Ends_Running}
   \<and> endings life_running [Start, Initialize False] = {Ends_Running}
   \<and> endings life_flagged [Start, Initialize False] = {Ends_Flag_Only}
   \<and> endings life_down [Start, Initialize True] = {Ends_Terminated, Ends_Start_Failed, Ends_Down, Ends_Running}
   \<and> endings life_ready [Start, Initialize True] = {Ends_Start_Failed, Ends_Running}
   \<and> endings life_running [Start, Initialize True] = {Ends_Running}
   \<and> endings life_flagged [Start, Initialize True] = {Ends_Flag_Only}
   \<and> endings life_down [Stop, Stop] = {Ends_Down}
   \<and> endings life_ready [Stop, Stop] = {Ends_Ready}
   \<and> endings life_running [Stop, Stop] = {Ends_Joined_Twice, Ends_Join_Threw, Ends_Ready}
   \<and> endings life_flagged [Stop, Stop] = {Ends_Ready}
   \<and> endings life_down [Stop, Shutdown] = {Ends_Down}
   \<and> endings life_ready [Stop, Shutdown] = {Ends_Down}
   \<and> endings life_running [Stop, Shutdown] = {Ends_Joined_Twice, Ends_Raced, Ends_Join_Threw, Ends_Down}
   \<and> endings life_flagged [Stop, Shutdown] = {Ends_Down}
   \<and> endings life_down [Stop, Initialize False] = {Ends_Down, Ends_Ready}
   \<and> endings life_ready [Stop, Initialize False] = {Ends_Ready}
   \<and> endings life_running [Stop, Initialize False] = {Ends_Ready}
   \<and> endings life_flagged [Stop, Initialize False] = {Ends_Ready}
   \<and> endings life_down [Stop, Initialize True] = {Ends_Thread_Only, Ends_Start_Failed, Ends_Down, Ends_Ready, Ends_Running}
   \<and> endings life_ready [Stop, Initialize True] = {Ends_Ready}
   \<and> endings life_running [Stop, Initialize True] = {Ends_Ready}
   \<and> endings life_flagged [Stop, Initialize True] = {Ends_Ready}"
  by (simp only: start_next_to_start [THEN explored_endings_exact]
    start_next_to_stop [THEN explored_endings_exact]
    start_next_to_shutdown [THEN explored_endings_exact]
    start_next_to_plain_initialize [THEN explored_endings_exact]
    start_next_to_starting_initialize [THEN explored_endings_exact]
    stop_next_to_stop [THEN explored_endings_exact]
    stop_next_to_shutdown [THEN explored_endings_exact]
    stop_next_to_plain_initialize [THEN explored_endings_exact]
    stop_next_to_starting_initialize [THEN explored_endings_exact] list.set)

text \<open>
  C30. What \<open>init_mutex_\<close> buys: two calls of \<open>initialize\<close> and \<open>shutdown\<close>, with or without the start of the thread, from a
  shut down, a ready or a running SDK, with any component failing and the creation of the thread failing or not, always come to an end,
  and end settled: all components exist and the SDK is ready or running with its thread, or none exists, the SDK is down and no thread is left; the one exception is
  the state of a failed creation, with all components and the flag set without a thread, after an \<open>initialize\<close> that has thrown.
  From that state (the flag set without a thread) the pairs end in one of these or leave it as it is. The components are
  created and freed only while no update thread is in its loop.
\<close>

theorem lifecycle_serialised:
  "wfp (\<lambda>d c. life_move c d)
   \<and> (\<Union>s \<in> {life_down, life_ready, life_running}. endings s [Shutdown, Shutdown]
      \<union> (\<Union>b. endings s [Shutdown, Initialize b] \<union> (\<Union>b'. endings s [Initialize b, Initialize b'])))
    = {Ends_Down, Ends_Ready, Ends_Running, Ends_Start_Failed}
   \<and> endings life_flagged [Shutdown, Shutdown]
      \<union> (\<Union>b. endings life_flagged [Shutdown, Initialize b] \<union> (\<Union>b'. endings life_flagged [Initialize b, Initialize b']))
    = {Ends_Down, Ends_Ready, Ends_Running, Ends_Start_Failed, Ends_Flag_Only}"
proof -
  note table = starting_initialize_next_to_plain_initialize [THEN explored_endings_exact] shutdown_next_to_shutdown [THEN explored_endings_exact] shutdown_next_to_plain_initialize [THEN explored_endings_exact] shutdown_next_to_starting_initialize [THEN explored_endings_exact]
    plain_initialize_next_to_plain_initialize [THEN explored_endings_exact]
    plain_initialize_next_to_starting_initialize [THEN explored_endings_exact]
    starting_initialize_next_to_starting_initialize [THEN explored_endings_exact]
  show ?thesis by (simp add: life_terminates UNIV_bool table) auto
qed

text \<open>
  C39. The steps are those of the atomic model: in every reachable state each of the four calls, run alone next
  to the update thread, ends as the operations of the SDK do. \<open>stop\<close> and \<open>shutdown\<close> end in exactly one configuration, \<open>start\<close> in
  those of \<open>sdk_start\<close> with the creation of the thread succeeding or failing, and the outcome of \<open>sdk_initialize\<close>,
  success, failure or exception, is an ending of \<open>initialize\<close>.
\<close>

theorem lifecycle_calls_alone:
  assumes "sdk_reachable os (k, w)" and "sdk_initialize os (k, w) = Some (res, k', w')"
  shows "life_finals (life_of k) [Stop] = {alone Stop (life_of (sdk_stop k))}
    \<and> life_finals (life_of k) [Shutdown] = {alone Shutdown (life_of (fst (sdk_shutdown os (k, w))))}
    \<and> life_finals (life_of k) [Start] = range (\<lambda>ok. start_final (sdk_start (os\<lparr>os_thread_create := \<lambda>w. (ok, w)\<rparr>) (k, w)))
    \<and> initialize_final (gc_auto_start_thread (sdk_config k)) res k'
      \<in> life_finals (life_of k) [Initialize (gc_auto_start_thread (sdk_config k))]"
proof -
  have inv: "sdk_inv k" using sdk_reachable_inv [OF assms(1)] by simp
  show ?thesis
    using sdk_initialize_final [OF inv assms(2) refl]
    by (cases rule: life_inv_cases [OF inv]; cases "gc_auto_start_thread (sdk_config k)")
      (simp_all add: sdk_start_final [OF inv refl] sdk_stop_life [OF inv] sdk_shutdown_life [OF inv] finals_exact
        UNIV_bool lives_distinct insert_commute)
qed

theorem lifecycle_calls_alone_witness:
  "\<exists>k. life_of k = life_running
    \<and> life_finals (life_of k) [Stop] = {alone Stop (life_of (sdk_stop k))} \<and> life_of (sdk_stop k) = life_ready
    \<and> initialize_final (gc_auto_start_thread (sdk_config k)) (Inr True) k
      \<in> life_finals (life_of k) [Initialize (gc_auto_start_thread (sdk_config k))]"
proof -
  let ?os = "device_os demo_reply"
  obtain k w where kw: "sdk_reachable ?os (k, w)" "sdk_initialized k" "thread_running (sdk_worker k)"
    "thread_joinable (sdk_worker k)" by (rule demo_running)
  have inv: "sdk_inv k" using sdk_reachable_inv [OF kw(1)] by simp
  have "sdk_initialize ?os (k, w) = Some (Inr True, k, w)" using kw(2) by (simp add: sdk_initialize_def)
  note calls = lifecycle_calls_alone [OF kw(1) this]
  have "life_of k = life_running" using life_of_inv [OF inv] kw(2,4) by (simp add: life_in_def)
  with calls sdk_stop_life [OF inv] lives_distinct show ?thesis by (intro exI [of _ k]) simp
qed

end
