(* ===== verification/Interleaved_Calls.thy ===== *)
theory Interleaved_Calls
  imports Sdk_Threads
begin

text \<open>
  The operations of the SDK that talk to the glove, cut at every point where the code holds no lock: between
  the sending and the receiving half of each exchange, and around each critical section on a cache or a
  calibration. An operation is a tree of type \<open>op\<close>; threads run lists of calls, the unified thread its
  segments and user threads the convenience methods, and interleave at every cut. The lemmas show that an
  operation that nobody disturbs is the one of the atomic model, and what stays true when they do
  interleave: no undefined behaviour, consistent counters, and every call returns.
\<close>

section \<open>Operations as trees\<close>

text \<open>
  \<open>Ask p next\<close> sends \<open>p\<close>, receives, and goes on with the response and the time at which it came; \<open>Modify\<close> is
  a critical section that writes members, \<open>Inspect\<close> one that reads them; \<open>Broken\<close> has no defined behaviour.
\<close>

datatype op = Return bool | Broken | Modify "GloveSDK \<Rightarrow> GloveSDK ub" op | Inspect "GloveSDK \<Rightarrow> op"
  | Ask Packet "Packet option \<Rightarrow> time \<Rightarrow> op"

primrec op_then :: "op \<Rightarrow> (bool \<Rightarrow> op) \<Rightarrow> op" where
  "op_then (Return b) f = f b"
| "op_then Broken f = Broken"
| "op_then (Modify g next) f = Modify g (op_then next f)"
| "op_then (Inspect next) f = Inspect (\<lambda>k. op_then (next k) f)"
| "op_then (Ask p next) f = Ask p (\<lambda>response now. op_then (next response now) f)"

text \<open>Induction along the branches.\<close>

lemma op_induct [case_names Return Broken Modify Inspect Ask]:
  assumes "\<And>b. P (Return b)" and "P Broken" and "\<And>f next. P next \<Longrightarrow> P (Modify f next)"
    and "\<And>next. (\<And>k. P (next k)) \<Longrightarrow> P (Inspect next)"
    and "\<And>p next. (\<And>response now. P (next response now)) \<Longrightarrow> P (Ask p next)"
  shows "P x"
  by (induction x) (use assms in \<open>auto intro!: assms(5)\<close>)

subsection \<open>The motors\<close>

text \<open>\<open>cached_status_[motor_id - 1] = *status\<close> under \<open>status_mutex_\<close>.\<close>

definition store_status :: "u8 \<Rightarrow> MotorStatus \<Rightarrow> GloveSDK \<Rightarrow> GloveSDK ub" where
  "store_status motor_id status k = do {
     m \<leftarrow> sdk_motor_controller k;
     cache \<leftarrow> wr (mc_cached_status m) (unat motor_id - 1) status;
     Some (k\<lparr>sdk_motor_controller := Some (m\<lparr>mc_cached_status := cache\<rparr>)\<rparr>) }"

fun update_motors_op :: "u8 list \<Rightarrow> bool \<Rightarrow> op" where
  "update_motors_op [] any_success = Return any_success"
| "update_motors_op (motor_id # ids) any_success = Ask (request_packet (Read_Status motor_id)) (\<lambda>response now.
     case response of
       None \<Rightarrow> update_motors_op ids any_success
     | Some p \<Rightarrow> (case parse_motor_status p now of
         None \<Rightarrow> Broken
       | Some None \<Rightarrow> update_motors_op ids any_success
       | Some (Some status) \<Rightarrow> Modify (store_status motor_id status) (update_motors_op ids True)))"

text \<open>One command behind its guards, and a batch of them.\<close>

definition command_op :: "request \<Rightarrow> op" where
  "command_op r =
     (if permitted r then Ask (request_packet r) (\<lambda>response now. Return (response \<noteq> None)) else Return False)"

fun batch_op :: "request list \<Rightarrow> bool \<Rightarrow> op" where
  "batch_op [] success = Return success"
| "batch_op (r # rs) success = op_then (command_op r) (\<lambda>ok. batch_op rs (success \<and> ok))"

definition array_op :: "(u8 \<Rightarrow> u16 \<Rightarrow> request) \<Rightarrow> u16 list \<Rightarrow> op" where
  "array_op command values =
     (case traverse (\<lambda>i. do { v \<leftarrow> rd values i; Some (command (of_nat (i + 1)) v) }) [0..<NUM_MOTORS] of
        None \<Rightarrow> Broken | Some rs \<Rightarrow> batch_op rs True)"

subsection \<open>The sensors\<close>

definition change_encoder :: "(EncoderReader \<Rightarrow> EncoderReader ub) \<Rightarrow> GloveSDK \<Rightarrow> GloveSDK ub" where
  "change_encoder f k = do {
     r \<leftarrow> sdk_encoder_reader k;
     r \<leftarrow> f r;
     Some (k\<lparr>sdk_encoder_reader := Some r\<rparr>) }"

definition change_imu :: "(ImuReader \<Rightarrow> ImuReader) \<Rightarrow> GloveSDK \<Rightarrow> GloveSDK ub" where
  "change_imu f k = do { r \<leftarrow> sdk_imu_reader k; Some (k\<lparr>sdk_imu_reader := Some (f r)\<rparr>) }"

text \<open>Reading the encoders or the IMU, and what to do with the data.\<close>

definition encoder_response :: "(EncoderData \<Rightarrow> op) \<Rightarrow> Packet option \<Rightarrow> time \<Rightarrow> op" where
  "encoder_response next response now =
     (case response of
       None \<Rightarrow> Return False
     | Some p \<Rightarrow> (case parse_encoder_data p now of
         None \<Rightarrow> Broken | Some None \<Rightarrow> Return False | Some (Some d) \<Rightarrow> next d))"

definition read_encoders_op :: "(EncoderData \<Rightarrow> op) \<Rightarrow> op" where
  "read_encoders_op next = Ask (request_packet Read_Encoders) (encoder_response next)"

definition imu_response :: "(ImuData \<Rightarrow> op) \<Rightarrow> Packet option \<Rightarrow> time \<Rightarrow> op" where
  "imu_response next response now =
     (case response of
       None \<Rightarrow> Return False
     | Some p \<Rightarrow> (case parse_imu_data p now of
         None \<Rightarrow> Broken | Some None \<Rightarrow> Return False | Some (Some d) \<Rightarrow> next d))"

definition read_imu_op :: "(ImuData \<Rightarrow> op) \<Rightarrow> op" where
  "read_imu_op next = Ask (request_packet Read_Imu) (imu_response next)"

definition update_encoder_op :: op where
  "update_encoder_op =
     read_encoders_op (\<lambda>d. Modify (change_encoder (\<lambda>r. Some (r\<lparr>er_cached_data := d\<rparr>))) (Return True))"

text \<open>
  The IMU applies the calibration under one mutex and stores the result under another, in two critical
  sections; calibrating takes both at once.
\<close>

definition store_imu :: "ImuData \<Rightarrow> op" where
  "store_imu calibrated = Modify (change_imu (\<lambda>r. r\<lparr>ir_cached_data := calibrated\<rparr>)) (Return True)"

definition update_imu_op :: op where
  "update_imu_op = read_imu_op (\<lambda>d. Inspect (\<lambda>k. case sdk_imu_reader k of
       None \<Rightarrow> Broken
     | Some r \<Rightarrow> store_imu (imu_apply_calibration r d)))"

definition calibrate_encoder_op :: op where
  "calibrate_encoder_op = read_encoders_op (\<lambda>d. Modify (change_encoder (\<lambda>r. do {
     voltages \<leftarrow> adc_to_voltages (ed_adc_values d);
     let c = (er_calibration r)\<lparr>ec_zero_voltages := voltages\<rparr>;
     let c = c\<lparr>ec_scale_factors := replicate NUM_ENCODER_CHANNELS f32_one\<rparr>;
     let c = c\<lparr>ec_is_calibrated := True\<rparr>;
     Some (r\<lparr>er_calibration := c, er_cached_data := d\<rparr>) })) (Return True))"

definition calibrate_imu_op :: op where
  "calibrate_imu_op = read_imu_op (\<lambda>d. Modify (change_imu (\<lambda>r.
     let r = r\<lparr>ir_calibration := \<lparr>ic_roll_offset = imu_roll d, ic_pitch_offset = imu_pitch d,
           ic_yaw_offset = imu_yaw d, ic_is_calibrated = True\<rparr>\<rparr>
     in r\<lparr>ir_cached_data := imu_apply_calibration_unsafe r d\<rparr>)) (Return True))"

subsection \<open>The calls\<close>

text \<open>The segments of the unified thread and the convenience methods that talk to the glove.\<close>

datatype sdk_call = Update_Motors | Update_Encoders | Update_Imu
  | Set_Motor_Mode u8 u8 | Set_Motor_Position u8 u16 | Set_Motor_Force u8 u16 | Set_Motor_Speed u8 u16 u16
  | Set_All_Modes u8 | Set_All_Positions "u16 list" | Set_All_Forces "u16 list"
  | Calibrate_Encoders | Calibrate_Imu | Calibrate_All

text \<open>A segment that does nothing without its component, and whose success nobody asks for.\<close>

definition segment_op :: "(GloveSDK \<Rightarrow> bool) \<Rightarrow> op \<Rightarrow> op" where
  "segment_op present body =
     Inspect (\<lambda>k. if present k then op_then body (\<lambda>_. Return True) else Return True)"

text \<open>A method behind \<open>ensure_initialized\<close> and a pointer.\<close>

definition initialized_op :: "op \<Rightarrow> op" where
  "initialized_op body = Inspect (\<lambda>k. if ensure_initialized k then body else Return False)"

definition through_op :: "(GloveSDK \<Rightarrow> bool) \<Rightarrow> op \<Rightarrow> op" where
  "through_op present body = Inspect (\<lambda>k. if present k then body else Broken)"

definition has_motor :: "GloveSDK \<Rightarrow> bool" where "has_motor k \<longleftrightarrow> sdk_motor_controller k \<noteq> None"
definition has_encoder :: "GloveSDK \<Rightarrow> bool" where "has_encoder k \<longleftrightarrow> sdk_encoder_reader k \<noteq> None"
definition has_imu :: "GloveSDK \<Rightarrow> bool" where "has_imu k \<longleftrightarrow> sdk_imu_reader k \<noteq> None"

definition motor_call_op :: "op \<Rightarrow> op" where
  "motor_call_op body = initialized_op (through_op has_motor body)"

definition calibrate_encoders_call :: op where
  "calibrate_encoders_call = initialized_op (through_op has_encoder calibrate_encoder_op)"

definition calibrate_imu_call :: op where
  "calibrate_imu_call = initialized_op (through_op has_imu calibrate_imu_op)"

fun call_op :: "sdk_call \<Rightarrow> op" where
  "call_op Update_Motors = segment_op has_motor (update_motors_op motor_ids False)"
| "call_op Update_Encoders = segment_op has_encoder update_encoder_op"
| "call_op Update_Imu = segment_op has_imu update_imu_op"
| "call_op (Set_Motor_Mode motor_id mode) = motor_call_op (command_op (Set_Mode motor_id mode))"
| "call_op (Set_Motor_Position motor_id position) = motor_call_op (command_op (Set_Position motor_id position))"
| "call_op (Set_Motor_Force motor_id force) = motor_call_op (command_op (Set_Force motor_id force))"
| "call_op (Set_Motor_Speed motor_id speed target) = motor_call_op (command_op (Set_Speed motor_id speed target))"
| "call_op (Set_All_Modes mode) = motor_call_op (batch_op (map (\<lambda>i. Set_Mode i mode) motor_ids) True)"
| "call_op (Set_All_Positions positions) = motor_call_op (array_op Set_Position positions)"
| "call_op (Set_All_Forces forces) = motor_call_op (array_op Set_Force forces)"
| "call_op Calibrate_Encoders = calibrate_encoders_call"
| "call_op Calibrate_Imu = calibrate_imu_call"
| "call_op Calibrate_All = initialized_op (op_then calibrate_encoders_call (\<lambda>encoder_success.
     op_then calibrate_imu_call (\<lambda>imu_success. Return (encoder_success \<and> imu_success))))"

section \<open>Threads\<close>

text \<open>
  A thread is inside an operation with calls still to make, between the two halves of an exchange, or at a
  step without defined behaviour. A response is parsed when it has been received, with the time of then.
\<close>

datatype op_thread = Running op "sdk_call list" | Awaiting "Packet option \<Rightarrow> time \<Rightarrow> op" "sdk_call list" | Crashed

fun op_step :: "'w os \<Rightarrow> op_thread \<times> 'w sdk \<Rightarrow> (op_thread \<times> 'w sdk) option" where
  "op_step os (Running (Return b) [], kw) = None"
| "op_step os (Running (Return b) (call # calls), kw) = Some (Running (call_op call) calls, kw)"
| "op_step os (Running Broken calls, kw) = Some (Crashed, kw)"
| "op_step os (Running (Modify f next) calls, k, w) =
     Some (case f k of None \<Rightarrow> (Crashed, k, w) | Some k \<Rightarrow> (Running next calls, k, w))"
| "op_step os (Running (Inspect next) calls, k, w) = Some (Running (next k) calls, k, w)"
| "op_step os (Running (Ask p next) calls, k, w) =
     Some (case sdk_udp_client k of
       None \<Rightarrow> (Crashed, k, w)
     | Some c \<Rightarrow>
         let (sent, c, w) = send_packet os p (c, w)
         in (if sent then Awaiting next calls else Running (next None (os_now os w)) calls,
             k\<lparr>sdk_udp_client := Some c\<rparr>, w))"
| "op_step os (Awaiting next calls, k, w) =
     Some (case sdk_udp_client k of
       None \<Rightarrow> (Crashed, k, w)
     | Some c \<Rightarrow> (case receive_packet os (c, w) of
         None \<Rightarrow> (Crashed, k, w)
       | Some (response, c, w) \<Rightarrow>
           (Running (next response (os_now os w)) calls, k\<lparr>sdk_udp_client := Some c\<rparr>, w)))"
| "op_step os (Crashed, kw) = None"

definition op_moves :: "'w os \<Rightarrow> op_thread \<times> 'w sdk \<Rightarrow> op_thread \<times> 'w sdk \<Rightarrow> bool" where
  "op_moves os x y \<longleftrightarrow> op_step os x = Some y"

text \<open>A thread that has made all its calls.\<close>

fun returned :: "op_thread \<Rightarrow> bool" where
  "returned (Running (Return b) []) = True" | "returned _ = False"

text \<open>What the code does when each call runs undisturbed: the functions of the atomic model.\<close>

fun atomic_call :: "'w os \<Rightarrow> sdk_call \<Rightarrow> 'w sdk \<Rightarrow> (bool \<times> 'w sdk) ub" where
  "atomic_call os Update_Motors = map_option (Pair True) \<circ> motor_segment os"
| "atomic_call os Update_Encoders = map_option (Pair True) \<circ> encoder_segment os"
| "atomic_call os Update_Imu = map_option (Pair True) \<circ> imu_segment os"
| "atomic_call os (Set_Motor_Mode motor_id mode) = sdk_set_motor_mode os motor_id mode"
| "atomic_call os (Set_Motor_Position motor_id position) = sdk_set_motor_position os motor_id position"
| "atomic_call os (Set_Motor_Force motor_id force) = sdk_set_motor_force os motor_id force"
| "atomic_call os (Set_Motor_Speed motor_id speed target) = sdk_set_motor_speed os motor_id speed target"
| "atomic_call os (Set_All_Modes mode) = sdk_set_all_modes os mode"
| "atomic_call os (Set_All_Positions positions) = sdk_set_all_positions os positions"
| "atomic_call os (Set_All_Forces forces) = sdk_set_all_forces os forces"
| "atomic_call os Calibrate_Encoders = calibrate_encoders os"
| "atomic_call os Calibrate_Imu = calibrate_imu os"
| "atomic_call os Calibrate_All = calibrate_all os"

section \<open>One thread alone\<close>

text \<open>An operation that nobody disturbs, in one go.\<close>

primrec run_op :: "'w os \<Rightarrow> op \<Rightarrow> 'w sdk \<Rightarrow> (bool \<times> 'w sdk) ub" where
  "run_op os (Return b) = (\<lambda>kw. Some (b, kw))"
| "run_op os Broken = (\<lambda>kw. None)"
| "run_op os (Modify f next) = (\<lambda>kw. do { k \<leftarrow> f (fst kw); run_op os next (k, snd kw) })"
| "run_op os (Inspect next) = (\<lambda>kw. run_op os (next (fst kw)) kw)"
| "run_op os (Ask p next) = (\<lambda>kw. do {
     c \<leftarrow> sdk_udp_client (fst kw);
     (response, c, w) \<leftarrow> send_and_receive os p (c, snd kw);
     run_op os (next response (os_now os w)) ((fst kw)\<lparr>sdk_udp_client := Some c\<rparr>, w) })"

lemma run_op_then:
  "run_op os (op_then x f) kw = do { (b, kw) \<leftarrow> run_op os x kw; run_op os (f b) kw }"
  by (induction x arbitrary: kw rule: op_induct) (auto split: Option.bind_splits)

lemma step_first: "(op_moves os)\<^sup>*\<^sup>* x z \<longleftrightarrow> x = z \<or> (\<exists>y. op_step os x = Some y \<and> (op_moves os)\<^sup>*\<^sup>* y z)"
  by (metis converse_rtranclpE converse_rtranclp_into_rtranclp op_moves_def rtranclp.rtrancl_refl)

lemma crashed_final: "(op_moves os)\<^sup>*\<^sup>* (Crashed, kw) z \<longleftrightarrow> z = (Crashed, kw)"
  by (subst step_first) auto

lemma op_alone:
  "(op_moves os)\<^sup>*\<^sup>* (Running x calls, kw) (Running (Return b) [], kw') \<longleftrightarrow>
     (\<exists>b1 kw1. run_op os x kw = Some (b1, kw1)
        \<and> (op_moves os)\<^sup>*\<^sup>* (Running (Return b1) calls, kw1) (Running (Return b) [], kw'))"
proof (induction x arbitrary: kw rule: op_induct)
  case Broken
  show ?case by (subst step_first) (auto simp: crashed_final)
next
  case (Modify f x)
  show ?case
    by (cases kw, subst step_first) (auto simp: crashed_final Modify.IH split: option.splits)
next
  case (Inspect g)
  show ?case by (cases kw, subst step_first) (auto simp: Inspect.IH)
next
  case (Ask p g)
  let ?final = "\<lambda>x. (op_moves os)\<^sup>*\<^sup>* x (Running (Return b) [], kw')"
  let ?goes = "\<lambda>run. \<exists>b1 kw1. run = Some (b1, kw1) \<and> ?final (Running (Return b1) calls, kw1)"
  obtain k w where kw: "kw = (k, w)" by (cases kw)
  show ?case
  proof (cases "sdk_udp_client k")
    case None
    then show ?thesis unfolding kw by (subst step_first) (auto simp: crashed_final)
  next
    case (Some c)
    obtain sent c' w' where s: "send_packet os p (c, w) = (sent, c', w')" by (cases "send_packet os p (c, w)")
    obtain r c2 w2 where r: "receive_packet os (c', w') = Some (r, c2, w2)"
      using receive_packet_defined by (metis surj_pair)
    have wait: "?final (Awaiting g calls, k\<lparr>sdk_udp_client := Some c'\<rparr>, w')
      \<longleftrightarrow> ?goes (run_op os (g r (os_now os w2)) (k\<lparr>sdk_udp_client := Some c2\<rparr>, w2))"
      by (subst step_first) (simp add: r Ask.IH)
    show ?thesis unfolding kw using s Some wait r
      by (subst step_first) (auto simp: Ask.IH send_and_receive_def Let_def)
  qed
qed simp

text \<open>The pieces, next to the functions of the components.\<close>

lemma encode_reads:
  "encode_read_all_encoders = Some (request_packet Read_Encoders)"
  "encode_read_imu = Some (request_packet Read_Imu)"
  by (simp_all add: encode_request_packet [symmetric])

lemma sdk_same: "sdk_udp_client k = Some c \<Longrightarrow> k\<lparr>sdk_udp_client := Some c\<rparr> = k"
  "sdk_motor_controller k = Some m \<Longrightarrow> k\<lparr>sdk_motor_controller := Some m\<rparr> = k"
  "sdk_encoder_reader k = Some r \<Longrightarrow> k\<lparr>sdk_encoder_reader := Some r\<rparr> = k"
  "sdk_imu_reader k = Some i \<Longrightarrow> k\<lparr>sdk_imu_reader := Some i\<rparr> = k"
  by (cases k; simp)+

lemma run_update_motors:
  "\<forall>i \<in> set ids. is_valid_motor_id i \<Longrightarrow> sdk_motor_controller k = Some m \<Longrightarrow> sdk_udp_client k = Some c \<Longrightarrow>
   run_op os (update_motors_op ids any) (k, w)
     = map_option (\<lambda>(b, m, c, w). (b, k\<lparr>sdk_motor_controller := Some m, sdk_udp_client := Some c\<rparr>, w))
         (update_motors (send_and_receive os) (link_now os) ids any (m, c, w))"
proof (induction ids arbitrary: any k m c w)
  case Nil
  then show ?case by (simp add: sdk_same)
next
  case (Cons i ids)
  obtain r c' w' where x: "send_and_receive os (request_packet (Read_Status i)) (c, w) = Some (r, c', w')"
    using send_and_receive_defined by (metis surj_pair)
  have now: "link_now os (c', w') = os_now os w'" by (simp add: link_now_def)
  have ids: "\<forall>i \<in> set ids. is_valid_motor_id i" using Cons.prems(1) by simp
  show ?case
    using Cons.prems x Cons.IH [OF ids, of "k\<lparr>sdk_udp_client := Some c'\<rparr>" m c' any w']
      Cons.IH [OF ids, of "k\<lparr>sdk_udp_client := Some c', sdk_motor_controller := Some m'\<rparr>" m' c' True w' for m']
    by (auto simp: get_motor_status_eq now store_status_def split: option.splits Option.bind_splits)
qed

lemma run_command:
  "sdk_udp_client k = Some c \<Longrightarrow> run_op os (command_op r) (k, w)
     = map_option (\<lambda>(b, c, w). (b, k\<lparr>sdk_udp_client := Some c\<rparr>, w)) (commanded (send_and_receive os) r (c, w))"
  by (auto simp: command_op_def commanded_def sdk_same split: Option.bind_splits)

lemma run_batch:
  "sdk_udp_client k = Some c \<Longrightarrow> run_op os (batch_op (map r ks) b) (k, w)
     = map_option (\<lambda>(b, c, w). (b, k\<lparr>sdk_udp_client := Some c\<rparr>, w))
         (run_all (\<lambda>i. commanded (send_and_receive os) (r i)) ks b (c, w))"
proof (induction ks arbitrary: b k c w)
  case (Cons i ks)
  show ?case
  proof (cases "commanded (send_and_receive os) (r i) (c, w)")
    case (Some y)
    then show ?thesis using Cons.IH [of "k\<lparr>sdk_udp_client := Some (fst (snd y))\<rparr>" "fst (snd y)"]
      by (cases y) (simp add: run_op_then run_command [OF Cons.prems])
  qed (simp add: run_op_then run_command [OF Cons.prems])
qed (simp add: sdk_same)

lemma run_read_encoders:
  "sdk_udp_client k = Some c \<Longrightarrow> run_op os (read_encoders_op next) (k, w)
     = do { (data, c, w) \<leftarrow> read_encoders (send_and_receive os) (link_now os) (c, w);
            case data of None \<Rightarrow> Some (False, k\<lparr>sdk_udp_client := Some c\<rparr>, w)
            | Some d \<Rightarrow> run_op os (next d) (k\<lparr>sdk_udp_client := Some c\<rparr>, w) }"
  by (auto simp: read_encoders_op_def encoder_response_def read_encoders_def encode_reads link_now_def
      split: option.splits Option.bind_splits)

lemma run_read_imu:
  "sdk_udp_client k = Some c \<Longrightarrow> run_op os (read_imu_op next) (k, w)
     = do { (data, c, w) \<leftarrow> read_imu (send_and_receive os) (link_now os) (c, w);
            case data of None \<Rightarrow> Some (False, k\<lparr>sdk_udp_client := Some c\<rparr>, w)
            | Some d \<Rightarrow> run_op os (next d) (k\<lparr>sdk_udp_client := Some c\<rparr>, w) }"
  by (auto simp: read_imu_op_def imu_response_def read_imu_def encode_reads link_now_def
      split: option.splits Option.bind_splits)

text \<open>The calls. \<open>std::array\<close> fixes the sizes of the arguments.\<close>

fun well_sized :: "sdk_call \<Rightarrow> bool" where
  "well_sized (Set_All_Positions positions) \<longleftrightarrow> length positions = NUM_MOTORS"
| "well_sized (Set_All_Forces forces) \<longleftrightarrow> length forces = NUM_MOTORS"
| "well_sized _ \<longleftrightarrow> True"

lemma array_commands:
  "length vs = 6 \<Longrightarrow>
   array_op command vs = batch_op (map (\<lambda>i. command (of_nat (i + 1)) (vs ! i)) [0..<6]) True"
proof -
  assume "length vs = 6"
  then have "traverse (\<lambda>i. do { v \<leftarrow> rd vs i; Some (command (of_nat (i + 1)) v) }) [0..<6]
    = Some (map (\<lambda>i. command (of_nat (i + 1)) (vs ! i)) [0..<6])"
    by (simp add: upt_rec numeral_eq_Suc)
  then show ?thesis by (simp add: array_op_def NUM_MOTORS_def)
qed

lemma run_motor_call:
  assumes "sdk_inv k"
    and "\<And>c. sdk_ready k c \<Longrightarrow> run_op os x (k, w)
      = map_option (\<lambda>(b, c, w). (b, k\<lparr>sdk_udp_client := Some c\<rparr>, w)) (f (c, w))"
  shows "run_op os (motor_call_op x) (k, w) = motor_command f (k, w)"
proof (cases "sdk_initialized k")
  case True
  then obtain c where c: "sdk_ready k c" using assms(1) by (auto simp: sdk_inv_def)
  then obtain m where "sdk_motor_controller k = Some m" "sdk_udp_client k = Some c"
    by (auto simp: sdk_ready_def)
  then show ?thesis using True assms(2) [OF c]
    by (auto simp: motor_call_op_def initialized_op_def through_op_def has_motor_def motor_command_def
        ensure_initialized_def via_motor_def sdk_same split: Option.bind_splits)
qed (simp add: motor_call_op_def initialized_op_def motor_command_def ensure_initialized_def)

lemma sdk_ready_client: "sdk_ready k c \<Longrightarrow> sdk_udp_client k = Some c"
  by (simp add: sdk_ready_def)

lemma run_calibrate_encoders:
  assumes "sdk_inv k"
  shows "run_op os calibrate_encoders_call (k, w) = calibrate_encoders os (k, w)"
proof (cases "sdk_initialized k")
  case True
  then obtain c where "sdk_ready k c" using assms(1) by (auto simp: sdk_inv_def)
  then obtain r where "sdk_encoder_reader k = Some r" "sdk_udp_client k = Some c"
    by (auto simp: sdk_ready_def)
  then show ?thesis using True
    by (auto simp: calibrate_encoders_call_def calibrate_encoder_op_def initialized_op_def through_op_def
        has_encoder_def calibrate_encoders_def ensure_initialized_def via_encoder_def sdk_same
        run_read_encoders calibrate_zero_point_def change_encoder_def split: option.splits Option.bind_splits)
qed (simp add: calibrate_encoders_call_def initialized_op_def calibrate_encoders_def ensure_initialized_def)

lemma run_calibrate_imu:
  assumes "sdk_inv k"
  shows "run_op os calibrate_imu_call (k, w) = calibrate_imu os (k, w)"
proof (cases "sdk_initialized k")
  case True
  then obtain c where "sdk_ready k c" using assms(1) by (auto simp: sdk_inv_def)
  then obtain r where "sdk_imu_reader k = Some r" "sdk_udp_client k = Some c"
    by (auto simp: sdk_ready_def)
  then show ?thesis using True
    by (auto simp: calibrate_imu_call_def calibrate_imu_op_def initialized_op_def through_op_def
        has_imu_def calibrate_imu_def ensure_initialized_def via_imu_def sdk_same
        run_read_imu calibrate_zero_orientation_def change_imu_def Let_def split: option.splits Option.bind_splits)
qed (simp add: calibrate_imu_call_def initialized_op_def calibrate_imu_def ensure_initialized_def)

lemma run_segments:
  assumes "sdk_inv k"
  shows "run_op os (call_op Update_Motors) (k, w) = map_option (Pair True) (motor_segment os (k, w))"
    and "run_op os (call_op Update_Encoders) (k, w) = map_option (Pair True) (encoder_segment os (k, w))"
    and "run_op os (call_op Update_Imu) (k, w) = map_option (Pair True) (imu_segment os (k, w))"
proof -
  have "run_op os (call_op Update_Motors) (k, w) = map_option (Pair True) (motor_segment os (k, w))
    \<and> run_op os (call_op Update_Encoders) (k, w) = map_option (Pair True) (encoder_segment os (k, w))
    \<and> run_op os (call_op Update_Imu) (k, w) = map_option (Pair True) (imu_segment os (k, w))"
  proof (cases "sdk_initialized k")
    case True
    then obtain c where "sdk_ready k c" using assms(1) by (auto simp: sdk_inv_def)
    then obtain m r i where k: "sdk_motor_controller k = Some m" "sdk_encoder_reader k = Some r"
      "sdk_imu_reader k = Some i" "sdk_udp_client k = Some c"
      by (auto simp: sdk_ready_def)
    have ids: "\<forall>i \<in> set motor_ids. is_valid_motor_id i" by (simp add: motor_ids_eq valid_motor_id_iff)
    show ?thesis
    proof (intro conjI)
      show "run_op os (call_op Update_Motors) (k, w) = map_option (Pair True) (motor_segment os (k, w))"
        using k by (auto simp: segment_op_def has_motor_def run_op_then run_update_motors [OF ids k(1,4)]
            motor_segment_def via_motor_def motor_update_once_def split: Option.bind_splits)
      show "run_op os (call_op Update_Encoders) (k, w) = map_option (Pair True) (encoder_segment os (k, w))"
        using k by (auto simp: segment_op_def has_encoder_def run_op_then update_encoder_op_def sdk_same
            run_read_encoders encoder_segment_def via_encoder_def encoder_update_once_def change_encoder_def
            split: option.splits Option.bind_splits)
      show "run_op os (call_op Update_Imu) (k, w) = map_option (Pair True) (imu_segment os (k, w))"
        using k by (auto simp: segment_op_def has_imu_def run_op_then update_imu_op_def store_imu_def sdk_same
            run_read_imu imu_segment_def via_imu_def imu_update_once_def change_imu_def
            split: option.splits Option.bind_splits)
    qed
  next
    case False
    then have "sdk_empty k" using assms by (simp add: sdk_inv_def)
    then show ?thesis
      by (simp add: sdk_empty_def segment_op_def has_motor_def has_encoder_def has_imu_def
          motor_segment_def encoder_segment_def imu_segment_def)
  qed
  then show "run_op os (call_op Update_Motors) (k, w) = map_option (Pair True) (motor_segment os (k, w))"
    and "run_op os (call_op Update_Encoders) (k, w) = map_option (Pair True) (encoder_segment os (k, w))"
    and "run_op os (call_op Update_Imu) (k, w) = map_option (Pair True) (imu_segment os (k, w))"
    by blast+
qed

lemma run_call:
  assumes "sdk_inv k" and "well_sized call"
  shows "run_op os (call_op call) (k, w) = atomic_call os call (k, w)"
proof -
  note motor = run_motor_call [OF assms(1)]
  have batch: "run_op os (motor_call_op (batch_op (map r ks) True)) (k, w)
      = motor_command (run_all (\<lambda>i. commanded (send_and_receive os) (r i)) ks True) (k, w)"
    for r :: "'b \<Rightarrow> request" and ks
    by (intro motor run_batch) (rule sdk_ready_client)
  have single: "run_op os (motor_call_op (command_op r)) (k, w)
      = motor_command (commanded (send_and_receive os) r) (k, w)" for r
    by (intro motor run_command) (rule sdk_ready_client)
  show ?thesis
  proof (cases call)
    case (Set_All_Positions vs)
    then show ?thesis
      using assms(2) batch [of "\<lambda>i. Set_Position (of_nat (i + 1)) (vs ! i)" "[0..<6]"]
      by (simp add: array_commands sdk_set_all_positions_def set_all_positions_eq NUM_MOTORS_def del: upt_conv_Cons)
  next
    case (Set_All_Forces vs)
    then show ?thesis
      using assms(2) batch [of "\<lambda>i. Set_Force (of_nat (i + 1)) (vs ! i)" "[0..<6]"]
      by (simp add: array_commands sdk_set_all_forces_def set_all_forces_eq NUM_MOTORS_def del: upt_conv_Cons)
  next
    case (Set_All_Modes v)
    then show ?thesis by (simp add: batch sdk_set_all_modes_def set_all_modes_eq)
  next
    case Calibrate_All
    have "run_op os (call_op Calibrate_All) (k, w) = (if ensure_initialized k then do {
        (e, kw) \<leftarrow> calibrate_encoders os (k, w); (i, kw) \<leftarrow> run_op os calibrate_imu_call kw; Some (e \<and> i, kw) }
      else Some (False, k, w))"
      by (simp add: initialized_op_def run_op_then run_calibrate_encoders [OF assms(1)])
    also have "\<dots> = calibrate_all os (k, w)"
      by (auto simp: calibrate_all_def run_calibrate_imu dest!: sdk_command_step_inv(8) [OF assms(1)]
          split: Option.bind_splits)
    finally show ?thesis using Calibrate_All by simp
  qed (simp_all add: single run_segments [OF assms(1)] run_calibrate_encoders [OF assms(1)]
      run_calibrate_imu [OF assms(1)] sdk_command_defs set_motor_commands
      del: call_op.simps(1-3))
qed

text \<open>Several calls in a row.\<close>

fun atomic_calls :: "'w os \<Rightarrow> sdk_call list \<Rightarrow> bool \<Rightarrow> 'w sdk \<Rightarrow> (bool \<times> 'w sdk) ub" where
  "atomic_calls os [] b kw = Some (b, kw)"
| "atomic_calls os (call # calls) b kw = do { (b, kw) \<leftarrow> atomic_call os call kw; atomic_calls os calls b kw }"

lemma segments_inv:
  assumes "sdk_inv k"
  shows "motor_segment os (k, w) = Some kw' \<Longrightarrow> sdk_inv (fst kw')"
    and "encoder_segment os (k, w) = Some kw' \<Longrightarrow> sdk_inv (fst kw')"
    and "imu_segment os (k, w) = Some kw' \<Longrightarrow> sdk_inv (fst kw')"
proof -
  have none: "sdk_motor_controller k = None" "sdk_encoder_reader k = None" "sdk_imu_reader k = None"
    if "\<not> sdk_initialized k"
    using assms that by (simp_all add: sdk_inv_def sdk_empty_def)
  show "sdk_inv (fst kw')" if "motor_segment os (k, w) = Some kw'"
    using that none(1) by (intro session_step_inv [OF assms, of kw' w])
      (auto simp: motor_segment_def dest: unobserved.motor_segment_session(1) [OF _ that])
  show "sdk_inv (fst kw')" if "encoder_segment os (k, w) = Some kw'"
  proof (rule session_step_inv [OF assms, of kw' w])
    show "kw' = (k, w)" if "\<not> sdk_initialized k"
      using \<open>encoder_segment os (k, w) = Some kw'\<close> none(2) [OF that] by (simp add: encoder_segment_def)
    show "in_session (\<lambda>w. ()) fd () k kw'" if "in_session (\<lambda>w. ()) fd () k (k, w)" for fd
      using unobserved.sensor_segments_session(1) [OF that, of os] \<open>encoder_segment os (k, w) = Some kw'\<close> by simp
  qed
  show "sdk_inv (fst kw')" if "imu_segment os (k, w) = Some kw'"
  proof (rule session_step_inv [OF assms, of kw' w])
    show "kw' = (k, w)" if "\<not> sdk_initialized k"
      using \<open>imu_segment os (k, w) = Some kw'\<close> none(3) [OF that] by (simp add: imu_segment_def)
    show "in_session (\<lambda>w. ()) fd () k kw'" if "in_session (\<lambda>w. ()) fd () k (k, w)" for fd
      using unobserved.sensor_segments_session(2) [OF that, of os] \<open>imu_segment os (k, w) = Some kw'\<close> by simp
  qed
qed

lemma atomic_call_inv:
  assumes "sdk_inv k" and "well_sized call" and "atomic_call os call (k, w) = Some (b, kw')"
  shows "sdk_inv (fst kw')"
  by (cases call)
    (use assms(2,3) in \<open>auto simp: NUM_MOTORS_def
      dest: sdk_command_step_inv [OF assms(1)] segments_inv [OF assms(1)]\<close>)

lemma calls_alone_atomic:
  "sdk_inv (fst kw) \<Longrightarrow> \<forall>call \<in> set calls. well_sized call \<Longrightarrow>
   (op_moves os)\<^sup>*\<^sup>* (Running (Return b0) calls, kw) (Running (Return b) [], kw')
     \<longleftrightarrow> atomic_calls os calls b0 kw = Some (b, kw')"
proof (induction calls arbitrary: b0 kw)
  case Nil
  show ?case by (subst step_first) auto
next
  case (Cons call calls)
  have "(op_moves os)\<^sup>*\<^sup>* (Running (Return b0) (call # calls), kw) (Running (Return b) [], kw')
    \<longleftrightarrow> (\<exists>b1 kw1. run_op os (call_op call) kw = Some (b1, kw1)
        \<and> (op_moves os)\<^sup>*\<^sup>* (Running (Return b1) calls, kw1) (Running (Return b) [], kw'))"
    by (subst step_first) (simp only: op_step.simps option.inject op_alone [symmetric], simp)
  also have "\<dots> \<longleftrightarrow> (\<exists>b1 kw1. atomic_call os call kw = Some (b1, kw1)
        \<and> (op_moves os)\<^sup>*\<^sup>* (Running (Return b1) calls, kw1) (Running (Return b) [], kw'))"
    using Cons.prems by (cases kw) (simp add: run_call)
  also have "\<dots> \<longleftrightarrow> (\<exists>b1 kw1. atomic_call os call kw = Some (b1, kw1) \<and> atomic_calls os calls b1 kw1 = Some (b, kw'))"
    using Cons.IH Cons.prems by (cases kw) (auto dest: atomic_call_inv)
  also have "\<dots> \<longleftrightarrow> atomic_calls os (call # calls) b0 kw = Some (b, kw')"
    by (auto simp: Option.bind_eq_Some_conv)
  finally show ?case .
qed

section \<open>Threads together\<close>

text \<open>
  What every interleaving keeps: the SDK is up, and each thread only has steps before it that are defined
  while it is. Replies of 18 bytes are excluded, as for the atomic model, here for every datagram.
\<close>

definition up :: "GloveSDK \<Rightarrow> bool" where
  "up k \<longleftrightarrow> sdk_initialized k \<and> (\<exists>c. sdk_ready k c)"

definition no_short_packets :: "'w os \<Rightarrow> bool" where
  "no_short_packets os \<longleftrightarrow> (\<forall>s q s'. receive_packet os s = Some (Some q, s') \<longrightarrow> \<not> short_status_reply q)"

definition fine_response :: "Packet option \<Rightarrow> bool" where
  "fine_response response \<longleftrightarrow> (\<forall>q. response = Some q \<longrightarrow> \<not> short_status_reply q)"

definition sound_change :: "(GloveSDK \<Rightarrow> GloveSDK ub) \<Rightarrow> bool" where
  "sound_change f \<longleftrightarrow> (\<forall>k. up k \<longrightarrow> (\<exists>k'. f k = Some k' \<and> up k' \<and> sdk_udp_client k' = sdk_udp_client k
     \<and> sdk_worker k' = sdk_worker k))"

primrec op_safe :: "op \<Rightarrow> bool" where
  "op_safe (Return b) \<longleftrightarrow> True"
| "op_safe Broken \<longleftrightarrow> False"
| "op_safe (Modify f next) \<longleftrightarrow> sound_change f \<and> op_safe next"
| "op_safe (Inspect next) \<longleftrightarrow> (\<forall>k. up k \<longrightarrow> op_safe (next k))"
| "op_safe (Ask p next) \<longleftrightarrow> (\<forall>response now. fine_response response \<longrightarrow> op_safe (next response now))"

lemma op_then_safe: "op_safe x \<Longrightarrow> (\<And>b. op_safe (f b)) \<Longrightarrow> op_safe (op_then x f)"
  by (induction x rule: op_induct) auto

lemma up_of_inv: "sdk_inv k \<Longrightarrow> sdk_initialized k \<Longrightarrow> up k"
  by (simp add: up_def sdk_inv_def)

lemma up_client:
  "up k \<Longrightarrow> sdk_udp_client k = Some c \<Longrightarrow> uc_connected c' = uc_connected c \<Longrightarrow> uc_socket_fd c' = uc_socket_fd c \<Longrightarrow>
   up (k\<lparr>sdk_udp_client := Some c'\<rparr>)"
  by (auto simp: up_def sdk_ready_def)

lemma up_components:
  assumes "up k"
  obtains c m r i where "sdk_udp_client k = Some c" and "sdk_motor_controller k = Some m"
    and "length (mc_cached_status m) = 6" and "sdk_encoder_reader k = Some r" and "encoder_wf r"
    and "sdk_imu_reader k = Some i"
  using assms by (auto simp: up_def sdk_ready_def)

lemma present_when_up: "up k \<Longrightarrow> has_motor k \<and> has_encoder k \<and> has_imu k \<and> ensure_initialized k"
  by (auto simp: has_motor_def has_encoder_def has_imu_def ensure_initialized_def up_def sdk_ready_def)

text \<open>The critical sections are sound, and with them every call.\<close>

lemma sound_store_status: "is_valid_motor_id i \<Longrightarrow> sound_change (store_status i st)"
  unfolding sound_change_def
proof (intro allI impI)
  fix k assume i: "is_valid_motor_id i" and k: "up k"
  from k obtain m where "sdk_motor_controller k = Some m" "length (mc_cached_status m) = 6"
    by (rule up_components)
  with k valid_motor_id_index [OF i]
  show "\<exists>k'. store_status i st k = Some k' \<and> up k' \<and> sdk_udp_client k' = sdk_udp_client k
      \<and> sdk_worker k' = sdk_worker k"
    by (auto simp: store_status_def up_def sdk_ready_def)
qed

lemma sound_change_encoder:
  assumes "\<And>r. encoder_wf r \<Longrightarrow> \<exists>r'. f r = Some r' \<and> encoder_wf r'"
  shows "sound_change (change_encoder f)"
  unfolding sound_change_def
proof (intro allI impI)
  fix k assume k: "up k"
  then obtain r where r: "sdk_encoder_reader k = Some r" "encoder_wf r" by (rule up_components)
  with assms [OF r(2)] k show "\<exists>k'. change_encoder f k = Some k' \<and> up k' \<and> sdk_udp_client k' = sdk_udp_client k
      \<and> sdk_worker k' = sdk_worker k"
    by (auto simp: change_encoder_def up_def sdk_ready_def)
qed

lemma sound_change_imu: "sound_change (change_imu f)"
  unfolding sound_change_def by (auto simp: change_imu_def up_def sdk_ready_def)

lemma read_encoders_safe:
  "(\<And>d. length (ed_adc_values d) = 16 \<Longrightarrow> op_safe (next d)) \<Longrightarrow> op_safe (read_encoders_op next)"
  by (auto simp: read_encoders_op_def encoder_response_def parse_encoder_data_eq split: option.splits)

lemma read_imu_safe: "(\<And>d. op_safe (next d)) \<Longrightarrow> op_safe (read_imu_op next)"
  by (auto simp: read_imu_op_def imu_response_def parse_imu_data_eq split: option.splits)

lemma update_motors_safe: "\<forall>i \<in> set ids. is_valid_motor_id i \<Longrightarrow> op_safe (update_motors_op ids any)"
  by (induction ids arbitrary: any)
    (auto simp: sound_store_status fine_response_def short_status_reply_def parse_motor_status_eq
      split: option.splits)

lemma command_safe: "op_safe (command_op r)"
  by (simp add: command_op_def)

lemma batch_safe: "op_safe (batch_op rs b)"
  by (induction rs arbitrary: b) (auto intro: op_then_safe command_safe)

lemma sensors_safe:
  "op_safe update_encoder_op" "op_safe update_imu_op" "op_safe calibrate_encoder_op" "op_safe calibrate_imu_op"
proof -
  show "op_safe update_encoder_op"
    unfolding update_encoder_op_def
    by (intro read_encoders_safe) (auto simp: encoder_wf_def intro!: sound_change_encoder)
  show "op_safe update_imu_op"
    unfolding update_imu_op_def
    by (intro read_imu_safe) (auto simp: store_imu_def sound_change_imu split: option.splits elim: up_components)
  show "op_safe calibrate_encoder_op"
    unfolding calibrate_encoder_op_def
    by (intro read_encoders_safe)
      (auto simp: encoder_wf_def adc_to_voltages_eq NUM_ENCODER_CHANNELS_def intro!: sound_change_encoder)
  show "op_safe calibrate_imu_op"
    unfolding calibrate_imu_op_def by (intro read_imu_safe) (simp add: sound_change_imu)
qed

lemma wrappers_safe:
  "op_safe x \<Longrightarrow> op_safe (segment_op present x)"
  "op_safe x \<Longrightarrow> op_safe (initialized_op x)"
  "(\<And>k. up k \<Longrightarrow> present k) \<Longrightarrow> op_safe x \<Longrightarrow> op_safe (through_op present x)"
  "op_safe x \<Longrightarrow> op_safe (motor_call_op x)"
  by (simp_all add: segment_op_def initialized_op_def through_op_def motor_call_op_def op_then_safe
      present_when_up)

lemma calibrations_safe: "op_safe calibrate_encoders_call" "op_safe calibrate_imu_call"
  by (auto simp: calibrate_encoders_call_def calibrate_imu_call_def sensors_safe present_when_up
      intro!: wrappers_safe)

lemma array_safe: "length vs = NUM_MOTORS \<Longrightarrow> op_safe (array_op command vs)"
  by (simp add: array_commands batch_safe NUM_MOTORS_def)

lemma call_safe: "well_sized call \<Longrightarrow> op_safe (call_op call)"
proof -
  have ids: "\<forall>i \<in> set motor_ids. is_valid_motor_id i" by (simp add: motor_ids_eq valid_motor_id_iff)
  show "well_sized call \<Longrightarrow> op_safe (call_op call)"
    by (cases call) (simp_all add: wrappers_safe update_motors_safe [OF ids] sensors_safe command_safe
        batch_safe array_safe calibrations_safe op_then_safe)
qed

fun thread_safe :: "op_thread \<Rightarrow> bool" where
  "thread_safe (Running x calls) \<longleftrightarrow> op_safe x \<and> (\<forall>call \<in> set calls. well_sized call)"
| "thread_safe (Awaiting next calls) \<longleftrightarrow>
     (\<forall>response now. fine_response response \<longrightarrow> op_safe (next response now)) \<and> (\<forall>call \<in> set calls. well_sized call)"
| "thread_safe Crashed \<longleftrightarrow> False"

lemma step_safe:
  assumes "no_short_packets os" and "op_step os (t, k, w) = Some (t', k', w')"
    and "thread_safe t" and "up k"
  shows "thread_safe t' \<and> up k' \<and> sdk_worker k' = sdk_worker k"
proof -
  obtain c where c: "sdk_udp_client k = Some c" using assms(4) by (rule up_components)
  show ?thesis
  proof (cases "(os, t, k, w)" rule: op_step.cases)
    case (4 os' f x calls k1 w1)
    with assms show ?thesis by (auto simp: sound_change_def split: option.splits)
  next
    case (6 os' p g calls k1 w1)
    obtain sent c1 w1 where s: "send_packet os p (c, w) = (sent, c1, w1)" by (cases "send_packet os p (c, w)")
    from send_packet_outcome(1) [OF s] have "up (k\<lparr>sdk_udp_client := Some c1\<rparr>)"
      by (intro up_client [OF assms(4) c]) simp_all
    with 6 s c assms show ?thesis by (auto simp: fine_response_def split: if_splits)
  next
    case (7 os' g calls k1 w1)
    obtain r c1 w1 where r: "receive_packet os (c, w) = Some (r, c1, w1)"
      using receive_packet_defined by (metis surj_pair)
    from r obtain a b where "c1 = update_receive_stats (r \<noteq> None) a b c" by (rule receive_packet_outcome)
    then have "up (k\<lparr>sdk_udp_client := Some c1\<rparr>)" by (intro up_client [OF assms(4) c]) simp_all
    moreover have "fine_response r" using r assms(1) unfolding fine_response_def no_short_packets_def by blast
    ultimately show ?thesis using 7 r c assms by auto
  qed (use assms in \<open>auto simp: call_safe\<close>)
qed

text \<open>The steps of a state that is safe, and whole runs.\<close>

definition safe_moves :: "'w os \<Rightarrow> op_thread \<times> 'w sdk \<Rightarrow> op_thread \<times> 'w sdk \<Rightarrow> bool" where
  "safe_moves os x y \<longleftrightarrow> op_moves os x y \<and> thread_safe (fst x) \<and> up (fst (snd x))"

definition all_safe :: "worker \<Rightarrow> op_thread list \<times> 'w sdk \<Rightarrow> bool" where
  "all_safe v S \<longleftrightarrow> (\<forall>t \<in> set (fst S). thread_safe t) \<and> up (fst (snd S)) \<and> sdk_worker (fst (snd S)) = v"

lemma all_safe_step:
  assumes "no_short_packets os" and "interleave (op_moves os) S S'" and "all_safe v S"
  shows "interleave (safe_moves os) S S' \<and> all_safe v S'"
  using assms(2)
proof (cases rule: interleave.cases)
  case (thread_step i ts s t' s')
  obtain k w k' w' where s: "s = (k, w)" "s' = (k', w')" by (metis surj_pair)
  have t: "thread_safe (ts ! i)" "up k" "sdk_worker k = v" using assms(3) thread_step s by (auto simp: all_safe_def)
  with step_safe [OF assms(1), of "ts ! i" k w t' k' w'] thread_step s
  have "thread_safe t'" "up k'" "sdk_worker k' = v" by (auto simp: op_moves_def)
  moreover have "interleave (safe_moves os) S S'"
    unfolding thread_step using thread_step t s
    by (auto simp: safe_moves_def intro: interleave.thread_step)
  ultimately show ?thesis
    using assms(3) thread_step s by (auto simp: all_safe_def dest!: set_update_subset_insert [THEN subsetD])
qed

lemma all_safe_run:
  assumes "no_short_packets os" and "(interleave (op_moves os))\<^sup>*\<^sup>* S S'" and "all_safe v S"
  shows "(interleave (safe_moves os))\<^sup>*\<^sup>* S S' \<and> all_safe v S'"
  using assms(2)
  by (induction rule: rtranclp_induct)
    (use assms in \<open>auto dest: all_safe_step [OF assms(1)] intro: rtranclp.rtrancl_into_rtrancl\<close>)

text \<open>The threads at their start, with the calls they will make.\<close>

definition threads :: "sdk_call list list \<Rightarrow> op_thread list" where
  "threads callss = map (Running (Return True)) callss"

lemma threads_safe:
  assumes "up k" and "\<forall>calls \<in> set callss. \<forall>call \<in> set calls. well_sized call"
  shows "all_safe (sdk_worker k) (threads callss, k, w)"
  using assms by (auto simp: all_safe_def threads_def)

section \<open>The counters\<close>

text \<open>A packet sent and not yet counted as received, timed out or failed belongs to a waiting thread.\<close>

fun awaiting :: "op_thread \<Rightarrow> bool" where
  "awaiting (Awaiting next calls) = True" | "awaiting _ = False"

definition open_exchanges :: "'w sdk \<Rightarrow> u64" where
  "open_exchanges kw = (case sdk_udp_client (fst kw) of
     None \<Rightarrow> 0 | Some c \<Rightarrow> packets_sent (uc_stats c) - receives_counted c)"

lemma safe_move_counted:
  assumes "safe_moves os (t, kw) (t', kw')"
  shows "of_bool (awaiting t') + - open_exchanges kw' = of_bool (awaiting t) + - open_exchanges kw"
proof -
  obtain k w k' w' where kw: "kw = (k, w)" "kw' = (k', w')" by (metis surj_pair)
  have step: "op_step os (t, k, w) = Some (t', k', w')" and t: "thread_safe t" and k: "up k"
    using assms kw by (simp_all add: safe_moves_def op_moves_def)
  obtain c where c: "sdk_udp_client k = Some c" using k by (rule up_components)
  show ?thesis
  proof (cases "(os, t, k, w)" rule: op_step.cases)
    case (4 os' f x calls k1 w1)
    with step t k kw show ?thesis by (auto simp: sound_change_def open_exchanges_def split: option.splits)
  next
    case (6 os' p g calls k1 w1)
    obtain sent c1 w1 where s: "send_packet os p (c, w) = (sent, c1, w1)" by (cases "send_packet os p (c, w)")
    with 6 step c kw show ?thesis
      by (cases sent) (auto simp: open_exchanges_def send_packet_outcome(1) [OF s] update_stats_counted)
  next
    case (7 os' g calls k1 w1)
    obtain r c1 w1 where r: "receive_packet os (c, w) = Some (r, c1, w1)"
      using receive_packet_defined by (metis surj_pair)
    from r obtain a b where "c1 = update_receive_stats (r \<noteq> None) a b c" by (rule receive_packet_outcome)
    with 7 step c kw r show ?thesis by (auto simp: open_exchanges_def update_stats_counted)
  qed (use step kw t in auto)
qed

interpretation exchanges: ledger "safe_moves os" "\<lambda>t. of_bool (awaiting t) :: u64" "\<lambda>kw. - open_exchanges kw"
  for os :: "'w os"
  by unfold_locales (rule safe_move_counted)

section \<open>Progress\<close>

text \<open>How many steps an operation takes at most, whatever is answered.\<close>

primrec op_within :: "op \<Rightarrow> nat \<Rightarrow> bool" where
  "op_within (Return b) = (\<lambda>n. True)"
| "op_within Broken = (\<lambda>n. True)"
| "op_within (Modify f next) = (\<lambda>n. 1 \<le> n \<and> op_within next (n - 1))"
| "op_within (Inspect next) = (\<lambda>n. 1 \<le> n \<and> (\<forall>k. op_within (next k) (n - 1)))"
| "op_within (Ask p next) = (\<lambda>n. 2 \<le> n \<and> (\<forall>response now. op_within (next response now) (n - 2)))"

lemma op_within_mono: "op_within x n \<Longrightarrow> n \<le> m \<Longrightarrow> op_within x m"
proof (induction x arbitrary: n m rule: op_induct)
  case (Modify f x)
  from Modify.prems Modify.IH [of "n - 1" "m - 1"] show ?case by auto
next
  case (Inspect g)
  from Inspect.prems Inspect.IH [of _ "n - 1" "m - 1"] show ?case by auto
next
  case (Ask p g)
  from Ask.prems Ask.IH [of _ _ "n - 2" "m - 2"] show ?case by auto
qed simp_all

lemma op_within_then: "op_within x n \<Longrightarrow> (\<And>b. op_within (f b) m) \<Longrightarrow> op_within (op_then x f) (n + m)"
proof (induction x arbitrary: n rule: op_induct)
  case (Modify g x)
  from Modify.IH [of "n - 1"] Modify.prems show ?case by auto
next
  case (Inspect g)
  from Inspect.IH [of _ "n - 1"] Inspect.prems show ?case by auto
next
  case (Ask p g)
  from Ask.IH [of _ _ "n - 2"] Ask.prems show ?case by auto
next
  case (Return b)
  have "op_within (f b) (n + m)" by (rule op_within_mono [OF Return.prems(2)]) simp
  then show ?case by simp
qed simp

lemma update_motors_within: "op_within (update_motors_op ids any) (3 * length ids)"
proof (induction ids arbitrary: any)
  case (Cons i ids)
  have "op_within (update_motors_op ids any) (Suc (3 * length ids))" for any
    by (rule op_within_mono [OF Cons.IH]) simp
  with Cons.IH show ?case by (auto split: option.splits)
qed simp

lemma command_within: "op_within (command_op r) 2"
  by (simp add: command_op_def)

lemma batch_within: "op_within (batch_op rs b) (2 * length rs)"
proof (induction rs arbitrary: b)
  case (Cons r rs)
  from op_within_then [OF command_within Cons.IH] show ?case by simp
qed simp

lemmas sensor_op_defs = read_encoders_op_def encoder_response_def read_imu_op_def imu_response_def update_encoder_op_def update_imu_op_def
  store_imu_def calibrate_encoder_op_def calibrate_imu_op_def

lemma sensors_within:
  "op_within update_encoder_op 18" "op_within update_imu_op 18"
  "op_within calibrate_encoders_call 9" "op_within calibrate_imu_call 9"
  by (auto simp: sensor_op_defs calibrate_encoders_call_def calibrate_imu_call_def initialized_op_def
      through_op_def split: option.splits)

lemma wrappers_within:
  "op_within x 18 \<Longrightarrow> op_within (segment_op present x) 19"
  "op_within x 18 \<Longrightarrow> op_within (initialized_op x) 19"
  "op_within x 17 \<Longrightarrow> op_within (motor_call_op x) 19"
  using op_within_then [of x 18 "\<lambda>_. Return True" 0]
  by (simp_all add: segment_op_def initialized_op_def through_op_def motor_call_op_def)

text \<open>The longest call is the motor segment, with a check and three steps for each motor.\<close>

lemma call_within:
  assumes "well_sized call"
  shows "op_within (call_op call) 19"
proof -
  have motors: "op_within (update_motors_op motor_ids False) 18"
    using update_motors_within [of motor_ids False] by (simp add: motor_ids_eq)
  have batch: "op_within (batch_op (map r ks) True) 17" if "length ks = 6" for r and ks :: "'b list"
    using op_within_mono [OF batch_within [of "map r ks" True], of 17] that by simp
  have array: "op_within (array_op command vs) 17" if "length vs = NUM_MOTORS" for command vs
    using that by (simp add: array_commands NUM_MOTORS_def batch del: upt_conv_Cons)
  have command: "op_within (command_op r) 17" for r
    by (rule op_within_mono [OF command_within]) simp
  have imu: "op_within (op_then calibrate_imu_call (\<lambda>i. Return (e \<and> i))) 9" for e
    using op_within_then [OF sensors_within(4), of "\<lambda>i. Return (e \<and> i)" 0] by simp
  have both: "op_within (op_then calibrate_encoders_call (\<lambda>e. op_then calibrate_imu_call (\<lambda>i. Return (e \<and> i)))) 18"
    using op_within_then [OF sensors_within(3) imu] by simp
  have six: "length motor_ids = 6" by (simp add: motor_ids_eq)
  show ?thesis
    by (cases call) (use assms in \<open>simp_all add: wrappers_within motors batch [OF six] array command both sensors_within
      op_within_mono [OF sensors_within(3)] op_within_mono [OF sensors_within(4)]\<close>)
qed

text \<open>The steps a thread has before it, twenty for each call it will make.\<close>

fun thread_within :: "op_thread \<Rightarrow> nat \<Rightarrow> bool" where
  "thread_within (Running x calls) n \<longleftrightarrow> (\<exists>m. op_within x m \<and> m + 20 * length calls \<le> n)"
| "thread_within (Awaiting next calls) n \<longleftrightarrow>
     (\<exists>m. (\<forall>response now. op_within (next response now) m) \<and> Suc (m + 20 * length calls) \<le> n)"
| "thread_within Crashed n \<longleftrightarrow> True"

lemma step_within:
  assumes "op_step os (t, kw) = Some (t', kw')" and "thread_safe t" and "thread_within t n"
  shows "0 < n \<and> thread_within t' (n - 1)"
proof (cases "(os, t, kw)" rule: op_step.cases)
  case (2 os' b call calls kw1)
  then have "op_within (call_op call) 19" using assms(2) by (simp add: call_within)
  with 2 assms show ?thesis by (auto intro!: exI [of _ 19])
next
  case (4 os' f x calls k w)
  with assms obtain m where "1 \<le> m" "op_within x (m - 1)" "m + 20 * length calls \<le> n" by auto
  with 4 assms show ?thesis by (auto intro!: exI [of _ "m - 1"] split: option.splits)
next
  case (5 os' g calls k w)
  with assms obtain m where "1 \<le> m" "\<forall>k. op_within (g k) (m - 1)" "m + 20 * length calls \<le> n" by auto
  with 5 assms show ?thesis by (auto intro!: exI [of _ "m - 1"])
next
  case (6 os' p g calls k w)
  with assms obtain m where m: "2 \<le> m" "\<forall>r t. op_within (g r t) (m - 2)" "m + 20 * length calls \<le> n" by auto
  then show ?thesis
    using 6 assms(1) by (auto simp: Let_def intro!: exI [of _ "m - 2"] split: option.splits prod.splits if_splits)
next
  case (7 os' g calls k w)
  with assms obtain m where "\<forall>r t. op_within (g r t) m" "Suc (m + 20 * length calls) \<le> n" by auto
  with 7 assms(1) show ?thesis by (auto intro!: exI [of _ m] split: option.splits)
qed (use assms in auto)

lemma only_returned_stays: "op_step os (t, kw) = None \<Longrightarrow> thread_safe t \<Longrightarrow> returned t"
  by (cases "(os, t, kw)" rule: op_step.cases) auto

lemma returned_within: "returned t \<Longrightarrow> thread_within t n"
  by (cases t rule: returned.cases) auto

text \<open>The turns a schedule gives a thread.\<close>

definition turns :: "(nat \<Rightarrow> nat) \<Rightarrow> nat \<Rightarrow> nat \<Rightarrow> nat" where
  "turns sched n i = length (filter (\<lambda>m. sched m = i) [0..<n])"

lemma turns_simps [simp]: "turns sched 0 i = 0" "turns sched (Suc n) i = turns sched n i + of_bool (sched n = i)"
  by (simp_all add: turns_def)

lemma all_safe_turn:
  assumes "no_short_packets os" and "all_safe v S"
  shows "all_safe v (turn (op_step os) i S)"
proof -
  have "op_moves os = (\<lambda>x y. op_step os x = Some y)" by (simp add: fun_eq_iff op_moves_def)
  then have "(interleave (op_moves os))\<^sup>*\<^sup>* S (turn (op_step os) i S)" by (simp add: turn_interleaves)
  from all_safe_run [OF assms(1) this assms(2)] show ?thesis ..
qed

lemma run_within:
  assumes "no_short_packets os" and "all_safe v S" and "i < length (fst S)" and "thread_within (fst S ! i) N"
  shows "all_safe v (run_turns (op_step os) sched S n) \<and> length (fst (run_turns (op_step os) sched S n)) = length (fst S)
    \<and> thread_within (fst (run_turns (op_step os) sched S n) ! i) (N - turns sched n i)"
proof (induction n)
  case (Suc n)
  obtain ts k w where S: "run_turns (op_step os) sched S n = (ts, k, w)" by (metis surj_pair)
  let ?j = "sched n"
  have safe: "all_safe v (turn (op_step os) ?j (ts, k, w))"
    using all_safe_turn [OF assms(1), of v "(ts, k, w)"] Suc S by simp
  have i: "i < length ts" "thread_safe (ts ! i)" "thread_within (ts ! i) (N - turns sched n i)"
    using Suc S assms(3) by (auto simp: all_safe_def)
  have "thread_within (fst (turn (op_step os) ?j (ts, k, w)) ! i) (N - (turns sched n i + of_bool (?j = i)))"
  proof (cases "?j = i")
    case True
    show ?thesis
    proof (cases "op_step os (ts ! i, k, w)")
      case None
      then show ?thesis using True i by (simp add: returned_within only_returned_stays)
    next
      case (Some y)
      obtain t' kw' where "y = (t', kw')" by (cases y)
      with Some step_within [OF _ i(2,3), of os "(k, w)" t' kw'] True i(1) show ?thesis by simp
    qed
  next
    case False
    then show ?thesis using i by (simp split: option.splits)
  qed
  then show ?case using safe S Suc by (simp split: option.splits prod.splits)
qed (use assms in auto)

lemma run_returns:
  assumes "no_short_packets os" and "all_safe v S" and "i < length (fst S)" and "thread_within (fst S ! i) N"
    and "N \<le> turns sched n i"
  shows "returned (fst (run_turns (op_step os) sched S n) ! i)"
proof -
  obtain ts kw where S: "run_turns (op_step os) sched S n = (ts, kw)" by (metis surj_pair)
  from run_within [OF assms(1-4), of sched n] S assms(3,5)
  have t: "thread_safe (ts ! i)" "thread_within (ts ! i) 0" by (auto simp: all_safe_def)
  have "op_step os (ts ! i, kw) = None"
  proof (rule ccontr)
    assume "op_step os (ts ! i, kw) \<noteq> None"
    then obtain t' kw' where "op_step os (ts ! i, kw) = Some (t', kw')" by (metis option.exhaust surj_pair)
    from step_within [OF this t] show False by simp
  qed
  with t(1) S show ?thesis by (simp add: only_returned_stays)
qed

section \<open>An update that overtakes a calibration\<close>

definition imu_angles :: "ImuData \<Rightarrow> f32 \<times> f32 \<times> f32" where
  "imu_angles d = (imu_roll d, imu_pitch d, imu_yaw d)"

definition reading :: "Packet \<Rightarrow> time \<Rightarrow> ImuData" where
  "reading q now = \<lparr>imu_roll = float_at (pkt_body q) 0, imu_pitch = float_at (pkt_body q) 4,
     imu_yaw = float_at (pkt_body q) 8, imu_timestamp = now\<rparr>"

text \<open>A glove at rest: every answer to a request for the IMU is the packet \<open>q\<close>.\<close>

definition resting :: "(u8 list \<Rightarrow> u8 list) \<Rightarrow> Packet \<Rightarrow> bool" where
  "resting answer q \<longleftrightarrow> parsed (answer_to answer (request_packet Read_Imu)) = Some q \<and> imu_reply_shape q"

text \<open>
  The schedule: the update reads and applies the calibration there is, none; then the calibration runs from
  its start to its end; then the update stores what it computed.
\<close>

definition overtaking :: "nat list" where
  "overtaking = [0, 0, 0, 0, 0, 1, 1, 1, 1, 1, 1, 0]"

lemma imu_exchange_steps:
  assumes "fifo_device os queue answer" and "resting answer q" and "queue w = []"
    and "sdk_udp_client k = Some c" and "uc_connected c"
  obtains c1 w1 w2 c2 where
    "op_step os (Running (Ask (request_packet Read_Imu) next) calls, k, w)
      = Some (Awaiting next calls, k\<lparr>sdk_udp_client := Some c1\<rparr>, w1)"
    and "\<forall>k'. sdk_udp_client k' = Some c1 \<longrightarrow> op_step os (Awaiting next calls, k', w1)
      = Some (Running (next (Some q) (os_now os w2)) calls, k'\<lparr>sdk_udp_client := Some c2\<rparr>, w2)"
    and "uc_connected c2" and "queue w2 = []"
proof -
  let ?p = "request_packet Read_Imu"
  obtain w1 where s: "send_packet os ?p (c, w) = (True, update_send_stats True c, w1)"
    "queue w1 = [answer_to answer ?p]"
    using fifo_send [OF assms(1,5), where p = ?p] assms(3) by (metis append_Nil)
  obtain c2 w2 where r: "receive_packet os (update_send_stats True c, w1) = Some (Some q, c2, w2)"
    "uc_connected c2" "queue w2 = []"
    using fifo_receive [OF assms(1) _ s(2), of "update_send_stats True c"] assms(2,5)
    by (auto simp: resting_def)
  have "op_step os (Awaiting next calls, k', w1)
      = Some (Running (next (Some q) (os_now os w2)) calls, k'\<lparr>sdk_udp_client := Some c2\<rparr>, w2)"
    if "sdk_udp_client k' = Some (update_send_stats True c)" for k'
    using that r by simp
  with s r assms(4) show thesis by (intro that [of "update_send_stats True c" w1 w2 c2]) simp_all
qed

text \<open>The two calls, at the packet of the glove.\<close>

definition zeroed_at :: "ImuData \<Rightarrow> ImuReader \<Rightarrow> ImuReader" where
  "zeroed_at d r = (let r = r\<lparr>ir_calibration := \<lparr>ic_roll_offset = imu_roll d, ic_pitch_offset = imu_pitch d,
       ic_yaw_offset = imu_yaw d, ic_is_calibrated = True\<rparr>\<rparr>
     in r\<lparr>ir_cached_data := imu_apply_calibration_unsafe r d\<rparr>)"

definition apply_and_store :: "ImuData \<Rightarrow> op" where
  "apply_and_store d = Inspect (\<lambda>k. case sdk_imu_reader k of
     None \<Rightarrow> Broken | Some r \<Rightarrow> store_imu (imu_apply_calibration r d))"

lemma update_imu_tree:
  "op_then update_imu_op (\<lambda>_. Return True) = Ask (request_packet Read_Imu) (\<lambda>response now.
     op_then (imu_response apply_and_store response now) (\<lambda>_. Return True))"
  by (simp add: update_imu_op_def read_imu_op_def apply_and_store_def [abs_def])

lemma calibrate_imu_tree:
  "calibrate_imu_op = Ask (request_packet Read_Imu)
     (imu_response (\<lambda>d. Modify (change_imu (zeroed_at d)) (Return True)))"
  by (simp add: calibrate_imu_op_def read_imu_op_def zeroed_at_def [abs_def])

lemma imu_response_reading:
  "imu_reply_shape q \<Longrightarrow> imu_response next (Some q) now = next (reading q now)"
  by (simp add: imu_response_def parse_imu_data_eq reading_def)

lemma overtaken:
  assumes "fifo_device os queue answer" and "resting answer q" and "queue w = []"
    and "up k" and "sdk_imu_reader k = Some r"
  shows "\<exists>t1 t2 k' w'. run_turns (op_step os) ((!) overtaking) (threads [[Update_Imu], [Calibrate_Imu]], k, w) 12
      = (threads [[], []], k', w')
    \<and> sdk_imu_reader k' = Some ((zeroed_at (reading q t2) r)\<lparr>ir_cached_data := imu_apply_calibration r (reading q t1)\<rparr>)"
proof -
  let ?u = "\<lambda>response now. op_then (imu_response apply_and_store response now) (\<lambda>_. Return True)"
  let ?v = "imu_response (\<lambda>d. Modify (change_imu (zeroed_at d)) (Return True))"
  have q: "imu_reply_shape q" using assms(2) by (simp add: resting_def)
  obtain c where c: "sdk_udp_client k = Some c" "uc_connected c" using assms(4) by (auto simp: up_def sdk_ready_def)
  obtain c1 w1 w2 c2 where 1: "op_step os (Running (Ask (request_packet Read_Imu) ?u) [], k, w)
      = Some (Awaiting ?u [], k\<lparr>sdk_udp_client := Some c1\<rparr>, w1)"
    "\<forall>k'. sdk_udp_client k' = Some c1 \<longrightarrow> op_step os (Awaiting ?u [], k', w1)
      = Some (Running (?u (Some q) (os_now os w2)) [], k'\<lparr>sdk_udp_client := Some c2\<rparr>, w2)"
    "uc_connected c2" "queue w2 = []"
    by (rule imu_exchange_steps [OF assms(1-3) c, of ?u "[]"])
  let ?k = "k\<lparr>sdk_udp_client := Some c2\<rparr>"
  have c2: "sdk_udp_client ?k = Some c2" by simp
  obtain c3 w3 w4 c4 where 2: "op_step os (Running (Ask (request_packet Read_Imu) ?v) [], ?k, w2)
      = Some (Awaiting ?v [], ?k\<lparr>sdk_udp_client := Some c3\<rparr>, w3)"
    "\<forall>k'. sdk_udp_client k' = Some c3 \<longrightarrow> op_step os (Awaiting ?v [], k', w3)
      = Some (Running (?v (Some q) (os_now os w4)) [], k'\<lparr>sdk_udp_client := Some c4\<rparr>, w4)"
    by (rule imu_exchange_steps [OF assms(1,2) 1(4) c2 1(3), of ?v "[]"])
  have k: "has_imu k" "ensure_initialized k" "has_imu ?k" "ensure_initialized ?k"
    using present_when_up [OF assms(4)] by (simp_all add: has_imu_def ensure_initialized_def)
  show ?thesis
    by (rule exI [of _ "os_now os w2"], rule exI [of _ "os_now os w4"], intro exI conjI)
      (simp add: numeral_eq_Suc overtaking_def threads_def segment_op_def update_imu_tree calibrate_imu_tree
        calibrate_imu_call_def initialized_op_def through_op_def k 1 2 imu_response_reading [OF q]
        apply_and_store_def store_imu_def change_imu_def assms(5) del: op_step.simps(6,7), simp)
qed

text \<open>One after the other, in either order.\<close>

lemma resting_read:
  assumes "fifo_device os queue answer" and "resting answer q" and "queue w = []" and "uc_connected c"
  obtains c' w' where
    "read_imu (send_and_receive os) (link_now os) (c, w) = Some (Some (reading q (os_now os w')), c', w')"
    and "uc_connected c'" and "queue w' = []"
proof -
  have a: "queue w @ [answer_to answer (request_packet Read_Imu)] = answer_to answer (request_packet Read_Imu) # []"
    using assms(3) by simp
  obtain c' w' where "send_and_receive os (request_packet Read_Imu) (c, w) = Some (Some q, c', w')"
    "uc_connected c'" "queue w' = []"
    by (rule fifo_exchange [OF assms(1,4) a]) (use assms(2) in \<open>simp add: resting_def\<close>)
  with assms(2) that show thesis
    by (simp add: read_imu_def encode_reads resting_def parse_imu_data_eq reading_def link_now_def)
qed

lemma serial_imu:
  assumes "fifo_device os queue answer" and "resting answer q" and "queue w = []"
    and "up k" and "sdk_imu_reader k = Some r"
  shows "\<exists>t1 t2 k' w'. atomic_calls os [Update_Imu, Calibrate_Imu] True (k, w) = Some (True, k', w')
      \<and> sdk_imu_reader k' = Some (zeroed_at (reading q t2) (r\<lparr>ir_cached_data := imu_apply_calibration r (reading q t1)\<rparr>))"
    and "\<exists>t1 t2 k' w'. atomic_calls os [Calibrate_Imu, Update_Imu] True (k, w) = Some (True, k', w')
      \<and> sdk_imu_reader k' = Some ((zeroed_at (reading q t1) r)\<lparr>ir_cached_data :=
          imu_apply_calibration (zeroed_at (reading q t1) r) (reading q t2)\<rparr>)"
proof -
  obtain c where c: "sdk_udp_client k = Some c" "uc_connected c" using assms(4) by (auto simp: up_def sdk_ready_def)
  obtain c1 w1 where 1: "read_imu (send_and_receive os) (link_now os) (c, w) = Some (Some (reading q (os_now os w1)), c1, w1)"
    "uc_connected c1" "queue w1 = []"
    by (rule resting_read [OF assms(1-3) c(2)])
  obtain c2 w2 where 2: "read_imu (send_and_receive os) (link_now os) (c1, w1) = Some (Some (reading q (os_now os w2)), c2, w2)"
    by (rule resting_read [OF assms(1,2) 1(3,2)])
  note steps = imu_segment_def via_imu_def imu_update_once_def calibrate_imu_def calibrate_zero_orientation_def
    c assms(5) 1 2 zeroed_at_def Let_def present_when_up [OF assms(4)] ensure_initialized_def
  have init: "sdk_initialized k" using assms(4) by (simp add: up_def)
  show "\<exists>t1 t2 k' w'. atomic_calls os [Update_Imu, Calibrate_Imu] True (k, w) = Some (True, k', w')
      \<and> sdk_imu_reader k' = Some (zeroed_at (reading q t2) (r\<lparr>ir_cached_data := imu_apply_calibration r (reading q t1)\<rparr>))"
    by (rule exI [of _ "os_now os w1"], rule exI [of _ "os_now os w2"], intro exI conjI)
      (simp add: steps init, simp add: zeroed_at_def Let_def)
  show "\<exists>t1 t2 k' w'. atomic_calls os [Calibrate_Imu, Update_Imu] True (k, w) = Some (True, k', w')
      \<and> sdk_imu_reader k' = Some ((zeroed_at (reading q t1) r)\<lparr>ir_cached_data :=
          imu_apply_calibration (zeroed_at (reading q t1) r) (reading q t2)\<rparr>)"
    by (rule exI [of _ "os_now os w1"], rule exI [of _ "os_now os w2"], intro exI conjI)
      (simp add: steps init, simp add: zeroed_at_def Let_def)
qed

text \<open>Finite angles minus themselves.\<close>

lemma zeroed_angles:
  assumes "f32_finite (float_at (pkt_body q) 0)" and "f32_finite (float_at (pkt_body q) 4)"
    and "f32_finite (float_at (pkt_body q) 8)"
  shows "imu_angles (imu_apply_calibration (zeroed_at (reading q t) r) (reading q t')) = (0, 0, 0)"
    and "imu_angles (ir_cached_data (zeroed_at (reading q t) r)) = (0, 0, 0)"
proof -
  have self: "f32_sub x x = 0" "wrapped_yaw x x = 0" if "f32_finite x" for x
    using f32_sub_self [of x "f32_units x"] wrapped_yaw_self [of x "f32_units x"] that by (auto simp: f32_is_def)
  show "imu_angles (imu_apply_calibration (zeroed_at (reading q t) r) (reading q t')) = (0, 0, 0)"
    and "imu_angles (ir_cached_data (zeroed_at (reading q t) r)) = (0, 0, 0)"
    using assms [THEN self(1)] self(2) [OF assms(3)]
    by (simp_all add: imu_angles_def imu_apply_calibration_def imu_apply_calibration_unsafe_def zeroed_at_def
        reading_def wrapped_yaw_def)
qed

section \<open>Properties\<close>

text \<open>
  C13. Undisturbed operations. A thread that makes any calls in a row, cut into its critical sections, ends in
  exactly the states and with exactly the result of the functions of the atomic model, one call after the
  other: the segments of the unified loop, the motor commands, single and batch, and the calibrations.
\<close>

theorem operations_alone:
  assumes "sdk_reachable os (k, w)" and "\<forall>call \<in> set calls. well_sized call"
  shows "(interleave (op_moves os))\<^sup>*\<^sup>* (threads [calls], k, w) ([Running (Return b) []], kw')
    \<longleftrightarrow> atomic_calls os calls True (k, w) = Some (b, kw')"
proof -
  have "sdk_inv (fst (k, w))" using sdk_reachable_inv [OF assms(1)] by simp
  from calls_alone_atomic [OF this assms(2), of os True b kw'] show ?thesis
    by (simp add: threads_def interleave_alone)
qed

text \<open>
  C7. Operations together. Any number of threads with any calls, cut into their critical sections, run on an
  initialised SDK without replies of 18 bytes: on no interleaving does a thread meet undefined behaviour,
  every thread that has calls left can go on, and the SDK stays initialised and keeps its invariant.
\<close>

theorem interleaved_calls_safe:
  assumes "no_short_packets os" and "sdk_reachable os (k, w)" and "sdk_initialized k"
    and "\<forall>calls \<in> set callss. \<forall>call \<in> set calls. well_sized call"
    and "(interleave (op_moves os))\<^sup>*\<^sup>* (threads callss, k, w) (ts, k', w')"
  shows "Crashed \<notin> set ts \<and> (\<forall>t \<in> set ts. returned t \<or> op_step os (t, k', w') \<noteq> None)
    \<and> sdk_initialized k' \<and> sdk_inv k'"
proof -
  have "up k" using sdk_reachable_inv [OF assms(2)] assms(3) by (simp add: up_of_inv)
  from all_safe_run [OF assms(1,5) threads_safe [OF this assms(4)]]
  have safe: "\<forall>t \<in> set ts. thread_safe t" "up k'" "sdk_worker k' = sdk_worker k" by (simp_all add: all_safe_def)
  then have "Crashed \<notin> set ts" by auto
  moreover have "\<forall>t \<in> set ts. returned t \<or> op_step os (t, k', w') \<noteq> None"
    using safe(1) by (metis only_returned_stays)
  moreover have "sdk_inv k'" using safe(2,3) sdk_reachable_inv [OF assms(2)] assms(3) by (auto simp: up_def sdk_inv_def)
  ultimately show ?thesis using safe(2) by (simp add: up_def)
qed

text \<open>
  C22. The counters under interleaved operations, provided that no datagram is parsed to a motor status reply with a body of 18 bytes.
  The threads run any calls of \<open>sdk_call\<close> (segments, commands, calibrations; \<open>reset_network_statistics\<close>, which would break the equation in the
  middle of an exchange, is not among them). When at the start every packet sent so far is accounted for (\<open>balanced\<close>), then at every
  moment of every interleaving the packets sent are those received, timed out, rejected or failed and the
  exchanges under way, and when all calls have returned every packet sent is accounted for again.
\<close>

theorem interleaved_calls_accounted:
  assumes "no_short_packets os" and "sdk_reachable os (k, w)" and "sdk_initialized k"
    and "\<forall>calls \<in> set callss. \<forall>call \<in> set calls. well_sized call"
    and "sdk_udp_client k = Some c" and "balanced c"
    and "(interleave (op_moves os))\<^sup>*\<^sup>* (threads callss, k, w) (ts, k', w')"
  shows "\<exists>c'. sdk_udp_client k' = Some c'
    \<and> packets_sent (uc_stats c') = receives_counted c' + of_nat (length (filter awaiting ts))
    \<and> ((\<forall>t \<in> set ts. returned t) \<longrightarrow> balanced c')"
proof -
  have "up k" using sdk_reachable_inv [OF assms(2)] assms(3) by (simp add: up_of_inv)
  from all_safe_run [OF assms(1,7) threads_safe [OF this assms(4)]]
  have run: "(interleave (safe_moves os))\<^sup>*\<^sup>* (threads callss, k, w) (ts, k', w')" and "up k'"
    by (simp_all add: all_safe_def)
  obtain c' where c': "sdk_udp_client k' = Some c'" using \<open>up k'\<close> by (rule up_components)
  have none: "filter awaiting (threads callss) = []" by (simp add: threads_def filter_empty_conv)
  have "of_nat (length (filter awaiting ts)) - open_exchanges (k', w') = - open_exchanges (k, w)"
    using exchanges.run_balance [OF run] none by (simp add: sum_list_of_bool)
  moreover have "open_exchanges (k, w) = 0" using assms(5,6) by (simp add: open_exchanges_def balanced_def)
  moreover have "filter awaiting ts = []" if "\<forall>t \<in> set ts. returned t"
    using that by (auto simp: filter_empty_conv elim: returned.elims awaiting.elims)
  ultimately show ?thesis using c' by (auto simp: open_exchanges_def balanced_def algebra_simps)
qed

text \<open>
  C14. No waiting, provided that no datagram is parsed to a motor status reply with a body of 18 bytes. Any number of threads, each with a
  list of calls of \<open>sdk_call\<close> (segments of the unified thread, commands, calibrations; not \<open>initialize\<close>, \<open>start\<close>, \<open>stop\<close>, \<open>shutdown\<close>),
  run on an initialised SDK. On every schedule a thread has returned from all its calls once
  it has had twenty turns for each: no call waits for another thread, and none needs more exchanges
  because of what others do. Sending and receiving are one step each; the socket timeouts end them.
\<close>

theorem interleaved_calls_return:
  assumes "no_short_packets os" and "sdk_reachable os (k, w)" and "sdk_initialized k"
    and "\<forall>calls \<in> set callss. \<forall>call \<in> set calls. well_sized call"
    and "i < length callss" and "20 * length (callss ! i) \<le> turns sched n i"
  shows "returned (fst (run_turns (op_step os) sched (threads callss, k, w) n) ! i)"
proof -
  have "up k" using sdk_reachable_inv [OF assms(2)] assms(3) by (simp add: up_of_inv)
  from threads_safe [OF this assms(4)] assms(5,6) show ?thesis
    by (intro run_returns [OF assms(1), where N = "20 * length (callss ! i)"]) (auto simp: threads_def)
qed

text \<open>
  C16. A calibration that is overtaken. With the glove at rest and the IMU not calibrated yet, calibrating and
  updating one after the other, in either order, leave all three cached angles at zero. But the update
  applies the calibration and stores the result in two critical sections: on an interleaving where the
  whole calibration runs between them, both calls succeed, the IMU is calibrated, and
  the cache holds the raw angles from before, which \<open>get_imu_orientation\<close> then returns.
\<close>

theorem calibration_overtaken:
  assumes "fifo_device os queue answer" and "resting answer q" and "queue w = []"
    and "sdk_initialized k" and "sdk_inv k" and "sdk_imu_reader k = Some r" and "\<not> ic_is_calibrated (ir_calibration r)"
    and "f32_finite (float_at (pkt_body q) 0)" and "f32_finite (float_at (pkt_body q) 4)"
    and "f32_finite (float_at (pkt_body q) 8)"
  shows "(\<forall>order \<in> {[Update_Imu, Calibrate_Imu], [Calibrate_Imu, Update_Imu]}. \<exists>k' w' r'.
      atomic_calls os order True (k, w) = Some (True, k', w') \<and> sdk_imu_reader k' = Some r'
      \<and> ic_is_calibrated (ir_calibration r') \<and> imu_angles (ir_cached_data r') = (0, 0, 0))
    \<and> (\<exists>k' w' r'. (interleave (op_moves os))\<^sup>*\<^sup>*
        (threads [[Update_Imu], [Calibrate_Imu]], k, w) (threads [[], []], k', w') \<and> sdk_imu_reader k' = Some r'
      \<and> ic_is_calibrated (ir_calibration r') \<and> imu_angles (ir_cached_data r') = imu_angles (reading q 0))"
proof
  have up: "up k" using assms(4,5) by (simp add: up_of_inv)
  note zero = zeroed_angles [OF assms(8-10)]
  have calibrated: "ic_is_calibrated (ir_calibration (zeroed_at d r))" for d r by (simp add: zeroed_at_def Let_def)
  show "\<forall>order \<in> {[Update_Imu, Calibrate_Imu], [Calibrate_Imu, Update_Imu]}. \<exists>k' w' r'.
      atomic_calls os order True (k, w) = Some (True, k', w') \<and> sdk_imu_reader k' = Some r'
      \<and> ic_is_calibrated (ir_calibration r') \<and> imu_angles (ir_cached_data r') = (0, 0, 0)"
    using serial_imu [OF assms(1-3) up assms(6)] zero calibrated by (auto simp del: atomic_calls.simps)
  obtain t1 t2 k' w' where run: "run_turns (op_step os) ((!) overtaking) (threads [[Update_Imu], [Calibrate_Imu]], k, w) 12
      = (threads [[], []], k', w')"
    and r': "sdk_imu_reader k' = Some ((zeroed_at (reading q t2) r)\<lparr>ir_cached_data := imu_apply_calibration r (reading q t1)\<rparr>)"
    using overtaken [OF assms(1-3) up assms(6)] by blast
  have "(interleave (op_moves os))\<^sup>*\<^sup>* (threads [[Update_Imu], [Calibrate_Imu]], k, w) (threads [[], []], k', w')"
    using run_turns_interleaves [of "op_step os" "(threads [[Update_Imu], [Calibrate_Imu]], k, w)" "(!) overtaking" 12]
    unfolding run op_moves_def [abs_def] .
  moreover have "imu_angles (imu_apply_calibration r (reading q t1)) = imu_angles (reading q 0)"
    using assms(7) by (simp add: imu_apply_calibration_def imu_apply_calibration_unsafe_def imu_angles_def reading_def)
  ultimately show "\<exists>k' w' r'. (interleave (op_moves os))\<^sup>*\<^sup>*
        (threads [[Update_Imu], [Calibrate_Imu]], k, w) (threads [[], []], k', w') \<and> sdk_imu_reader k' = Some r'
      \<and> ic_is_calibrated (ir_calibration r') \<and> imu_angles (ir_cached_data r') = imu_angles (reading q 0)"
    using r' calibrated by fastforce
qed

lemma no_short_packets_demo: "no_short_packets (device_os demo_reply)"
  unfolding no_short_packets_def
  by (intro allI impI) (rule device_receive_fine [OF demo_reply_fine])

theorem operations_alone_witness:
  "\<exists>k w b kw'. sdk_initialized k
     \<and> atomic_calls (device_os demo_reply) [Set_Motor_Force 1 10] True (k, w) = Some (b, kw')
     \<and> (interleave (op_moves (device_os demo_reply)))\<^sup>*\<^sup>* (threads [[Set_Motor_Force 1 10]], k, w)
         ([Running (Return b) []], kw')"
proof -
  let ?os = "device_os demo_reply"
  obtain k w where kw: "sdk_reachable ?os (k, w)" "sdk_initialized k" by (rule demo_running)
  have "up k" using sdk_reachable_inv [OF kw(1)] kw(2) by (simp add: up_of_inv)
  then obtain c m where c: "sdk_udp_client k = Some c" "sdk_motor_controller k = Some m" by (rule up_components)
  obtain r c' w' where "send_and_receive ?os (request_packet (Set_Force 1 10)) (c, w) = Some (r, c', w')"
    using send_and_receive_defined by (metis surj_pair)
  then obtain b kw' where run: "atomic_calls ?os [Set_Motor_Force 1 10] True (k, w) = Some (b, kw')"
    using c kw(2) by (auto simp: sdk_set_motor_force_def motor_command_def ensure_initialized_def via_motor_def
        set_motor_commands commanded_def)
  have "\<forall>call \<in> set [Set_Motor_Force 1 10]. well_sized call" by simp
  from operations_alone [OF kw(1) this, of b kw'] run kw(2) show ?thesis by blast
qed

text \<open>The unified thread with its three segments, and two user threads.\<close>

definition demo_calls :: "sdk_call list list" where
  "demo_calls = [[Update_Motors, Update_Encoders, Update_Imu],
     [Set_All_Positions [0, 100, 200, 300, 400, 500]], [Calibrate_All, Set_Motor_Force 1 10]]"

lemma demo_calls_sized: "\<forall>calls \<in> set demo_calls. \<forall>call \<in> set calls. well_sized call"
  by (simp add: demo_calls_def NUM_MOTORS_def)

theorem interleaved_calls_safe_witness:
  "\<exists>k w ts k' w'. sdk_initialized k
     \<and> run_turns (op_step (device_os demo_reply)) (\<lambda>n. n mod 3) (threads demo_calls, k, w) 30 = (ts, k', w')
     \<and> Crashed \<notin> set ts \<and> sdk_inv k'"
proof -
  let ?os = "device_os demo_reply"
  obtain k w where kw: "sdk_reachable ?os (k, w)" "sdk_initialized k" by (rule demo_running)
  obtain ts k' w' where run: "run_turns (op_step ?os) (\<lambda>n. n mod 3) (threads demo_calls, k, w) 30 = (ts, k', w')"
    by (metis surj_pair)
  have "(interleave (op_moves ?os))\<^sup>*\<^sup>* (threads demo_calls, k, w) (ts, k', w')"
    using run_turns_interleaves [of "op_step ?os" "(threads demo_calls, k, w)" "\<lambda>n. n mod 3" 30]
    unfolding run op_moves_def [abs_def] .
  from interleaved_calls_safe [OF no_short_packets_demo kw demo_calls_sized this] kw(2) run
  show ?thesis by blast
qed

theorem interleaved_calls_accounted_witness:
  "\<exists>k w ts k' w' c'. sdk_initialized k
     \<and> run_turns (op_step (device_os demo_reply)) (\<lambda>n. n mod 3) (threads demo_calls, k, w) 30 = (ts, k', w')
     \<and> sdk_udp_client k' = Some c'
     \<and> packets_sent (uc_stats c') = receives_counted c' + of_nat (length (filter awaiting ts))"
proof -
  let ?os = "device_os demo_reply"
  obtain k0 w where kw0: "sdk_reachable ?os (k0, w)" "sdk_initialized k0" by (rule demo_running)
  obtain c0 where c0: "sdk_udp_client k0 = Some c0"
    using sdk_reachable_inv [OF kw0(1)] kw0(2) by (auto simp: sdk_inv_def sdk_ready_def)
  let ?k = "reset_network_statistics k0"
  have kw: "sdk_reachable ?os (?k, w)" by (rule reach_sdk_step [OF kw0(1) step_reset])
  have k: "sdk_initialized ?k" "sdk_udp_client ?k = Some (reset_statistics c0)"
    using kw0(2) c0 by (simp_all add: reset_network_statistics_def)
  have "balanced (reset_statistics c0)"
    by (simp add: balanced_def receives_counted_def reset_statistics_def NetworkStatistics_default_def)
  note start = no_short_packets_demo kw k(1) demo_calls_sized k(2) this
  obtain ts k' w' where run: "run_turns (op_step ?os) (\<lambda>n. n mod 3) (threads demo_calls, ?k, w) 30 = (ts, k', w')"
    by (metis surj_pair)
  have "(interleave (op_moves ?os))\<^sup>*\<^sup>* (threads demo_calls, ?k, w) (ts, k', w')"
    using run_turns_interleaves [of "op_step ?os" "(threads demo_calls, ?k, w)" "\<lambda>n. n mod 3" 30]
    unfolding run op_moves_def [abs_def] .
  from interleaved_calls_accounted [OF start this] k(1) run show ?thesis by blast
qed

theorem interleaved_calls_return_witness:
  "\<exists>k w. sdk_initialized k
     \<and> returned (fst (run_turns (op_step (device_os demo_reply)) (\<lambda>n. n mod 3) (threads demo_calls, k, w) 180) ! 0)"
proof -
  obtain k w where kw: "sdk_reachable (device_os demo_reply) (k, w)" "sdk_initialized k" by (rule demo_running)
  have "20 * length (demo_calls ! 0) \<le> turns (\<lambda>n. n mod 3) 180 0" and "0 < length demo_calls" by code_simp+
  from interleaved_calls_return [OF no_short_packets_demo kw demo_calls_sized this(2,1)] kw(2)
  show ?thesis by blast
qed

text \<open>A glove that rolls by one degree, next to an SDK in its first state after initialisation.\<close>

definition rolled_frame :: "u8 list" where
  "rolled_frame = firmware_imu_frame (imu_body f32_one 0 0)"

definition fresh_sdk :: GloveSDK where
  "fresh_sdk = (GloveSDK_new GloveConfig_default)\<lparr>sdk_initialized := True, sdk_udp_client := Some online,
     sdk_motor_controller := Some (MotorController_new MotorControllerConfig_default 0),
     sdk_encoder_reader := Some (EncoderReader_new EncoderReaderConfig_default 0),
     sdk_imu_reader := Some (ImuReader_new ImuReaderConfig_default 0)\<rparr>"

theorem calibration_overtaken_witness:
  "\<exists>k' w' r'. (interleave (op_moves (fifo_os (\<lambda>_. rolled_frame))))\<^sup>*\<^sup>*
      (threads [[Update_Imu], [Calibrate_Imu]], fresh_sdk, sim_init []) (threads [[], []], k', w')
    \<and> sdk_imu_reader k' = Some r' \<and> ic_is_calibrated (ir_calibration r') \<and> imu_angles (ir_cached_data r') = (f32_one, 0, 0)"
proof -
  have "map_option (\<lambda>q. imu_reply_shape q \<and> imu_angles (reading q 0) = (f32_one, 0, 0)) (parsed rolled_frame) = Some True"
    by code_simp
  then obtain q where q: "parsed rolled_frame = Some q" "imu_reply_shape q"
    and angles: "imu_angles (reading q 0) = (f32_one, 0, 0)" by auto
  have "f32_finite f32_one" "f32_finite 0" by code_simp+
  with angles have finite: "f32_finite (float_at (pkt_body q) 0)" "f32_finite (float_at (pkt_body q) 4)"
    "f32_finite (float_at (pkt_body q) 8)" by (simp_all add: imu_angles_def reading_def)
  have "resting (\<lambda>_. rolled_frame) q" using q by (simp add: resting_def answer_to_def)
  moreover have "sim_queue (sim_init []) = []" by (simp add: sim_init_def)
  moreover have "length (mc_cached_status (MotorController_new MotorControllerConfig_default 0)) = 6" by code_simp
  then have "sdk_ready fresh_sdk online"
    by (simp add: fresh_sdk_def sdk_ready_def online_def encoder_wf_new)
  then have "sdk_initialized fresh_sdk" "sdk_inv fresh_sdk"
    by (auto simp: sdk_inv_def fresh_sdk_def GloveSDK_new_def worker_new_def)
  moreover have "sdk_imu_reader fresh_sdk = Some (ImuReader_new ImuReaderConfig_default 0)"
    "\<not> ic_is_calibrated (ir_calibration (ImuReader_new ImuReaderConfig_default 0))"
    by (simp_all add: fresh_sdk_def ImuReader_new_def ImuCalibration_default_def)
  ultimately show ?thesis
    using calibration_overtaken [OF fifo_device_sim _ _ _ _ _ _ finite] angles by metis
qed

end
