(* ===== verification/Shutdown_Calls.thy ===== *)
theory Shutdown_Calls
  imports Interleaved_Calls
begin

text \<open>
  \<open>shutdown\<close> next to the unified thread, with the segments of the thread cut into the critical sections of
  theory \<open>Interleaved_Calls\<close>: \<open>shutdown\<close> may clear the flag and wait in its join while an exchange is half way. It
  waits for the rest of the segment, at most twenty steps, and only then frees the components.
\<close>

section \<open>The threads\<close>

text \<open>
  The unified thread is at a load of its flag, or inside a segment it entered at some time, running the
  call of that segment; \<open>shutdown\<close> goes through its own phases as before.
\<close>

datatype fine_phase = Outer phase | Inside segment time op_thread

fun segment_call :: "segment \<Rightarrow> sdk_call" where
  "segment_call Motor_Segment = Update_Motors"
| "segment_call (Encoder_Segment start_time) = Update_Encoders"
| "segment_call (Imu_Segment start_time) = Update_Imu"

text \<open>The segment behind it; the first takes the start time when it is entered, the last sleeps.\<close>

fun segment_after :: "segment \<Rightarrow> time \<Rightarrow> segment" where
  "segment_after Motor_Segment entered = Encoder_Segment entered"
| "segment_after (Encoder_Segment start_time) entered = Imu_Segment start_time"
| "segment_after (Imu_Segment start_time) entered = Motor_Segment"

fun segment_sleep :: "'w os \<Rightarrow> segment \<Rightarrow> 'w sdk \<Rightarrow> 'w sdk" where
  "segment_sleep os (Imu_Segment start_time) kw = sleep_rest os start_time kw"
| "segment_sleep os seg kw = kw"

fun fine_step :: "'w os \<Rightarrow> fine_phase \<times> 'w shared \<Rightarrow> (fine_phase \<times> 'w shared) option" where
  "fine_step os (Outer (Loop_Load seg), (k, w), left) =
     Some (if thread_running (sdk_worker k)
           then (Inside seg (os_now os w) (Running (Return True) [segment_call seg]), (k, w), left)
           else (Outer Loop_Left, (k, w), True))"
| "fine_step os (Inside seg entered t, kw, left) =
     Some (if returned t then (Outer (Loop_Load (segment_after seg entered)), segment_sleep os seg kw, left)
           else case op_step os (t, kw) of
             None \<Rightarrow> (Outer Undefined, kw, left)
           | Some (t, kw) \<Rightarrow> (Inside seg entered t, kw, left))"
| "fine_step os (Outer p, s) = map_option (\<lambda>(p, s). (Outer p, s)) (sdk_thread_step os (\<lambda>kw. None) (p, s))"

text \<open>A whole segment without interference is the segment of the atomic model.\<close>

lemma segment_alone:
  assumes "sdk_inv (fst kw)"
  shows "run_segment os seg kw = Some (seg', kw'') \<longleftrightarrow>
    (\<exists>b kw'. (op_moves os)\<^sup>*\<^sup>* (Running (Return True) [segment_call seg], kw) (Running (Return b) [], kw')
       \<and> seg' = segment_after seg (os_now os (snd kw)) \<and> kw'' = segment_sleep os seg kw')"
proof -
  have "\<forall>call \<in> set [segment_call seg]. well_sized call" by (cases seg) simp_all
  note alone = calls_alone_atomic [OF assms this]
  show ?thesis unfolding alone by (cases seg) (auto simp: run_segment_def Let_def Option.bind_eq_Some_conv)
qed

section \<open>What every schedule keeps\<close>

fun loop_fine :: "fine_phase \<Rightarrow> bool \<Rightarrow> bool" where
  "loop_fine (Outer Loop_Left) left \<longleftrightarrow> left"
| "loop_fine (Outer (Loop_Load seg)) left \<longleftrightarrow> \<not> left"
| "loop_fine (Inside seg entered t) left \<longleftrightarrow> \<not> left \<and> thread_safe t \<and> thread_within t 20"
| "loop_fine p left \<longleftrightarrow> False"

fun shutdown_fine :: "phase \<Rightarrow> GloveSDK \<Rightarrow> bool \<Rightarrow> bool" where
  "shutdown_fine Shut_Check k left \<longleftrightarrow> serving k True True True \<and> \<not> left"
| "shutdown_fine Shut_Stop k left \<longleftrightarrow> serving k True True True \<and> \<not> left"
| "shutdown_fine Shut_Store k left \<longleftrightarrow> serving k True True True \<and> \<not> left"
| "shutdown_fine Shut_Join k left \<longleftrightarrow> serving k True False True"
| "shutdown_fine Shut_Clear k left \<longleftrightarrow> serving k True False False \<and> left"
| "shutdown_fine Shut_Release k left \<longleftrightarrow> serving k False False False \<and> left"
| "shutdown_fine Shut_Done k left \<longleftrightarrow> sdk_empty k \<and> \<not> sdk_initialized k \<and> left"
| "shutdown_fine _ k left \<longleftrightarrow> False"

fun fine_inv :: "fine_phase list \<times> 'w shared \<Rightarrow> bool" where
  "fine_inv ([p, Outer q], (k, w), left) \<longleftrightarrow> loop_fine p left \<and> shutdown_fine q k left"
| "fine_inv _ \<longleftrightarrow> False"

lemma shutdown_fine_serving:
  "shutdown_fine q k left \<Longrightarrow> \<not> left \<Longrightarrow> \<exists>r. serving k True r True"
  by (cases q) auto

lemma serving_up: "serving k True r j \<Longrightarrow> up k"
  by (auto simp: serving_def up_def)

lemma shutdown_fine_moved:
  "shutdown_fine q k left \<Longrightarrow> \<not> left \<Longrightarrow> up k' \<Longrightarrow> sdk_worker k' = sdk_worker k \<Longrightarrow> shutdown_fine q k' left"
  by (cases q) (auto simp: serving_def up_def)

lemma thread_within_mono: "thread_within t n \<Longrightarrow> n \<le> m \<Longrightarrow> thread_within t m"
  by (cases t) (simp; meson le_trans)+

lemma inside_step:
  assumes "no_short_packets os" and "thread_safe t" and "thread_within t n" and "up k" and "\<not> returned t"
  obtains t' k' w' where "op_step os (t, k, w) = Some (t', k', w')" and "thread_safe t'" and "up k'"
    and "sdk_worker k' = sdk_worker k" and "0 < n" and "thread_within t' (n - 1)"
proof -
  obtain t' k' w' where s: "op_step os (t, k, w) = Some (t', k', w')"
    using only_returned_stays [of os t "(k, w)"] assms(2,5) by fastforce
  from step_safe [OF assms(1) s assms(2,4)] step_within [OF s assms(2,3)] that [OF s] show thesis by blast
qed

text \<open>A turn of the unified thread, and a turn of \<open>shutdown\<close>.\<close>

lemma sleep_keeps: "fst (segment_sleep os seg kw) = fst kw"
  by (cases kw; cases seg) (simp_all add: sleep_rest_def Let_def)

lemma loop_turn:
  assumes "no_short_packets os" and "loop_fine p left" and "shutdown_fine q k left"
    and "fine_step os (p, (k, w), left) = Some (p', (k', w'), left')"
  shows "loop_fine p' left' \<and> shutdown_fine q k' left'"
proof (cases "(p, left)" rule: loop_fine.cases)
  case (2 seg l)
  then obtain r where "serving k True r True" using shutdown_fine_serving [OF assms(3)] assms(2) by auto
  then have "\<not> thread_running (sdk_worker k) \<Longrightarrow> q = Shut_Join"
    using assms(2,3) 2 by (cases q) (auto simp: serving_def)
  moreover have "thread_safe (Running (Return True) [segment_call seg])"
    "thread_within (Running (Return True) [segment_call seg]) 20"
    by (cases seg; auto)+
  ultimately show ?thesis using 2 assms(2-4) by (auto split: if_splits)
next
  case (3 seg e t l)
  then have t: "\<not> left" "thread_safe t" "thread_within t 20" using assms(2) by auto
  obtain r where r: "serving k True r True" using shutdown_fine_serving [OF assms(3) t(1)] by blast
  show ?thesis
  proof (cases "returned t")
    case True
    then show ?thesis using 3 assms(3,4) t(1) sleep_keeps [of os seg "(k, w)"] by auto
  next
    case False
    obtain t1 k1 w1 where s: "op_step os (t, k, w) = Some (t1, k1, w1)" "thread_safe t1" "up k1"
      "sdk_worker k1 = sdk_worker k" "thread_within t1 (20 - 1)"
      by (rule inside_step [OF assms(1) t(2,3) serving_up [OF r] False])
    from thread_within_mono [OF s(5)] have "thread_within t1 20" by simp
    with s 3 False assms(4) t(1) shutdown_fine_moved [OF assms(3) t(1) s(3,4)] show ?thesis by auto
  qed
qed (use assms in auto)

lemma shutdown_turn:
  assumes "loop_fine p left" and "shutdown_fine q k left"
    and "fine_step os (Outer q, (k, w), left) = Some (q', (k', w'), left')"
  shows "\<exists>q1. q' = Outer q1 \<and> loop_fine p left' \<and> shutdown_fine q1 k' left'"
proof (cases "q = Shut_Release")
  case True
  with assms cleanup_serving [of k os w] show ?thesis
    by (cases "cleanup_resources os (k, w)") auto
next
  case False
  with assms show ?thesis by (cases q) (auto simp: serving_def split: if_splits)
qed

lemma fine_inv_cases:
  assumes "fine_inv S"
  obtains p q k w left where "S = ([p, Outer q], (k, w), left)" and "loop_fine p left" and "shutdown_fine q k left"
  using assms by (cases S rule: fine_inv.cases) auto

lemma fine_inv_turn:
  assumes "no_short_packets os" and "fine_inv S"
  shows "fine_inv (turn (fine_step os) i S)"
proof -
  obtain p q k w left where S: "S = ([p, Outer q], (k, w), left)" and p: "loop_fine p left" and q: "shutdown_fine q k left"
    using fine_inv_cases [OF assms(2)] .
  consider "i = 0" | "i = 1" | "1 < i" by linarith
  then show ?thesis
  proof cases
    case 1
    then show ?thesis using S assms(2) loop_turn [OF assms(1) p q] by (auto split: option.splits)
  next
    case 2
    then show ?thesis using S assms(2) shutdown_turn [OF p q] by (fastforce split: option.splits)
  next
    case 3
    then have "turn (fine_step os) i S = S" unfolding S by simp
    with assms(2) show ?thesis by simp
  qed
qed

section \<open>How far shutdown is from its end\<close>

definition steps_left :: "op_thread \<Rightarrow> nat" where
  "steps_left t = (LEAST n. thread_within t n)"

lemma steps_left: "thread_within t n \<Longrightarrow> thread_within t (steps_left t) \<and> steps_left t \<le> n"
  unfolding steps_left_def by (meson LeastI Least_le)

text \<open>While it waits, the steps the unified thread still makes count; they are at most twenty.\<close>

fun fine_rank :: "fine_phase list \<times> 'w shared \<Rightarrow> nat" where
  "fine_rank ([p, Outer q], s) = (case q of
     Shut_Check \<Rightarrow> 50 | Shut_Stop \<Rightarrow> 49 | Shut_Store \<Rightarrow> 48
   | Shut_Join \<Rightarrow> (case p of Inside seg entered t \<Rightarrow> 6 + steps_left t | Outer (Loop_Load seg) \<Rightarrow> 5 | _ \<Rightarrow> 4)
   | Shut_Clear \<Rightarrow> 3 | Shut_Release \<Rightarrow> 2 | _ \<Rightarrow> 0)"
| "fine_rank _ = 0"

definition fine_mover :: "nat \<Rightarrow> nat" where
  "fine_mover r = (if 5 \<le> r \<and> r \<le> 26 then 0 else 1)"

lemma loop_rank:
  assumes "no_short_packets os" and "loop_fine p left" and "shutdown_fine q k left" and "q = Shut_Join" and "\<not> left"
  shows "\<exists>p' s'. fine_step os (p, (k, w), left) = Some (p', s')
    \<and> fine_rank ([p', Outer q], s') < fine_rank ([p, Outer q], (k, w), left)"
proof (cases "(p, left)" rule: loop_fine.cases)
  case (2 seg l)
  then show ?thesis using assms(3,4) by (auto simp: serving_def)
next
  case (3 seg e t l)
  then have t: "thread_safe t" "thread_within t 20" using assms(2) by auto
  show ?thesis
  proof (cases "returned t")
    case True
    then show ?thesis using 3 assms(4) by simp
  next
    case False
    have up: "up k" using assms(3,4) serving_up by simp
    obtain t1 k1 w1 where s: "op_step os (t, k, w) = Some (t1, k1, w1)" "0 < steps_left t"
      "thread_within t1 (steps_left t - 1)"
      by (rule inside_step [OF assms(1) t(1) steps_left [OF t(2), THEN conjunct1] up False])
    from steps_left [OF s(3)] s(2) have "steps_left t1 < steps_left t" by linarith
    with s(1) 3 False assms(4) show ?thesis by simp
  qed
qed (use assms in auto)

lemma fine_rank_turn:
  assumes "no_short_packets os" and "fine_inv S"
  shows "fine_rank (turn (fine_step os) i S) \<le> fine_rank S"
    and "0 < fine_rank S \<Longrightarrow> fine_rank (turn (fine_step os) (fine_mover (fine_rank S)) S) < fine_rank S"
proof -
  obtain p q k w left where S: "S = ([p, Outer q], (k, w), left)" and p: "loop_fine p left" and q: "shutdown_fine q k left"
    using fine_inv_cases [OF assms(2)] .
  have join: "fine_rank ([p, Outer Shut_Join], s) \<le> 26" "(fine_rank ([p, Outer Shut_Join], s) \<le> 4) = left"
      "4 \<le> fine_rank ([p, Outer Shut_Join], s)"
      for s :: "'w shared"
    using p by (cases "(p, left)" rule: loop_fine.cases; use steps_left in fastforce)+
  have loop: "fine_rank (turn (fine_step os) 0 S) \<le> fine_rank S
    \<and> (q = Shut_Join \<and> \<not> left \<longrightarrow> fine_rank (turn (fine_step os) 0 S) < fine_rank S)"
  proof (cases "q = Shut_Join \<and> \<not> left")
    case True
    then obtain p' s' where "fine_step os (p, (k, w), left) = Some (p', s')"
      "fine_rank ([p', Outer q], s') < fine_rank ([p, Outer q], (k, w), left)"
      using loop_rank [OF assms(1) p q] by blast
    with True S show ?thesis by (cases s') simp
  next
    case False
    show ?thesis
    proof (cases left)
      case True
      with p S show ?thesis by (cases "(p, left)" rule: loop_fine.cases) auto
    next
      case left: False
      with False have "q \<noteq> Shut_Join" by simp
      with S show ?thesis by (cases q) (auto split: option.splits)
    qed
  qed
  have shut: "fine_rank (turn (fine_step os) 1 S) \<le> fine_rank S
    \<and> (0 < fine_rank S \<and> (q = Shut_Join \<longrightarrow> left) \<longrightarrow> fine_rank (turn (fine_step os) 1 S) < fine_rank S)"
    using S q join [of "((k, w), left)"] by (cases q) (auto simp: serving_def)
  show "fine_rank (turn (fine_step os) i S) \<le> fine_rank S"
  proof -
    consider "i = 0" | "i = 1" | "1 < i" by linarith
    then show ?thesis using loop shut S by cases simp_all
  qed
  show "fine_rank (turn (fine_step os) (fine_mover (fine_rank S)) S) < fine_rank S" if "0 < fine_rank S"
  proof (cases "q = Shut_Join \<and> \<not> left")
    case True
    then have "fine_mover (fine_rank S) = 0" using S join [of "((k, w), left)"] by (simp add: fine_mover_def)
    with loop True show ?thesis by simp
  next
    case False
    then have "fine_mover (fine_rank S) = 1"
      using S join(2) [of "((k, w), left)"] that by (cases q) (auto simp: fine_mover_def)
    with shut False that show ?thesis by auto
  qed
qed

section \<open>Properties\<close>

lemma fine_start:
  assumes "sdk_reachable os (k, w)" and "sdk_initialized k" and "thread_joinable (sdk_worker k)"
  shows "fine_inv ([Outer (Loop_Load Motor_Segment), Outer Shut_Check], (k, w), False)"
proof -
  have "sdk_inv k" using sdk_reachable_inv [OF assms(1)] by simp
  with assms(2,3) show ?thesis by (cases "sdk_worker k") (auto simp: sdk_inv_def serving_def)
qed

text \<open>
  C6. Shutting down in the middle of an exchange, provided that no datagram is parsed to a motor status reply with a body of 18 bytes
  (\<open>no_short_packets\<close>; such a reply makes the unified thread undefined by itself). From a reachable initialised state with a joinable unified thread, on every
  schedule of a thread in \<open>shutdown\<close> and the unified
  thread, whose segments are cut at every lock: neither ever meets undefined
  behaviour, and when \<open>shutdown\<close> has returned the unified thread has ended and nothing is left of the components.
\<close>

theorem shutdown_waits_for_every_section:
  assumes "no_short_packets os" and "sdk_reachable os (k, w)"
    and "sdk_initialized k" and "thread_joinable (sdk_worker k)"
    and "run_turns (fine_step os) sched ([Outer (Loop_Load Motor_Segment), Outer Shut_Check], (k, w), False) n
      = ([p, q], (k', w'), left)"
  shows "p \<noteq> Outer Undefined \<and> q \<noteq> Outer Undefined \<and> (\<forall>seg entered. p \<noteq> Inside seg entered Crashed)
    \<and> (q = Outer Shut_Done \<longrightarrow> p = Outer Loop_Left \<and> sdk_empty k')"
proof -
  have "fine_inv ([p, q], (k', w'), left)"
    using run_turns_invariant [of fine_inv, OF fine_inv_turn [OF assms(1)] fine_start [OF assms(2-4)]]
    unfolding assms(5) [symmetric] .
  then obtain q1 where "q = Outer q1" "loop_fine p left" "shutdown_fine q1 k' left"
    by (auto elim: fine_inv_cases)
  then show ?thesis by (cases "(p, left)" rule: loop_fine.cases; cases q1) auto
qed

text \<open>
  C12. \<open>shutdown\<close> returns, provided that no datagram is parsed to a motor status reply with a body of 18 bytes (on such a reply the
  unified thread is undefined, and \<open>shutdown\<close> has nothing to join). From a reachable initialised state with a joinable unified thread, on every fair
  schedule of the two threads \<open>shutdown\<close> returns, wherever in the middle of
  an exchange the unified thread is when the flag is cleared, with the unified thread ended.
\<close>

theorem shutdown_returns_from_every_section:
  assumes "no_short_packets os" and "sdk_reachable os (k, w)"
    and "sdk_initialized k" and "thread_joinable (sdk_worker k)" and "fair 2 sched"
  shows "\<exists>n k' w'. run_turns (fine_step os) sched ([Outer (Loop_Load Motor_Segment), Outer Shut_Check], (k, w), False) n
    = ([Outer Loop_Left, Outer Shut_Done], (k', w'), True)"
proof -
  let ?run = "run_turns (fine_step os) sched ([Outer (Loop_Load Motor_Segment), Outer Shut_Check], (k, w), False)"
  note start = fine_start [OF assms(2-4)]
  have "\<exists>m \<ge> 0. fine_rank (?run m) = 0"
  proof (rule fair_termination [OF assms(5), where good = fine_inv and mover = fine_mover])
    show "fine_inv (?run 0)" using start by simp
  qed (use fine_inv_turn [OF assms(1)] fine_rank_turn [OF assms(1)] in \<open>auto simp: fine_mover_def\<close>)
  then obtain m where m: "fine_rank (?run m) = 0" by blast
  have "fine_inv (?run m)"
    by (rule run_turns_invariant) (use fine_inv_turn [OF assms(1)] start in auto)
  then obtain p q k' w' left where S: "?run m = ([p, Outer q], (k', w'), left)"
    and p: "loop_fine p left" and q: "shutdown_fine q k' left"
    by (rule fine_inv_cases)
  have "q = Shut_Done" using m S q by (cases q) (auto split: fine_phase.splits phase.splits)
  with p q S have "?run m = ([Outer Loop_Left, Outer Shut_Done], (k', w'), True)"
    by (cases "(p, left)" rule: loop_fine.cases) auto
  then show ?thesis by blast
qed

text \<open>The unified thread half way through its first exchange, next to \<open>shutdown\<close>.\<close>

theorem shutdown_waits_for_every_section_witness:
  "\<exists>k w p q k' w' left. thread_running (sdk_worker k)
     \<and> run_turns (fine_step (device_os demo_reply)) ((!) [0, 1, 0, 1, 0, 1, 0])
         ([Outer (Loop_Load Motor_Segment), Outer Shut_Check], (k, w), False) 7 = ([p, q], (k', w'), left)
     \<and> q = Outer Shut_Join \<and> p \<noteq> Outer Undefined"
proof -
  let ?os = "device_os demo_reply" and ?start = "[Outer (Loop_Load Motor_Segment), Outer Shut_Check]"
  obtain k w where kw: "sdk_reachable ?os (k, w)" "sdk_initialized k"
    "thread_running (sdk_worker k)" "thread_joinable (sdk_worker k)" by (rule demo_running)
  have up: "up k" using sdk_reachable_inv [OF kw(1)] kw(2) by (simp add: up_of_inv)
  then obtain c where c: "sdk_udp_client k = Some c" by (rule up_components)
  obtain sent c' w' where s: "send_packet ?os (request_packet (Read_Status 1)) (c, w) = (sent, c', w')"
    by (metis surj_pair)
  have "\<exists>p k' w'. run_turns (fine_step ?os) ((!) [0, 1, 0, 1, 0, 1, 0]) (?start, (k, w), False) 7
      = ([p, Outer Shut_Join], (k', w'), False)"
    using kw c s present_when_up [OF up]
    by (simp add: numeral_eq_Suc segment_op_def has_motor_def motor_ids_eq)
  then obtain p k' w' where run: "run_turns (fine_step ?os) ((!) [0, 1, 0, 1, 0, 1, 0]) (?start, (k, w), False) 7
      = ([p, Outer Shut_Join], (k', w'), False)" by blast
  from shutdown_waits_for_every_section [OF no_short_packets_demo kw(1,2,4) run] kw(3) run show ?thesis by blast
qed

theorem shutdown_returns_from_every_section_witness:
  "\<exists>k w n k' w'. thread_running (sdk_worker k)
     \<and> run_turns (fine_step (device_os demo_reply)) (\<lambda>n. n mod 2)
         ([Outer (Loop_Load Motor_Segment), Outer Shut_Check], (k, w), False) n
       = ([Outer Loop_Left, Outer Shut_Done], (k', w'), True)"
proof -
  obtain k w where kw: "sdk_reachable (device_os demo_reply) (k, w)" "sdk_initialized k"
    "thread_running (sdk_worker k)" "thread_joinable (sdk_worker k)" by (rule demo_running)
  have "fair 2 (\<lambda>n. n mod 2)" by (rule fair_round_robin) simp
  from shutdown_returns_from_every_section [OF no_short_packets_demo kw(1,2,4) this] kw(3) show ?thesis by blast
qed

end
