(* ===== verification/Angle_Reads.thy ===== *)
theory Angle_Reads
  imports Interleaved_Calls
begin

text \<open>
  \<open>get_encoder_angles\<close> next to other threads. The method copies the cached reading under one mutex and applies the
  calibration under another, so it is a thread of its own here, with three steps, beside the threads of
  \<open>Interleaved_Calls\<close>. The lemmas show when its result is one that the atomic method could have returned.
\<close>

section \<open>The method in steps\<close>

text \<open>
  Before the check of the flag, before the copy, with the copy, with the result, and where it has no defined
  behaviour.
\<close>

datatype angle_reader = Checking | Copying | Holding EncoderData | Answered "f32 list" | Lost

fun angle_step :: "angle_reader \<Rightarrow> GloveSDK \<Rightarrow> angle_reader option" where
  "angle_step Checking k =
     Some (if \<not> ensure_initialized k then Answered (replicate NUM_ENCODER_CHANNELS 0) else Copying)"
| "angle_step Copying k =
     Some (case sdk_encoder_reader k of None \<Rightarrow> Lost | Some r \<Rightarrow> Holding (encoder_cached_data r))"
| "angle_step (Holding data) k =
     Some (case do {
         r \<leftarrow> sdk_encoder_reader k;
         voltages \<leftarrow> adc_to_voltages (ed_adc_values data);
         voltages_to_angles r voltages }
       of None \<Rightarrow> Lost | Some angles \<Rightarrow> Answered angles)"
| "angle_step (Answered angles) k = None"
| "angle_step Lost k = None"

text \<open>The reader next to any threads: a step of the whole is one of the reader or one of theirs.\<close>

inductive beside_calls ::
  "'w os \<Rightarrow> angle_reader \<times> op_thread list \<times> 'w sdk \<Rightarrow> angle_reader \<times> op_thread list \<times> 'w sdk \<Rightarrow> bool" for os where
  reader_turn: "angle_step a k = Some a' \<Longrightarrow> beside_calls os (a, ts, k, w) (a', ts, k, w)"
| others_turn: "interleave (op_moves os) (ts, kw) (ts', kw') \<Longrightarrow> beside_calls os (a, ts, kw) (a, ts', kw')"

inductive_cases beside_callsE: "beside_calls os S S'"

section \<open>What an operation leaves alone\<close>

text \<open>The operations all of whose critical sections keep what \<open>P\<close> shows of the SDK.\<close>

primrec op_keeps :: "(GloveSDK \<Rightarrow> 'b) \<Rightarrow> op \<Rightarrow> bool" where
  "op_keeps P (Return b) \<longleftrightarrow> True"
| "op_keeps P Broken \<longleftrightarrow> True"
| "op_keeps P (Modify f next) \<longleftrightarrow> (\<forall>k k'. f k = Some k' \<longrightarrow> P k' = P k) \<and> op_keeps P next"
| "op_keeps P (Inspect next) \<longleftrightarrow> (\<forall>k. op_keeps P (next k))"
| "op_keeps P (Ask p next) \<longleftrightarrow> (\<forall>response now. op_keeps P (next response now))"

fun thread_keeps :: "(GloveSDK \<Rightarrow> 'b) \<Rightarrow> op_thread \<Rightarrow> bool" where
  "thread_keeps P (Running x calls) \<longleftrightarrow> op_keeps P x \<and> (\<forall>call \<in> set calls. op_keeps P (call_op call))"
| "thread_keeps P (Awaiting next calls) \<longleftrightarrow>
     (\<forall>response now. op_keeps P (next response now)) \<and> (\<forall>call \<in> set calls. op_keeps P (call_op call))"
| "thread_keeps P Crashed \<longleftrightarrow> True"

lemma op_then_keeps: "op_keeps P x \<Longrightarrow> (\<And>b. op_keeps P (f b)) \<Longrightarrow> op_keeps P (op_then x f)"
  by (induction x rule: op_induct) auto

lemma step_keeps:
  assumes "op_step os (t, k, w) = Some (t', k', w')" and "thread_keeps P t"
    and "\<And>k c. P (k\<lparr>sdk_udp_client := c\<rparr>) = P k"
  shows "thread_keeps P t' \<and> P k' = P k"
  using assms
  by (cases "(os, t, k, w)" rule: op_step.cases) (auto simp: Let_def split: option.splits if_splits prod.splits)

lemma interleave_keeps:
  assumes "interleave (op_moves os) (ts, k, w) (ts', k', w')" and "\<forall>t \<in> set ts. thread_keeps P t"
    and "\<And>k c. P (k\<lparr>sdk_udp_client := c\<rparr>) = P k"
  shows "(\<forall>t \<in> set ts'. thread_keeps P t) \<and> P k' = P k"
proof -
  from assms(1) obtain i t' where i: "i < length ts" "op_step os (ts ! i, k, w) = Some (t', k', w')" "ts' = ts[i := t']"
    by (auto elim!: interleaveE simp: op_moves_def)
  from step_keeps [OF i(2) _ assms(3)] i assms(2) show ?thesis
    by (auto dest!: set_update_subset_insert [THEN subsetD])
qed

text \<open>The calibration of the encoders, which all calls but two keep.\<close>

definition zero_point :: "GloveSDK \<Rightarrow> EncoderCalibration option" where
  "zero_point k = map_option er_calibration (sdk_encoder_reader k)"

definition calibrates_encoders :: "sdk_call \<Rightarrow> bool" where
  "calibrates_encoders call \<longleftrightarrow> call \<in> {Calibrate_Encoders, Calibrate_All}"

lemma zero_point_client [simp]: "zero_point (k\<lparr>sdk_udp_client := c\<rparr>) = zero_point k"
  by (simp add: zero_point_def)

lemma update_motors_keeps: "op_keeps zero_point (update_motors_op ids any)"
  by (induction ids any rule: update_motors_op.induct)
    (auto simp: store_status_def zero_point_def Option.bind_eq_Some_conv split: option.splits)

lemma command_keeps: "op_keeps P (command_op r)"
  by (simp add: command_op_def)

lemma batch_keeps: "op_keeps P (batch_op rs b)"
  by (induction rs b rule: batch_op.induct) (auto intro: op_then_keeps command_keeps)

lemma array_keeps: "op_keeps P (array_op command vs)"
  by (auto simp: array_op_def batch_keeps split: option.splits)

lemma sensors_keep:
  "op_keeps zero_point update_encoder_op" "op_keeps zero_point update_imu_op" "op_keeps zero_point calibrate_imu_op"
  by (auto simp: sensor_op_defs calibrate_imu_op_def store_imu_def change_encoder_def change_imu_def zero_point_def
      Let_def Option.bind_eq_Some_conv split: option.splits)

lemma wrappers_keep:
  "op_keeps P x \<Longrightarrow> op_keeps P (segment_op present x)" "op_keeps P x \<Longrightarrow> op_keeps P (motor_call_op x)"
  "op_keeps P x \<Longrightarrow> op_keeps P (initialized_op x)" "op_keeps P x \<Longrightarrow> op_keeps P (through_op present x)"
  by (auto simp: segment_op_def motor_call_op_def initialized_op_def through_op_def intro: op_then_keeps)

lemma call_keeps: "\<not> calibrates_encoders call \<Longrightarrow> op_keeps zero_point (call_op call)"
  by (cases call) (auto simp: calibrates_encoders_def calibrate_imu_call_def
      intro!: wrappers_keep update_motors_keeps command_keeps batch_keeps array_keeps sensors_keep)

section \<open>Next to updates and commands\<close>

lemma same_zero_point: "er_calibration r = er_calibration r' \<Longrightarrow> voltages_to_angles r v = voltages_to_angles r' v"
  by (simp add: voltages_to_angles_def encoder_apply_calibration_def encoder_apply_calibration_unsafe_def)

text \<open>The angles are those of a moment \<open>k1\<close> of the run.\<close>

lemma answer_of_moment:
  assumes "up k1" and "up k" and "zero_point k = zero_point k1"
    and "sdk_encoder_reader k1 = Some r1"
  shows "\<exists>angles. angle_step (Holding (encoder_cached_data r1)) k = Some (Answered angles)
    \<and> get_encoder_angles k1 = Some angles"
proof -
  obtain r where r: "sdk_encoder_reader k = Some r" using assms(2) by (rule up_components)
  have same: "voltages_to_angles r = voltages_to_angles r1"
    using assms(3,4) r by (intro ext same_zero_point) (simp add: zero_point_def)
  have "encoder_wf r1" "ensure_initialized k1"
    using assms(1,4) by (auto simp: up_def sdk_ready_def ensure_initialized_def)
  with get_cached_angles_total [of r1] show ?thesis
    using r assms(4) same
    by (auto simp: get_encoder_angles_def get_cached_angles_def encoder_wf_def split: option.splits)
qed

text \<open>What holds of the reader at every moment of a run from \<open>S0\<close>.\<close>

fun reader_ok :: "'w os \<Rightarrow> op_thread list \<times> 'w sdk \<Rightarrow> angle_reader \<Rightarrow> op_thread list \<times> 'w sdk \<Rightarrow> bool" where
  "reader_ok os S0 Checking S \<longleftrightarrow> True"
| "reader_ok os S0 Copying S \<longleftrightarrow> True"
| "reader_ok os S0 (Holding d) S \<longleftrightarrow> (\<exists>ts1 k1 w1 r1.
     (interleave (op_moves os))\<^sup>*\<^sup>* S0 (ts1, k1, w1) \<and> (interleave (op_moves os))\<^sup>*\<^sup>* (ts1, k1, w1) S
     \<and> up k1 \<and> zero_point (fst (snd S)) = zero_point k1 \<and> sdk_encoder_reader k1 = Some r1 \<and> d = encoder_cached_data r1)"
| "reader_ok os S0 (Answered angles) S \<longleftrightarrow> (\<exists>ts1 k1 w1.
     (interleave (op_moves os))\<^sup>*\<^sup>* S0 (ts1, k1, w1) \<and> (interleave (op_moves os))\<^sup>*\<^sup>* (ts1, k1, w1) S
     \<and> get_encoder_angles k1 = Some angles)"
| "reader_ok os S0 Lost S \<longleftrightarrow> False"

definition run_ok :: "'w os \<Rightarrow> worker \<Rightarrow> op_thread list \<times> 'w sdk \<Rightarrow> angle_reader \<times> op_thread list \<times> 'w sdk \<Rightarrow> bool" where
  "run_ok os v S0 A \<longleftrightarrow> (interleave (op_moves os))\<^sup>*\<^sup>* S0 (snd A) \<and> all_safe v (snd A)
     \<and> (\<forall>t \<in> set (fst (snd A)). thread_keeps zero_point t) \<and> reader_ok os S0 (fst A) (snd A)"

lemma reader_ok_others:
  assumes "reader_ok os S0 a S" and "interleave (op_moves os) S S'" and "zero_point (fst (snd S')) = zero_point (fst (snd S))"
  shows "reader_ok os S0 a S'"
  using assms
proof (cases a)
  case (Holding d)
  with assms(1) obtain ts1 k1 w1 r1 where
    "(interleave (op_moves os))\<^sup>*\<^sup>* S0 (ts1, k1, w1)" "(interleave (op_moves os))\<^sup>*\<^sup>* (ts1, k1, w1) S"
    "up k1" "zero_point (fst (snd S)) = zero_point k1" "sdk_encoder_reader k1 = Some r1" "d = encoder_cached_data r1"
    by auto
  with Holding assms(2,3) show ?thesis
    by (auto intro!: exI [of _ ts1] exI [of _ k1] exI [of _ w1] exI [of _ r1] intro: rtranclp.rtrancl_into_rtrancl)
next
  case (Answered angles)
  with assms show ?thesis by simp (meson rtranclp.rtrancl_into_rtrancl)
qed simp_all

lemma run_ok_step:
  assumes "no_short_packets os" and "run_ok os v S0 A" and "beside_calls os A A'"
  shows "run_ok os v S0 A'"
  using assms(3)
proof (cases rule: beside_calls.cases)
  case (reader_turn a k a' ts w)
  have k: "up k" using assms(2) reader_turn by (simp add: run_ok_def all_safe_def)
  then obtain r where r: "sdk_encoder_reader k = Some r" by (rule up_components)
  have "reader_ok os S0 a' (ts, k, w)"
  proof (cases a)
    case Checking
    with reader_turn k show ?thesis by (auto simp: present_when_up)
  next
    case Copying
    with reader_turn k r assms(2) show ?thesis
      by (auto simp: run_ok_def intro!: exI [of _ ts] exI [of _ k] exI [of _ w] exI [of _ r])
  next
    case (Holding d)
    with assms(2) reader_turn obtain ts1 k1 w1 r1 where
      "(interleave (op_moves os))\<^sup>*\<^sup>* S0 (ts1, k1, w1)" "(interleave (op_moves os))\<^sup>*\<^sup>* (ts1, k1, w1) (ts, k, w)"
      "up k1" "zero_point k = zero_point k1" "sdk_encoder_reader k1 = Some r1" "d = encoder_cached_data r1"
      by (auto simp: run_ok_def)
    with answer_of_moment [of k1 k r1] k reader_turn Holding show ?thesis by fastforce
  qed (use reader_turn in simp_all)
  with assms(2) reader_turn show ?thesis by (simp add: run_ok_def)
next
  case (others_turn ts kw ts' kw' a)
  have safe: "all_safe v (ts', kw')"
    using all_safe_step [OF assms(1) others_turn(3)] assms(2) others_turn by (simp add: run_ok_def)
  obtain k w k' w' where kw: "kw = (k, w)" "kw' = (k', w')" by (metis surj_pair)
  have keeps: "(\<forall>t \<in> set ts'. thread_keeps zero_point t) \<and> zero_point k' = zero_point k"
    using interleave_keeps [of os ts k w ts' k' w' zero_point] assms(2) others_turn kw by (simp add: run_ok_def)
  with reader_ok_others [of os S0 a "(ts, kw)" "(ts', kw')"] assms(2) others_turn safe kw
  show ?thesis by (auto simp: run_ok_def intro: rtranclp.rtrancl_into_rtrancl)
qed

lemma run_ok_run:
  assumes "no_short_packets os" and "(beside_calls os)\<^sup>*\<^sup>* A A'" and "run_ok os v S0 A"
  shows "run_ok os v S0 A'"
  using assms(2,3) by (induction rule: rtranclp_induct) (auto dest: run_ok_step [OF assms(1)])

section \<open>Next to a calibration\<close>

text \<open>A run of the other threads is one beside the reader, at any of its points.\<close>

lemma others_run:
  assumes "(interleave (op_moves os))\<^sup>*\<^sup>* S S'"
  shows "(beside_calls os)\<^sup>*\<^sup>* (a, S) (a, S')"
  using assms
proof (induction rule: rtranclp_induct)
  case (step S1 S2)
  obtain ts kw ts' kw' where "S1 = (ts, kw)" "S2 = (ts', kw')" by (metis surj_pair)
  with step show ?case by (auto intro: rtranclp.rtrancl_into_rtrancl others_turn)
qed simp

text \<open>A glove whose encoders rest: every answer to a request for them is the packet \<open>q\<close>.\<close>

definition still :: "(u8 list \<Rightarrow> u8 list) \<Rightarrow> Packet \<Rightarrow> bool" where
  "still answer q \<longleftrightarrow> parsed (answer_to answer (request_packet Read_Encoders)) = Some q \<and> encoder_reply_shape q"

definition channels :: "Packet \<Rightarrow> u16 list" where
  "channels q = adc_of_body (pkt_body q)"

text \<open>The reader after a calibration at that packet.\<close>

definition zeroed_encoders :: "Packet \<Rightarrow> time \<Rightarrow> EncoderReader \<Rightarrow> EncoderReader" where
  "zeroed_encoders q now r = r\<lparr>er_calibration := zero_calibration (channels q),
     er_cached_data := \<lparr>ed_adc_values = channels q, ed_timestamp = now\<rparr>\<rparr>"

lemma calibrate_at_rest:
  assumes "fifo_device os queue answer" and "still answer q" and "queue w = []"
    and "up k" and "sdk_encoder_reader k = Some r"
  obtains k' w' now where "atomic_calls os [Calibrate_Encoders] True (k, w) = Some (True, k', w')"
    and "sdk_encoder_reader k' = Some (zeroed_encoders q now r)" and "sdk_initialized k'"
proof -
  obtain c where c: "sdk_udp_client k = Some c" "uc_connected c" using assms(4) by (auto simp: up_def sdk_ready_def)
  have a: "queue w @ [answer_to answer (request_packet Read_Encoders)] = answer_to answer (request_packet Read_Encoders) # []"
    using assms(3) by simp
  obtain c' w' where x: "send_and_receive os (request_packet Read_Encoders) (c, w) = Some (Some q, c', w')"
    by (rule fifo_exchange [OF assms(1) c(2) a]) (use assms(2) in \<open>simp add: still_def\<close>)
  then have read: "read_encoders (send_and_receive os) (link_now os) (c, w)
      = Some (Some \<lparr>ed_adc_values = channels q, ed_timestamp = os_now os w'\<rparr>, c', w')"
    using assms(2) by (simp add: read_encoders_def encode_reads still_def parse_encoder_data_eq channels_def link_now_def)
  have init: "sdk_initialized k" using assms(4) by (simp add: up_def)
  let ?k = "k\<lparr>sdk_encoder_reader := Some (zeroed_encoders q (os_now os w') r), sdk_udp_client := Some c'\<rparr>"
  have run: "atomic_calls os [Calibrate_Encoders] True (k, w) = Some (True, ?k, w')"
    by (simp add: calibrate_encoders_def ensure_initialized_def init via_encoder_def c assms(5)
        calibrate_zero_point_eq read zeroed_encoders_def)
  with init that show thesis by simp
qed

text \<open>The three steps of the reader, with the calibration before the last.\<close>

definition torn_angle :: "u16 \<Rightarrow> u16 \<Rightarrow> f32" where
  "torn_angle v z = angle_of (f32_mul (f32_sub (voltage_of v) (voltage_of z)) f32_one)"

lemma torn_read:
  assumes "encoder_reply_shape q" and "encoder_wf r"
    and "sdk_encoder_reader k' = Some (zeroed_encoders q now r)"
  shows "angle_step (Holding (encoder_cached_data r)) k'
    = Some (Answered (map2 torn_angle (ed_adc_values (er_cached_data r)) (channels q)))"
proof -
  let ?vs = "ed_adc_values (er_cached_data r)"
  have len: "length ?vs = 16" "length (channels q) = 16"
    using assms(1,2) by (simp_all add: encoder_wf_def channels_def length_adc_of_body)
  let ?r = "(zeroed_encoders q now r)\<lparr>er_cached_data := er_cached_data r\<rparr>"
  have "voltages_to_angles (zeroed_encoders q now r) = voltages_to_angles ?r"
    by (intro ext same_zero_point) (simp add: zeroed_encoders_def)
  moreover have "get_cached_angles ?r = Some (map (\<lambda>i. torn_angle (?vs ! i) (channels q ! i)) [0..<16])"
    using get_cached_angles_calibrated [OF len, of ?r] by (simp add: zeroed_encoders_def torn_angle_def)
  moreover have "map (\<lambda>i. torn_angle (?vs ! i) (channels q ! i)) [0..<16] = map2 torn_angle ?vs (channels q)"
    using len by (intro nth_equalityI) simp_all
  ultimately show ?thesis using assms(3) by (simp add: get_cached_angles_def encoder_cached_data_def)
qed

section \<open>Properties\<close>

text \<open>
  C17. Reading the angles next to updates and commands, provided that no datagram is parsed to a motor status reply with a body of 18 bytes.
  Any number of threads run any calls of \<open>sdk_call\<close> that do not calibrate the encoders (segments of the unified thread, commands, the
  calibration of the IMU; not \<open>initialize\<close>, \<open>start\<close>, \<open>stop\<close> or \<open>shutdown\<close>: next to \<open>shutdown\<close> such a method can be undefined, see \<open>call_races_with_shutdown\<close>)
  next to a call of \<open>get_encoder_angles\<close> on an initialised SDK. On no
  interleaving does the call meet undefined behaviour, and what it returns is what the whole method would have
  returned at one moment of the run, although it takes two locks one after the other.
\<close>

theorem angle_reads_take_effect_at_a_moment:
  assumes "no_short_packets os" and "sdk_reachable os (k, w)" and "sdk_initialized k"
    and "\<forall>calls \<in> set callss. \<forall>call \<in> set calls. well_sized call \<and> \<not> calibrates_encoders call"
    and "(beside_calls os)\<^sup>*\<^sup>* (Checking, threads callss, k, w) (a, ts, kw)"
  shows "a \<noteq> Lost \<and> (\<forall>angles. a = Answered angles \<longrightarrow> (\<exists>ts1 k1 w1.
      (interleave (op_moves os))\<^sup>*\<^sup>* (threads callss, k, w) (ts1, k1, w1)
      \<and> (interleave (op_moves os))\<^sup>*\<^sup>* (ts1, k1, w1) (ts, kw) \<and> get_encoder_angles k1 = Some angles))"
proof -
  have "up k" using sdk_reachable_inv [OF assms(2)] assms(3) by (simp add: up_of_inv)
  then have "all_safe (sdk_worker k) (threads callss, k, w)" using assms(4) by (intro threads_safe) auto
  moreover have "\<forall>t \<in> set (threads callss). thread_keeps zero_point t"
    using assms(4) by (auto simp: threads_def call_keeps)
  ultimately have "run_ok os (sdk_worker k) (threads callss, k, w) (Checking, threads callss, k, w)"
    by (simp add: run_ok_def)
  from run_ok_run [OF assms(1,5) this] show ?thesis by (cases a) (auto simp: run_ok_def)
qed

text \<open>
  C18. Reading the angles next to a calibration. With the encoders at rest and not calibrated, the method returns the
  raw angles before a calibration and sixteen zeros after it. But when the calibration runs between its two
  critical sections, it converts the old reading with the new zero point: each angle is that of the old reading
  less that of the calibrated one, which no moment of the run shows, and it may be an angle below zero.
\<close>

theorem angle_read_torn_by_calibration:
  assumes "fifo_device os queue answer" and "still answer q" and "queue w = []"
    and "sdk_initialized k" and "sdk_inv k" and "sdk_encoder_reader k = Some r" and "\<not> ec_is_calibrated (er_calibration r)"
  shows "get_encoder_angles k = Some (map (angle_of \<circ> voltage_of) (ed_adc_values (er_cached_data r)))
    \<and> (\<exists>k' w'. (beside_calls os)\<^sup>*\<^sup>* (Checking, threads [[Calibrate_Encoders]], k, w)
          (Answered (map2 torn_angle (ed_adc_values (er_cached_data r)) (channels q)), threads [[]], k', w')
        \<and> get_encoder_angles k' = Some (replicate 16 0))"
proof -
  have up: "up k" using assms(4,5) by (simp add: up_of_inv)
  then have wf: "encoder_wf r" and init: "ensure_initialized k"
    using assms(6) by (auto simp: up_def sdk_ready_def ensure_initialized_def)
  have q: "encoder_reply_shape q" using assms(2) by (simp add: still_def)
  obtain k' w' now where run: "atomic_calls os [Calibrate_Encoders] True (k, w) = Some (True, k', w')"
    and r': "sdk_encoder_reader k' = Some (zeroed_encoders q now r)" and init': "sdk_initialized k'"
    by (rule calibrate_at_rest [OF assms(1-3) up assms(6)])
  have "(interleave (op_moves os))\<^sup>*\<^sup>* (threads [[Calibrate_Encoders]], k, w) (threads [[]], k', w')"
    using run calls_alone_atomic [of "(k, w)" "[Calibrate_Encoders]" os True True "(k', w')"] assms(5)
    by (simp add: threads_def interleave_alone)
  note others = others_run [OF this, of "Holding (encoder_cached_data r)"]
  let ?torn = "Answered (map2 torn_angle (ed_adc_values (er_cached_data r)) (channels q))"
  have "(beside_calls os)\<^sup>*\<^sup>* (Checking, threads [[Calibrate_Encoders]], k, w)
      (Holding (encoder_cached_data r), threads [[Calibrate_Encoders]], k, w)"
    using init assms(6) by (intro rtranclp.rtrancl_into_rtrancl [OF r_into_rtranclp]) (rule reader_turn, simp)+
  also note others
  also have "(beside_calls os)\<^sup>*\<^sup>* (Holding (encoder_cached_data r), threads [[]], k', w') (?torn, threads [[]], k', w')"
    by (rule r_into_rtranclp, rule reader_turn, rule torn_read [OF q wf r'])
  finally have "(beside_calls os)\<^sup>*\<^sup>* (Checking, threads [[Calibrate_Encoders]], k, w) (?torn, threads [[]], k', w')" .
  moreover have "get_cached_angles (zeroed_encoders q now r) = Some (replicate 16 0)"
    by (rule angles_at_zero [of "channels q"])
      (use q in \<open>simp_all add: zeroed_encoders_def channels_def length_adc_of_body\<close>)
  ultimately show ?thesis
    using r' init' init get_cached_angles_uncalibrated [OF wf assms(7)] assms(6)
    by (auto simp: get_encoder_angles_def ensure_initialized_def)
qed

theorem angle_reads_take_effect_at_a_moment_witness:
  "\<exists>k w angles ts kw. sdk_initialized k
     \<and> (beside_calls (device_os demo_reply))\<^sup>*\<^sup>*
         (Checking, threads [[Update_Encoders, Update_Imu], [Set_Motor_Force 1 10]], k, w) (Answered angles, ts, kw)
     \<and> (\<exists>ts1 k1 w1. (interleave (op_moves (device_os demo_reply)))\<^sup>*\<^sup>* (ts1, k1, w1) (ts, kw)
         \<and> get_encoder_angles k1 = Some angles)"
proof -
  let ?os = "device_os demo_reply"
  let ?ts = "threads [[Update_Encoders, Update_Imu], [Set_Motor_Force 1 10]]"
  obtain k w where kw: "sdk_reachable ?os (k, w)" "sdk_initialized k" by (rule demo_running)
  then have up: "up k" using sdk_reachable_inv [OF kw(1)] by (simp add: up_of_inv)
  then obtain r where r: "sdk_encoder_reader k = Some r" by (rule up_components)
  obtain angles where angles: "angle_step (Holding (encoder_cached_data r)) k = Some (Answered angles)"
    using answer_of_moment [OF up up refl r] by blast
  let ?ts' = "?ts[0 := Running (call_op Update_Encoders) [Update_Imu]]"
  have copied: "(beside_calls ?os)\<^sup>*\<^sup>* (Checking, ?ts, k, w) (Holding (encoder_cached_data r), ?ts, k, w)"
    using present_when_up [OF up] r
    by (intro rtranclp.rtrancl_into_rtrancl [OF r_into_rtranclp]) (rule reader_turn, simp)+
  have "interleave (op_moves ?os) (?ts, k, w) (?ts', k, w)"
    by (rule interleave.thread_step) (simp_all add: threads_def op_moves_def)
  from rtranclp.rtrancl_into_rtrancl [OF copied others_turn [OF this]]
  have run: "(beside_calls ?os)\<^sup>*\<^sup>* (Checking, ?ts, k, w) (Answered angles, ?ts', k, w)"
    by (rule rtranclp.rtrancl_into_rtrancl) (rule reader_turn [OF angles])
  have "\<forall>calls \<in> set [[Update_Encoders, Update_Imu], [Set_Motor_Force 1 10]]. \<forall>call \<in> set calls.
      well_sized call \<and> \<not> calibrates_encoders call"
    by (simp add: calibrates_encoders_def)
  from angle_reads_take_effect_at_a_moment [OF no_short_packets_demo kw this run] kw(2) run show ?thesis by blast
qed

text \<open>A glove whose encoders stand at a quarter turn, next to an SDK that has not read them yet.\<close>

definition quarter_frame :: "u8 list" where
  "quarter_frame = serialize (plain_packet TARGET_ENCODER (encoder_body (replicate 16 16384)))"

text \<open>The angles go from zero to zero, and the call returns \<open>-90.0\<close> on every channel.\<close>

theorem angle_read_torn_by_calibration_witness:
  "get_encoder_angles fresh_sdk = Some (replicate 16 0)
   \<and> (\<exists>k' w'. (beside_calls (fifo_os (\<lambda>_. quarter_frame)))\<^sup>*\<^sup>*
        (Checking, threads [[Calibrate_Encoders]], fresh_sdk, sim_init [])
        (Answered (replicate 16 0xC2B40000), threads [[]], k', w')
      \<and> get_encoder_angles k' = Some (replicate 16 0))"
proof -
  have "map_option (\<lambda>q. encoder_reply_shape q \<and> channels q = replicate 16 16384) (parsed quarter_frame) = Some True"
    by code_simp
  then obtain q where q: "parsed quarter_frame = Some q" "encoder_reply_shape q" "channels q = replicate 16 16384"
    by auto
  have "still (\<lambda>_. quarter_frame) q" using q by (simp add: still_def answer_to_def)
  moreover have "sim_queue (sim_init []) = []" by (simp add: sim_init_def)
  moreover have "length (mc_cached_status (MotorController_new MotorControllerConfig_default 0)) = 6" by code_simp
  then have "sdk_ready fresh_sdk online"
    by (simp add: fresh_sdk_def sdk_ready_def online_def encoder_wf_new)
  then have "sdk_initialized fresh_sdk" "sdk_inv fresh_sdk"
    by (auto simp: sdk_inv_def fresh_sdk_def GloveSDK_new_def worker_new_def)
  moreover have "sdk_encoder_reader fresh_sdk = Some (EncoderReader_new EncoderReaderConfig_default 0)"
    "\<not> ec_is_calibrated (er_calibration (EncoderReader_new EncoderReaderConfig_default 0))"
    by (simp_all add: fresh_sdk_def EncoderReader_new_def EncoderCalibration_default_def)
  moreover have "ed_adc_values (er_cached_data (EncoderReader_new EncoderReaderConfig_default 0)) = replicate 16 0"
    by code_simp
  moreover have "angle_of (voltage_of 0) = 0" and "torn_angle 0 16384 = 0xC2B40000"
    by code_simp+
  ultimately show ?thesis
    using angle_read_torn_by_calibration [OF fifo_device_sim, of "\<lambda>_. quarter_frame" q "sim_init []" fresh_sdk] q(3) by simp
qed

end
