(* ===== verification/Timing.thy ===== *)
theory Timing
  imports Sdk_Threads
begin

text \<open>
  How long the update thread is deaf to a stop. The waits of the code are the socket timeouts and the sleep at
  the end of a round; with bounds on both, every segment of the unified loop is bounded, and so is the time
  between clearing the flag and the end of the thread.
\<close>

section \<open>A bounded network\<close>

text \<open>
  Documented behaviour of blocking calls with timeouts: a send returns within \<open>snd_max\<close>, a receive within
  \<open>rcv_max\<close>, a sleep at most \<open>slack\<close> late. Times are nanoseconds.
\<close>

definition timely :: "'w os \<Rightarrow> time \<Rightarrow> time \<Rightarrow> time \<Rightarrow> bool" where
  "timely os snd_max rcv_max slack \<longleftrightarrow> 0 \<le> snd_max \<and> 0 \<le> rcv_max
   \<and> (\<forall>fd data w. os_now os (snd (os_send os fd data w)) \<le> os_now os w + snd_max)
   \<and> (\<forall>fd n w. os_now os (snd (os_recv os fd n w)) \<le> os_now os w + rcv_max)
   \<and> (\<forall>t w. os_now os (os_sleep os t w) \<le> os_now os w + t + slack)"

lemma timely_send:
  assumes "timely os a b q" and "send_packet os p (c, w) = (ok, c', w')"
  shows "os_now os w' \<le> os_now os w + a"
proof (cases "uc_connected c")
  case True
  from send_packet_outcome(3) [OF assms(2) this] obtain n where
    "os_send os (uc_socket_fd c) (serialize p) w = (n, w')" by blast
  with assms(1) show ?thesis unfolding timely_def by (metis snd_conv)
next
  case False
  with send_packet_outcome(2) [OF assms(2)] assms(1) show ?thesis by (simp add: timely_def)
qed

lemma timely_receive:
  assumes "timely os a b q" and "receive_packet os (c, w) = Some (r, c', w')"
  shows "os_now os w' \<le> os_now os w + b"
proof -
  have "w' = w \<or> w' = snd (os_recv os (uc_socket_fd c) 1024 w)"
    using assms(2) by (auto simp: receive_packet_eq split: if_splits prod.splits recv_result.splits)
  with assms(1) show ?thesis by (auto simp: timely_def)
qed

lemma timely_exchange:
  assumes "timely os a b q" and "send_and_receive os p s = Some (r, s')"
  shows "link_now os s' \<le> link_now os s + (a + b)"
proof -
  obtain ok c1 w1 where sp: "send_packet os p (fst s, snd s) = (ok, c1, w1)" by (metis prod_cases3)
  note t1 = timely_send [OF assms(1) sp]
  have "0 \<le> b" using assms(1) by (simp add: timely_def)
  show ?thesis
  proof (cases ok)
    case True
    with assms(2) sp have "receive_packet os (c1, w1) = Some (r, fst s', snd s')"
      by (simp add: send_and_receive_def)
    from timely_receive [OF assms(1) this] t1 show ?thesis by (simp add: link_now_def)
  next
    case False
    with assms(2) sp t1 \<open>0 \<le> b\<close> show ?thesis by (auto simp: send_and_receive_def link_now_def)
  qed
qed

lemma timely_nonneg: "timely os a b q \<Longrightarrow> 0 \<le> a + b"
  by (simp add: timely_def)

section \<open>The updates\<close>

lemma timely_status:
  assumes "timely os a b q" and "get_motor_status (send_and_receive os) now i s = Some (st, s')"
  shows "link_now os s' \<le> link_now os s + (a + b)"
  using assms(2) timely_nonneg [OF assms(1)]
  by (cases s) (auto simp: get_motor_status_def encode_as_request Option.bind_eq_Some_conv
      split: if_splits option.splits dest: timely_exchange [OF assms(1)])

lemma timely_motors:
  assumes "timely os a b q"
  shows "update_motors (send_and_receive os) now ids any (m, s) = Some (x, m', s') \<Longrightarrow>
    link_now os s' \<le> link_now os s + int (length ids) * (a + b)"
proof (induction ids arbitrary: any m s)
  case (Cons i ids)
  from Cons.prems obtain st s1 any1 m1 where g: "get_motor_status (send_and_receive os) now i s = Some (st, s1)"
    and u: "update_motors (send_and_receive os) now ids any1 (m1, s1) = Some (x, m', s')"
    by (auto simp: Option.bind_eq_Some_conv split: option.splits)
  from timely_status [OF assms g] Cons.IH [OF u] show ?case by (simp add: algebra_simps)
qed simp

lemma timely_encoder:
  assumes "timely os a b q" and "encoder_update_once (send_and_receive os) now (r, s) = Some (x, r', s')"
  shows "link_now os s' \<le> link_now os s + (a + b)"
  using assms(2)
  by (cases s) (auto simp: encoder_update_once_def read_encoders_eq Option.bind_eq_Some_conv
      split: option.splits dest: timely_exchange [OF assms(1)])

lemma timely_imu:
  assumes "timely os a b q" and "imu_update_once (send_and_receive os) now (r, s) = Some (x, r', s')"
  shows "link_now os s' \<le> link_now os s + (a + b)"
  using assms(2)
  by (cases s) (auto simp: imu_update_once_def read_imu_eq Option.bind_eq_Some_conv Let_def
      split: option.splits dest: timely_exchange [OF assms(1)])

section \<open>The segments\<close>

text \<open>The latest time at which a segment that starts at time \<open>t\<close> can be over.\<close>

definition segment_deadline :: "time \<Rightarrow> time \<Rightarrow> time \<Rightarrow> segment \<Rightarrow> time \<Rightarrow> time" where
  "segment_deadline exchange_max interval slack seg t = (case seg of
     Motor_Segment \<Rightarrow> t + 6 * exchange_max
   | Encoder_Segment start \<Rightarrow> t + exchange_max
   | Imu_Segment start \<Rightarrow> max (t + exchange_max) (start + interval + slack))"

lemma via_motor_world:
  assumes "via_motor f (k, w) = Some (x, kw)"
  obtains m c m' c' where "f (m, c, w) = Some (x, m', c', snd kw)" and "sdk_config (fst kw) = sdk_config k"
    and "sdk_worker (fst kw) = sdk_worker k"
  using assms that by (auto simp: via_motor_def Option.bind_eq_Some_conv)

lemma via_encoder_world:
  assumes "via_encoder f (k, w) = Some (x, kw)"
  obtains m c m' c' where "f (m, c, w) = Some (x, m', c', snd kw)" and "sdk_config (fst kw) = sdk_config k"
    and "sdk_worker (fst kw) = sdk_worker k"
  using assms that by (auto simp: via_encoder_def Option.bind_eq_Some_conv)

lemma via_imu_world:
  assumes "via_imu f (k, w) = Some (x, kw)"
  obtains m c m' c' where "f (m, c, w) = Some (x, m', c', snd kw)" and "sdk_config (fst kw) = sdk_config k"
    and "sdk_worker (fst kw) = sdk_worker k"
  using assms that by (auto simp: via_imu_def Option.bind_eq_Some_conv)

lemma segment_times:
  assumes "timely os a b q"
  shows "motor_segment os (k, w) = Some kw \<Longrightarrow> os_now os (snd kw) \<le> os_now os w + 6 * (a + b)
      \<and> sdk_config (fst kw) = sdk_config k \<and> sdk_worker (fst kw) = sdk_worker k"
    and "encoder_segment os (k, w) = Some kw \<Longrightarrow> os_now os (snd kw) \<le> os_now os w + (a + b)
      \<and> sdk_config (fst kw) = sdk_config k \<and> sdk_worker (fst kw) = sdk_worker k"
    and "imu_segment os (k, w) = Some kw \<Longrightarrow> os_now os (snd kw) \<le> os_now os w + (a + b)
      \<and> sdk_config (fst kw) = sdk_config k \<and> sdk_worker (fst kw) = sdk_worker k"
proof -
  have pos: "0 \<le> 6 * (a + b)" "0 \<le> a + b" using timely_nonneg [OF assms] by simp_all
  show "os_now os (snd kw) \<le> os_now os w + 6 * (a + b)
      \<and> sdk_config (fst kw) = sdk_config k \<and> sdk_worker (fst kw) = sdk_worker k"
    if seg: "motor_segment os (k, w) = Some kw"
  proof (cases "sdk_motor_controller k = None")
    case False
    with seg obtain x where "via_motor (motor_update_once (send_and_receive os) (link_now os)) (k, w) = Some (x, kw)"
      by (auto simp: motor_segment_def)
    from via_motor_world [OF this] obtain m c m' c' where
      u: "motor_update_once (send_and_receive os) (link_now os) (m, c, w) = Some (x, m', c', snd kw)"
      and k: "sdk_config (fst kw) = sdk_config k" "sdk_worker (fst kw) = sdk_worker k" .
    from timely_motors [OF assms u [unfolded motor_update_once_def]] k show ?thesis
      by (simp add: link_now_def motor_ids_eq)
  qed (use seg pos in \<open>auto simp: motor_segment_def\<close>)
  show "os_now os (snd kw) \<le> os_now os w + (a + b)
      \<and> sdk_config (fst kw) = sdk_config k \<and> sdk_worker (fst kw) = sdk_worker k"
    if seg: "encoder_segment os (k, w) = Some kw"
  proof (cases "sdk_encoder_reader k = None")
    case False
    with seg obtain x where "via_encoder (encoder_update_once (send_and_receive os) (link_now os)) (k, w) = Some (x, kw)"
      by (auto simp: encoder_segment_def)
    from via_encoder_world [OF this] timely_encoder [OF assms] show ?thesis
      by (metis link_now_def snd_conv)
  qed (use seg pos in \<open>auto simp: encoder_segment_def\<close>)
  show "os_now os (snd kw) \<le> os_now os w + (a + b)
      \<and> sdk_config (fst kw) = sdk_config k \<and> sdk_worker (fst kw) = sdk_worker k"
    if seg: "imu_segment os (k, w) = Some kw"
  proof (cases "sdk_imu_reader k = None")
    case False
    with seg obtain x where "via_imu (imu_update_once (send_and_receive os) (link_now os)) (k, w) = Some (x, kw)"
      by (auto simp: imu_segment_def)
    from via_imu_world [OF this] timely_imu [OF assms] show ?thesis
      by (metis link_now_def snd_conv)
  qed (use seg pos in \<open>auto simp: imu_segment_def\<close>)
qed

lemma sleep_rest_time:
  assumes "timely os a b q"
  shows "os_now os (snd (sleep_rest os start (k, w)))
    \<le> max (os_now os w) (start + gc_update_interval (sdk_config k) * 1000000 + q)"
proof -
  let ?t = "gc_update_interval (sdk_config k) * 1000000 - (os_now os w - start)"
  have "os_now os (os_sleep os ?t w) \<le> os_now os w + ?t + q" using assms unfolding timely_def by blast
  then show ?thesis by (auto simp: sleep_rest_def Let_def le_max_iff_disj algebra_simps)
qed

lemma run_segment_deadline:
  assumes "timely os a b q" and "run_segment os seg (k, w) = Some (seg', k', w')"
  shows "os_now os w' \<le> segment_deadline (a + b) (gc_update_interval (sdk_config k) * 1000000) q seg (os_now os w)
    \<and> sdk_worker k' = sdk_worker k"
proof (cases seg)
  case Motor_Segment
  with assms(2) segment_times(1) [OF assms(1), of k w "(k', w')"] show ?thesis
    by (auto simp: run_segment_def Let_def segment_deadline_def Option.bind_eq_Some_conv)
next
  case (Encoder_Segment start)
  with assms(2) segment_times(2) [OF assms(1), of k w "(k', w')"] show ?thesis
    by (auto simp: run_segment_def segment_deadline_def Option.bind_eq_Some_conv)
next
  case (Imu_Segment start)
  with assms(2) obtain k1 w1 where i: "imu_segment os (k, w) = Some (k1, w1)"
    and s: "sleep_rest os start (k1, w1) = (k', w')"
    by (auto simp: run_segment_def Option.bind_eq_Some_conv)
  have "k' = k1" using s by (auto simp: sleep_rest_def Let_def)
  with segment_times(3) [OF assms(1) i] sleep_rest_time [OF assms(1), of start k1 w1] s Imu_Segment
  show ?thesis by (auto simp: segment_deadline_def)
qed

section \<open>Properties\<close>

text \<open>
  C32. How long a stop takes, provided that sends, receives and sleeps are bounded (\<open>timely\<close>) and no exchange returns a motor status reply with a
  body of 18 bytes. When the flag has been cleared while the update
  thread was in the middle of a segment, the thread finishes that segment, by its deadline, and ends at its
  next load: for the motor segment within six exchanges, for the encoder segment within one, for the last
  within one or when the interval that began with the round is over, whichever is later.
\<close>

theorem stop_latency:
  assumes "timely os snd_max rcv_max slack" and "no_short_replies (send_and_receive os)"
    and "live (k, w)" and "\<not> thread_running (sdk_worker k)"
  shows "\<exists>k' w'. fst (run_turns (sdk_thread_step os use) (\<lambda>n. 0) ([Loop_Body seg], (k, w), False) 2) = [Loop_Left]
    \<and> snd (run_turns (sdk_thread_step os use) (\<lambda>n. 0) ([Loop_Body seg], (k, w), False) 2) = ((k', w'), True)
    \<and> os_now os w' \<le> segment_deadline (snd_max + rcv_max)
        (gc_update_interval (sdk_config k) * 1000000) slack seg (os_now os w)"
proof -
  obtain seg' kw' where r: "run_segment os seg (k, w) = Some (seg', kw')"
    by (rule run_segment_live [OF assms(2,3), of seg])
  obtain k' w' where kw: "kw' = (k', w')" by (cases kw')
  note d = run_segment_deadline [OF assms(1) r [unfolded kw]]
  have "run_turns (sdk_thread_step os use) (\<lambda>n. 0) ([Loop_Body seg], (k, w), False) 2
      = ([Loop_Left], (k', w'), True)"
    using r d assms(4) by (simp add: kw numeral_2_eq_2)
  with d show ?thesis by simp
qed

lemma timely_device: "timely (device_os reply) 1000000 1000000 0"
  by (simp add: timely_def device_os_def sim_os_def sim_tick_def)

theorem stop_latency_witness:
  "\<exists>k w k' w'. sdk_initialized k
    \<and> snd (run_turns (sdk_thread_step (device_os demo_reply) (\<lambda>kw. None)) (\<lambda>n. 0)
        ([Loop_Body Motor_Segment], (k, w), False) 2) = ((k', w'), True)
    \<and> os_now (device_os demo_reply) w' \<le> os_now (device_os demo_reply) w + 12000000"
proof -
  let ?os = "device_os demo_reply"
  obtain k w where kw: "sdk_reachable ?os (k, w)" "sdk_initialized k" by (rule demo_running)
  let ?k = "sdk_stop k"
  have "sdk_inv k" using sdk_reachable_inv [OF kw(1)] by simp
  then have "live (?k, w)" using kw(2) by (auto simp: live_def sdk_inv_def sdk_stop_def)
  moreover have "\<not> thread_running (sdk_worker ?k)" by (simp add: sdk_stop_def worker_stop_def Let_def)
  ultimately obtain k' w' where
    "snd (run_turns (sdk_thread_step ?os (\<lambda>kw. None)) (\<lambda>n. 0)
        ([Loop_Body Motor_Segment], (?k, w), False) 2) = ((k', w'), True)"
    "os_now ?os w' \<le> os_now ?os w + 12000000"
    using stop_latency [OF timely_device no_short_replies_demo, of ?k w "\<lambda>kw. None" Motor_Segment]
    by (auto simp: segment_deadline_def)
  moreover have "sdk_initialized ?k" using kw(2) by (simp add: sdk_stop_def)
  ultimately show ?thesis by blast
qed

end
