(* ===== verification/Examples.thy ===== *)
theory Examples
  imports Sdk_Threads
begin

text \<open>
  The two programs under \<open>src/examples\<close> that use the SDK as a whole, as functions of the world: what they
  call, in which order, on which results they give up, and what they report. The text they print is left
  out. \<open>read_sensors\<close> runs next to the update thread, whose segments a parameter places
  between the steps of \<open>main\<close>.
\<close>

section \<open>What the programs use of the SDK\<close>

definition sdk_sleep :: "'w os \<Rightarrow> time \<Rightarrow> 'w sdk \<Rightarrow> 'w sdk" where
  "sdk_sleep os t kw = (fst kw, os_sleep os t (snd kw))"

text \<open>How \<open>main\<close> ends: with an exit code, or with an exception nobody catches.\<close>

datatype exit_status = Exit int | Uncaught start_outcome

text \<open>Leaving \<open>main\<close> destroys the SDK, and its destructor shuts it down.\<close>

definition leave_main :: "'w os \<Rightarrow> int \<Rightarrow> 'w sdk \<Rightarrow> exit_status \<times> 'w" where
  "leave_main os code kw = (Exit code, snd (sdk_shutdown os kw))"

definition example_config :: "bool \<Rightarrow> GloveConfig" where
  "example_config auto_start = GloveConfig_default\<lparr>gc_send_timeout := 500, gc_receive_timeout := 500,
     gc_auto_start_thread := auto_start\<rparr>"

section \<open>Basic motor control\<close>

definition main_set_all_modes :: "'w os \<Rightarrow> u8 \<Rightarrow> 'w sdk \<Rightarrow> (bool \<times> 'w sdk) ub" where
  "main_set_all_modes os mode =
     via_motor (\<lambda>(m, s). do { (ok, s) \<leftarrow> set_all_modes (send_and_receive os) mode s; Some (ok, m, s) })"

definition main_get_status :: "'w os \<Rightarrow> u8 \<Rightarrow> 'w sdk \<Rightarrow> (MotorStatus option \<times> 'w sdk) ub" where
  "main_get_status os i =
     via_motor (\<lambda>(m, s). do { (st, s) \<leftarrow> get_motor_status (send_and_receive os) (link_now os) i s; Some (st, m, s) })"

fun main_read_statuses :: "'w os \<Rightarrow> u8 list \<Rightarrow> 'w sdk \<Rightarrow> (MotorStatus option list \<times> 'w sdk) ub" where
  "main_read_statuses os [] kw = Some ([], kw)"
| "main_read_statuses os (i # is) kw = do {
     (st, kw) \<leftarrow> main_get_status os i kw;
     (sts, kw) \<leftarrow> main_read_statuses os is kw;
     Some (st # sts, kw) }"

record motor_report =
  rep_statuses :: "MotorStatus option list"
  rep_test_status :: "MotorStatus option"
  rep_statistics :: NetworkStatistics

definition target_positions :: "u16 list" where
  "target_positions = [500, 600, 700, 800, 900, 1000]"

text \<open>From the waiting for the motors on, which nothing can make fail.\<close>

definition basic_motor_report :: "'w os \<Rightarrow> 'w sdk \<Rightarrow> (motor_report \<times> 'w sdk) ub" where
  "basic_motor_report os kw = do {
     let kw = sdk_sleep os 2000000000 kw;
     (statuses, kw) \<leftarrow> main_read_statuses os motor_ids kw;
     (moved, kw) \<leftarrow> sdk_set_motor_position os 1 1500 kw;
     (test_status, kw) \<leftarrow> (if moved then main_get_status os 1 (sdk_sleep os 1000000000 kw) else Some (None, kw));
     Some (\<lparr>rep_statuses = statuses, rep_test_status = test_status,
             rep_statistics = get_network_statistics (fst kw)\<rparr>, kw) }"

definition basic_motor_control :: "'w os \<Rightarrow> 'w \<Rightarrow> (motor_report option \<times> exit_status \<times> 'w) ub" where
  "basic_motor_control os w = do {
     (r, kw) \<leftarrow> sdk_initialize os (GloveSDK_new (example_config False), w);
     case r of
       Inl e \<Rightarrow> Some (None, Uncaught e, snd kw)
     | Inr False \<Rightarrow> Some (None, leave_main os 1 kw)
     | Inr True \<Rightarrow> do {
         (modes_ok, kw) \<leftarrow> main_set_all_modes os MODE_POSITION kw;
         if \<not> modes_ok then Some (None, leave_main os 1 kw)
         else do {
           (positions_ok, kw) \<leftarrow> sdk_set_all_positions os target_positions kw;
           if \<not> positions_ok then Some (None, leave_main os 1 kw)
           else do {
             (report, kw) \<leftarrow> basic_motor_report os kw;
             Some (Some report, leave_main os 0 (sdk_shutdown os kw)) } } } }"

section \<open>Reading sensors\<close>

text \<open>
  The state of the process: the SDK with its world, and where the update thread is in its loop. While
  \<open>main\<close> runs the flag stays set, so the thread just goes on.
\<close>

fun background :: "'w os \<Rightarrow> nat \<Rightarrow> segment \<times> 'w sdk \<Rightarrow> (segment \<times> 'w sdk) ub" where
  "background os 0 skw = Some skw"
| "background os (Suc n) (seg, kw) = do { skw \<leftarrow> run_segment os seg kw; background os n skw }"

text \<open>One sample of the hundred; the thread gets \<open>n\<close> segments after the clock was read.\<close>

definition take_sample :: "'w os \<Rightarrow> nat \<Rightarrow> segment \<times> 'w sdk \<Rightarrow> ((f32 list \<times> ImuData) \<times> segment \<times> 'w sdk) ub" where
  "take_sample os n skw = do {
     let start_time = os_now os (snd (snd skw));
     (seg, kw) \<leftarrow> background os n skw;
     encoder_angles \<leftarrow> get_encoder_angles (fst kw);
     imu_data \<leftarrow> get_imu_orientation (fst kw);
     shown \<leftarrow> traverse (rd encoder_angles) [0..<4];
     let elapsed = os_now os (snd kw) - start_time;
     let sleep_time = 100 - elapsed sdiv 1000000;
     Some ((shown, imu_data), seg, if sleep_time > 0 then sdk_sleep os (sleep_time * 1000000) kw else kw) }"

fun take_samples :: "'w os \<Rightarrow> nat list \<Rightarrow> segment \<times> 'w sdk \<Rightarrow> ((f32 list \<times> ImuData) list \<times> segment \<times> 'w sdk) ub" where
  "take_samples os [] skw = Some ([], skw)"
| "take_samples os (n # ns) skw = do {
     (x, skw) \<leftarrow> take_sample os n skw;
     (xs, skw) \<leftarrow> take_samples os ns skw;
     Some (x # xs, skw) }"

record sensor_report =
  rep_calibrated :: bool
  rep_samples :: "(f32 list \<times> ImuData) list"
  rep_adc :: "u16 list"
  rep_voltages :: "f32 list"
  rep_angles :: "f32 list"
  rep_motors :: "MotorStatus list"
  rep_ages :: "int list"
  rep_network :: NetworkStatistics

text \<open>The final displays, which only read.\<close>

definition final_displays :: "'w os \<Rightarrow> bool \<Rightarrow> (f32 list \<times> ImuData) list \<Rightarrow> 'w sdk \<Rightarrow> sensor_report ub" where
  "final_displays os calibrated samples kw = do {
     let (k, w) = kw;
     r \<leftarrow> encoder_reader k;
     let encoder_data = encoder_cached_data r;
     voltages \<leftarrow> adc_to_voltages (ed_adc_values encoder_data);
     encoder_angles \<leftarrow> get_encoder_angles k;
     adc \<leftarrow> traverse (rd (ed_adc_values encoder_data)) [0..<NUM_ENCODER_CHANNELS];
     shown_voltages \<leftarrow> traverse (rd voltages) [0..<NUM_ENCODER_CHANNELS];
     shown_angles \<leftarrow> traverse (rd encoder_angles) [0..<NUM_ENCODER_CHANNELS];
     m \<leftarrow> motor_controller k;
     motors \<leftarrow> traverse (rd (get_all_cached_status m)) [0..<NUM_MOTORS];
     i \<leftarrow> imu_reader k;
     motor_age \<leftarrow> get_status_age m 1 (os_now os w);
     Some \<lparr>rep_calibrated = calibrated, rep_samples = samples, rep_adc = adc, rep_voltages = shown_voltages,
       rep_angles = shown_angles, rep_motors = motors,
       rep_ages = [encoder_data_age r (os_now os w), imu_data_age i (os_now os w), motor_age],
       rep_network = get_network_statistics k\<rparr> }"

text \<open>
  \<open>before\<close> are the segments the thread runs before the calibration, \<open>during i\<close> those during sample \<open>i\<close>, and \<open>finishing\<close> those until the shutdown has stopped it.
\<close>

definition read_sensors ::
  "'w os \<Rightarrow> nat \<Rightarrow> (nat \<Rightarrow> nat) \<Rightarrow> nat \<Rightarrow> 'w \<Rightarrow> (sensor_report option \<times> exit_status \<times> 'w) ub" where
  "read_sensors os before during finishing w = do {
     (r, kw) \<leftarrow> sdk_initialize os (GloveSDK_new (example_config True), w);
     case r of
       Inl e \<Rightarrow> Some (None, Uncaught e, snd kw)
     | Inr False \<Rightarrow> Some (None, leave_main os 1 kw)
     | Inr True \<Rightarrow> do {
         (seg, kw) \<leftarrow> background os before (Motor_Segment, sdk_sleep os 500000000 kw);
         (calibrated, kw) \<leftarrow> calibrate_all os kw;
         (samples, seg, kw) \<leftarrow> take_samples os (map during [0..<100]) (seg, kw);
         report \<leftarrow> final_displays os calibrated samples kw;
         (seg, kw) \<leftarrow> background os finishing (seg, kw);
         Some (Some report, leave_main os 0 (sdk_shutdown os kw)) } }"

section \<open>The session of main\<close>

text \<open>What an SDK operation of \<open>main\<close> keeps, in the form in which the operations follow one another.\<close>

definition at_work :: "('w \<Rightarrow> 'o) \<Rightarrow> int \<Rightarrow> 'o \<Rightarrow> 'w sdk \<Rightarrow> bool" where
  "at_work obs fd v kw \<longleftrightarrow> sdk_initialized (fst kw) \<and> in_session obs fd v (fst kw) kw"

lemma at_work_keep: "at_work obs fd v (k, w) \<Longrightarrow> in_session obs fd v k kw' \<Longrightarrow> at_work obs fd v kw'"
  by (auto simp: at_work_def in_session_def)

lemma at_work_ready:
  assumes "at_work obs fd v (k, w)"
  obtains c r m i where "sdk_ready k c" and "sdk_encoder_reader k = Some r" and "encoder_wf r"
    and "sdk_motor_controller k = Some m" and "length (mc_cached_status m) = 6" and "sdk_imu_reader k = Some i"
    and "sdk_initialized k"
  using assms by (auto simp: at_work_def in_session_def sdk_ready_def)

context world_observation
begin

lemma sdk_sleep_work: "at_work obs fd v kw \<Longrightarrow> at_work obs fd v (sdk_sleep os t kw)"
  by (auto simp: at_work_def sdk_sleep_def in_session_def on_line_def obs_sleep)

lemma background_work:
  assumes "no_short_replies (send_and_receive os)"
  shows "at_work obs fd v kw \<Longrightarrow> \<exists>seg' kw'. background os n (seg, kw) = Some (seg', kw') \<and> at_work obs fd v kw'"
proof (induction n arbitrary: seg kw)
  case (Suc n)
  obtain k w where kw: "kw = (k, w)" by (cases kw)
  have "in_session obs fd v k (k, w)" using Suc.prems kw by (simp add: at_work_def)
  from run_segment_session [OF assms this, of seg] obtain seg' kw' where
    r: "run_segment os seg (k, w) = Some (seg', kw')" "in_session obs fd v k kw'" by blast
  have "at_work obs fd v kw'" using at_work_keep [OF Suc.prems [unfolded kw] r(2)] .
  from Suc.IH [OF this, of seg'] r(1) show ?case by (simp add: kw)
qed simp

lemma main_motor_work:
  assumes "at_work obs fd v (k, w)"
  shows "\<exists>ok kw. main_set_all_modes os mode (k, w) = Some (ok, kw) \<and> at_work obs fd v kw"
    and "no_short_replies (send_and_receive os) \<Longrightarrow>
      \<exists>st kw. main_get_status os i (k, w) = Some (st, kw) \<and> at_work obs fd v kw"
proof -
  have s: "in_session obs fd v k (k, w)" using assms by (simp add: at_work_def)
  have "\<exists>ok kw. main_set_all_modes os mode (k, w) = Some (ok, kw) \<and> in_session obs fd v k kw"
    unfolding main_set_all_modes_def
  proof (rule via_motor_session [OF s])
    show "\<exists>ok m' s'. (case (m, s) of (m, s) \<Rightarrow> do { (ok, s) \<leftarrow> set_all_modes (send_and_receive os) mode s; Some (ok, m, s) })
        = Some (ok, m', s') \<and> length (mc_cached_status m') = 6 \<and> (on_line obs fd v s \<longrightarrow> on_line obs fd v s')"
      if "length (mc_cached_status m) = 6" for m s
    proof -
      obtain b s' where "set_all_modes (send_and_receive os) mode s = Some (b, s')"
        "on_line obs fd v s \<longrightarrow> on_line obs fd v s'" using session.set_all_total(1) by blast
      with that show ?thesis by simp
    qed
  qed
  then show "\<exists>ok kw. main_set_all_modes os mode (k, w) = Some (ok, kw) \<and> at_work obs fd v kw"
    using at_work_keep [OF assms] by blast
  assume short: "no_short_replies (send_and_receive os)"
  have "\<exists>st kw. main_get_status os i (k, w) = Some (st, kw) \<and> in_session obs fd v k kw"
    unfolding main_get_status_def
  proof (rule via_motor_session [OF s])
    show "\<exists>st m' s'. (case (m, s) of (m, s) \<Rightarrow> do {
          (st, s) \<leftarrow> get_motor_status (send_and_receive os) (link_now os) i s; Some (st, m, s) })
        = Some (st, m', s') \<and> length (mc_cached_status m') = 6 \<and> (on_line obs fd v s \<longrightarrow> on_line obs fd v s')"
      if "length (mc_cached_status m) = 6" for m s
    proof -
      obtain st s' where "get_motor_status (send_and_receive os) (link_now os) i s = Some (st, s')"
        "on_line obs fd v s \<longrightarrow> on_line obs fd v s'"
        using session.get_motor_status_total [OF short] by blast
      with that show ?thesis by simp
    qed
  qed
  then show "\<exists>st kw. main_get_status os i (k, w) = Some (st, kw) \<and> at_work obs fd v kw"
    using at_work_keep [OF assms] by blast
qed

lemma main_read_statuses_work:
  assumes "no_short_replies (send_and_receive os)"
  shows "at_work obs fd v kw \<Longrightarrow>
    \<exists>sts kw'. main_read_statuses os is kw = Some (sts, kw') \<and> length sts = length is \<and> at_work obs fd v kw'"
proof (induction "is" arbitrary: kw)
  case (Cons i "is")
  obtain k w where kw: "kw = (k, w)" by (cases kw)
  obtain st kw1 where "main_get_status os i kw = Some (st, kw1)" "at_work obs fd v kw1"
    using main_motor_work(2) [OF Cons.prems [unfolded kw] assms, of i] kw by blast
  with Cons.IH [OF this(2)] show ?case by fastforce
qed simp

lemma commands_work:
  assumes "at_work obs fd v (k, w)"
  shows "length ps = 6 \<Longrightarrow> \<exists>b kw. sdk_set_all_positions os ps (k, w) = Some (b, kw) \<and> at_work obs fd v kw"
    and "\<exists>b kw. sdk_set_motor_position os i p (k, w) = Some (b, kw) \<and> at_work obs fd v kw"
    and "\<exists>b kw. calibrate_all os (k, w) = Some (b, kw) \<and> at_work obs fd v kw"
proof -
  have s: "in_session obs fd v k (k, w)" "sdk_initialized k" using assms by (simp_all add: at_work_def)
  note keep = at_work_keep [OF assms]
  show "length ps = 6 \<Longrightarrow> \<exists>b kw. sdk_set_all_positions os ps (k, w) = Some (b, kw) \<and> at_work obs fd v kw"
    using sdk_commands_session(6) [OF s] keep by blast
  show "\<exists>b kw. sdk_set_motor_position os i p (k, w) = Some (b, kw) \<and> at_work obs fd v kw"
    using sdk_commands_session(3) [OF s] keep by blast
  show "\<exists>b kw. calibrate_all os (k, w) = Some (b, kw) \<and> at_work obs fd v kw"
    using calibrations_session(3) [OF s] keep by blast
qed

lemma basic_motor_report_work:
  assumes short: "no_short_replies (send_and_receive os)" and "at_work obs fd v kw"
  shows "\<exists>rep kw'. basic_motor_report os kw = Some (rep, kw') \<and> length (rep_statuses rep) = 6 \<and> at_work obs fd v kw'"
proof -
  have "at_work obs fd v (sdk_sleep os 2000000000 kw)" by (rule sdk_sleep_work [OF assms(2)])
  from main_read_statuses_work [OF short this, of motor_ids] obtain sts k1 w1 where
    1: "main_read_statuses os motor_ids (sdk_sleep os 2000000000 kw) = Some (sts, k1, w1)"
    "length sts = 6" "at_work obs fd v (k1, w1)" by (auto simp: motor_ids_eq)
  from commands_work(2) [OF 1(3)] obtain b k2 w2 where
    2: "sdk_set_motor_position os 1 1500 (k1, w1) = Some (b, k2, w2)" "at_work obs fd v (k2, w2)" by fastforce
  obtain st kw3 where
    3: "(if b then main_get_status os 1 (sdk_sleep os 1000000000 (k2, w2)) else Some (None, k2, w2)) = Some (st, kw3)"
    "at_work obs fd v kw3"
  proof (cases b)
    case True
    have "at_work obs fd v (k2, os_sleep os 1000000000 w2)"
      using sdk_sleep_work [OF 2(2), of 1000000000] by (simp add: sdk_sleep_def)
    from main_motor_work(2) [OF this short, of 1] that True show thesis by (auto simp: sdk_sleep_def)
  qed (use 2(2) that in auto)
  from 1(1,2) 2(1) 3 show ?thesis by (simp add: basic_motor_report_def)
qed

end

text \<open>What the readers of the SDK need of its state.\<close>

lemma traverse_rd: "n \<le> length xs \<Longrightarrow> traverse (rd xs) [0..<n] = Some (take n xs)"
proof -
  assume "n \<le> length xs"
  then have "traverse (rd xs) [0..<n] = Some (map ((!) xs) [0..<n])"
    by (intro traverse_total) (simp add: rd_def)
  then show ?thesis using \<open>n \<le> length xs\<close> by (simp add: list_eq_iff_nth_eq)
qed

lemma readers_ready:
  assumes "at_work obs fd v (k, w)"
  obtains xs d where "get_encoder_angles k = Some xs" and "length xs = 16" and "get_imu_orientation k = Some d"
proof -
  obtain c r m i where k: "sdk_ready k c" "sdk_encoder_reader k = Some r" "encoder_wf r"
    "sdk_motor_controller k = Some m" "length (mc_cached_status m) = 6" "sdk_imu_reader k = Some i"
    "sdk_initialized k" by (rule at_work_ready [OF assms])
  with get_cached_angles_total [OF k(3)] that show thesis
    by (auto simp: get_encoder_angles_def get_imu_orientation_def ensure_initialized_def)
qed

lemma final_displays_work:
  assumes "at_work obs fd v (k, w)"
  shows "\<exists>rep. final_displays os cal xs (k, w) = Some rep \<and> rep_calibrated rep = cal \<and> rep_samples rep = xs
    \<and> length (rep_angles rep) = 16 \<and> length (rep_motors rep) = 6"
proof -
  obtain c r m i where k: "sdk_ready k c" "sdk_encoder_reader k = Some r" "encoder_wf r"
    "sdk_motor_controller k = Some m" "length (mc_cached_status m) = 6" "sdk_imu_reader k = Some i"
    "sdk_initialized k" by (rule at_work_ready [OF assms])
  obtain angles d where "get_encoder_angles k = Some angles" "length angles = 16"
    by (rule readers_ready [OF assms])
  moreover have "length (ed_adc_values (er_cached_data r)) = 16" using k(3) by (simp add: encoder_wf_def)
  moreover have "is_valid_motor_id 1" by (simp add: valid_motor_id_iff)
  ultimately show ?thesis
    using k by (auto simp: final_displays_def Let_def encoder_reader_def motor_controller_def imu_reader_def
        encoder_cached_data_def adc_to_voltages_eq traverse_rd NUM_ENCODER_CHANNELS_def NUM_MOTORS_def
        get_all_cached_status_def get_status_age_def rd_def)
qed

context world_observation
begin

lemma take_samples_work:
  assumes short: "no_short_replies (send_and_receive os)"
  shows "at_work obs fd v kw \<Longrightarrow> \<exists>xs seg' kw'. take_samples os ns (seg, kw) = Some (xs, seg', kw')
    \<and> length xs = length ns \<and> at_work obs fd v kw'"
proof (induction ns arbitrary: seg kw)
  case (Cons n ns)
  from background_work [OF short Cons.prems, of n seg] obtain seg1 k1 w1 where
    b: "background os n (seg, kw) = Some (seg1, k1, w1)" "at_work obs fd v (k1, w1)" by auto
  obtain angles d where r: "get_encoder_angles k1 = Some angles" "length angles = 16"
    "get_imu_orientation k1 = Some d" by (rule readers_ready [OF b(2)])
  obtain kw2 where "take_sample os n (seg, kw) = Some ((take 4 angles, d), seg1, kw2)" "at_work obs fd v kw2"
    using b r sdk_sleep_work [OF b(2)] by (auto simp: take_sample_def traverse_rd Let_def)
  with Cons.IH [OF this(2), of seg1] show ?case by auto
qed simp

end

text \<open>The start of both programs: what \<open>initialize\<close> leaves, with the open descriptors observed.\<close>

lemma main_start:
  assumes "fd_laws os fds"
  obtains e kw where "sdk_initialize os (GloveSDK_new (example_config auto_start), w) = Some (Inl e, kw)" and "auto_start"
  | k w' where "sdk_initialize os (GloveSDK_new (example_config auto_start), w) = Some (Inr False, k, w')"
      and "fds w' = fds w" and "\<not> sdk_initialized k"
  | fd kw where "sdk_initialize os (GloveSDK_new (example_config auto_start), w) = Some (Inr True, kw)"
      and "fd \<notin> fds w" and "at_work fds fd (insert fd (fds w)) kw"
proof -
  let ?k = "GloveSDK_new (example_config auto_start)"
  have new: "\<not> sdk_initialized ?k" "gc_auto_start_thread (sdk_config ?k) = auto_start"
    by (simp_all add: GloveSDK_new_def example_config_def)
  from sdk_initialize_descriptors [OF assms sdk_inv_new new(1), of w]
  obtain res k' w' where init: "sdk_initialize os (?k, w) = Some (res, k', w')"
    and auto: "(\<exists>e. res = Inl e) \<longrightarrow> auto_start"
    and ends: "if res = Inr False then \<not> sdk_initialized k' \<and> fds w' = fds w
      else sdk_initialized k' \<and> (res = Inr True \<or> res = Inl Throws_System_Error)
        \<and> sdk_worker k' = \<lparr>thread_running = auto_start, thread_joinable = (auto_start \<and> res = Inr True)\<rparr>
        \<and> (\<exists>fd. fd \<notin> fds w \<and> in_session fds fd (insert fd (fds w)) k' (k', w'))"
    unfolding new(2) by blast
  from ends have out: "if res = Inr False then \<not> sdk_initialized k' \<and> fds w' = fds w
      else sdk_initialized k' \<and> (\<exists>fd. fd \<notin> fds w \<and> in_session fds fd (insert fd (fds w)) k' (k', w'))"
    by (simp split: if_splits)
  show thesis
  proof (cases res)
    case (Inl e)
    with init auto that(1) show ?thesis by blast
  next
    case (Inr b)
    then show ?thesis
    proof (cases b)
      case True
      with Inr out init that(3) [of "(k', w')"] show ?thesis by (auto simp: at_work_def)
    next
      case False
      with Inr out init that(2) [of k' w'] show ?thesis by auto
    qed
  qed
qed

text \<open>The end: leaving \<open>main\<close> closes the descriptor, and a second shutdown does nothing.\<close>

lemma shutdown_twice: "sdk_shutdown os (sdk_shutdown os kw) = sdk_shutdown os kw"
proof -
  have "\<not> sdk_initialized (fst (cleanup_resources os (k, w)))" if "\<not> sdk_initialized k" for k w
    using that by (simp add: cleanup_resources_def Let_def split: option.splits prod.splits)
  then have "\<not> sdk_initialized (fst (sdk_shutdown os kw))"
    by (cases kw) (simp add: sdk_shutdown_def Let_def)
  then show ?thesis by (cases "sdk_shutdown os kw") (simp add: sdk_shutdown_def)
qed

lemma leave_main_closes:
  assumes "fd_laws os fds" and "fd \<notin> F" and "at_work fds fd (insert fd F) kw"
  shows "fds (snd (leave_main os code kw)) = F"
    and "leave_main os code (sdk_shutdown os kw) = leave_main os code kw"
    and "fst (leave_main os code kw) = Exit code"
  using shutdown_descriptors [OF assms(1), of fd "insert fd F" "fst kw" "fst kw" "snd kw"] assms(2,3)
  by (simp_all add: leave_main_def at_work_def shutdown_twice)

lemma leave_main_inert: "\<not> sdk_initialized k \<Longrightarrow> leave_main os code (k, w) = (Exit code, w)"
  by (simp add: leave_main_def sdk_shutdown_def)

section \<open>Properties\<close>

text \<open>
  C28. The motor example as a whole, provided that no exchange returns a motor status reply with a body of 18 bytes, which the parser
  cannot take (\<open>no_short_replies\<close>). On every network and device the program then ends without undefined behaviour, with exit code 0 and a full report
  (six motors asked) or with exit code 1 and none, and on each of its exits every descriptor it opened is
  closed again.
\<close>

theorem basic_motor_control_runs:
  assumes laws: "fd_laws os fds" and short: "no_short_replies (send_and_receive os)"
  shows "\<exists>rep st w'. basic_motor_control os w = Some (rep, st, w') \<and> fds w' = fds w
    \<and> ((\<exists>r. st = Exit 0 \<and> rep = Some r \<and> length (rep_statuses r) = 6) \<or> (st = Exit 1 \<and> rep = None))"
proof -
  note obs = fd_laws_observation [OF laws]
  show ?thesis
  proof (cases rule: main_start [OF laws, where auto_start = False and w = w])
    case (2 k w')
    then show ?thesis by (simp add: basic_motor_control_def leave_main_inert)
  next
    case (3 fd kw)
    note closes = leave_main_closes [OF laws 3(2)]
    from world_observation.main_motor_work(1) [OF obs, of fd "insert fd (fds w)" "fst kw" "snd kw" MODE_POSITION] 3(3)
    obtain b1 k1 w1 where 4: "main_set_all_modes os MODE_POSITION kw = Some (b1, k1, w1)"
      "at_work fds fd (insert fd (fds w)) (k1, w1)" by auto
    have "length target_positions = 6" by (simp add: target_positions_def)
    from world_observation.commands_work(1) [OF obs 4(2) this] obtain b2 kw2 where
      5: "sdk_set_all_positions os target_positions (k1, w1) = Some (b2, kw2)"
      "at_work fds fd (insert fd (fds w)) kw2" by auto
    from world_observation.basic_motor_report_work [OF obs short 5(2)] obtain r kw3 where
      6: "basic_motor_report os kw2 = Some (r, kw3)" "length (rep_statuses r) = 6"
      "at_work fds fd (insert fd (fds w)) kw3" by blast
    show ?thesis
      using 3(1) 4(1) 5(1) 6(1,2) closes [OF 4(2), of 1] closes [OF 5(2), of 1] closes [OF 6(3), of 0]
      by (simp add: basic_motor_control_def)
        (cases "leave_main os 1 (k1, w1)"; cases "leave_main os 1 kw2"; cases "leave_main os 0 kw3"; auto)
  qed simp
qed

theorem basic_motor_control_runs_witness:
  "\<exists>rep st w'. basic_motor_control (device_os demo_reply) (sim_init []) = Some (rep, st, w')
    \<and> sim_open w' = sim_open (sim_init []) \<and> (st = Exit 0 \<or> st = Exit 1)"
  using basic_motor_control_runs [OF fd_laws_device no_short_replies_demo, of "sim_init []"] by blast

text \<open>
  The sensor example as a whole, next to the update thread. However many segments the thread runs before,
  between and after the steps of \<open>main\<close>, the program ends without undefined behaviour: with exit code 0, a
  hundred samples and a report on all sixteen channels, or with exit code 1 and none, and then
  every descriptor is closed again; or with the exception of the failed thread creation.
\<close>

lemma read_sensors_runs:
  assumes laws: "fd_laws os fds" and short: "no_short_replies (send_and_receive os)"
  shows "\<exists>rep st w'. read_sensors os before during finishing w = Some (rep, st, w')
    \<and> (case st of
        Exit code \<Rightarrow> fds w' = fds w \<and> (if code = 0
          then \<exists>r. rep = Some r \<and> length (rep_samples r) = 100 \<and> length (rep_angles r) = 16
          else code = 1 \<and> rep = None)
      | Uncaught e \<Rightarrow> rep = None)"
proof -
  note obs = fd_laws_observation [OF laws]
  show ?thesis
  proof (cases rule: main_start [OF laws, where auto_start = True and w = w])
    case (1 e kw)
    then show ?thesis by (simp add: read_sensors_def)
  next
    case (2 k w')
    then show ?thesis by (simp add: read_sensors_def leave_main_inert)
  next
    case (3 fd kw)
    let ?work = "at_work fds fd (insert fd (fds w))"
    from world_observation.background_work [OF obs short world_observation.sdk_sleep_work [OF obs 3(3)],
        of before Motor_Segment 500000000]
    obtain seg1 k1 w1 where 4: "background os before (Motor_Segment, sdk_sleep os 500000000 kw) = Some (seg1, k1, w1)"
      "?work (k1, w1)" by auto
    from world_observation.commands_work(3) [OF obs 4(2)] obtain cal kw2 where
      5: "calibrate_all os (k1, w1) = Some (cal, kw2)" "?work kw2" by auto
    from world_observation.take_samples_work [OF obs short 5(2), of "map during [0..<100]" seg1]
    obtain xs seg3 k3 w3 where 6: "take_samples os (map during [0..<100]) (seg1, kw2) = Some (xs, seg3, k3, w3)"
      "length xs = 100" "?work (k3, w3)" by auto
    from final_displays_work [OF 6(3), of os cal xs] obtain r where
      7: "final_displays os cal xs (k3, w3) = Some r" "rep_samples r = xs" "length (rep_angles r) = 16" by blast
    from world_observation.background_work [OF obs short 6(3), of finishing seg3] obtain seg4 kw4 where
      8: "background os finishing (seg3, k3, w3) = Some (seg4, kw4)" "?work kw4" by blast
    show ?thesis
      using 3(1) 4(1) 5(1) 6(1,2) 7 8(1) leave_main_closes [OF laws 3(2) 8(2), of 0]
      by (cases "leave_main os 0 kw4") (simp add: read_sensors_def)
  qed
qed

lemma read_sensors_runs_instance:
  "\<exists>rep st w'. read_sensors (device_os demo_reply) 3 (\<lambda>i. i mod 2) 1 (sim_init []) = Some (rep, st, w')
    \<and> (st = Exit 0 \<longrightarrow> sim_open w' = sim_open (sim_init []))"
  using read_sensors_runs [OF fd_laws_device no_short_replies_demo, of 3 "\<lambda>i. i mod 2" 1 "sim_init []"]
  by fastforce

end
