(* ===== verification/Component_Examples.thy ===== *)
theory Component_Examples
  imports Examples
begin

text \<open>
  The three programs under \<open>src/examples\<close> that exercise one component each on a client of their own:
  \<open>test_motor_controller.cpp\<close>, \<open>test_encoder_reader.cpp\<close>, \<open>test_imu_reader.cpp\<close>. They share one shape (connect,
  initialise, a few blocking steps, then five seconds of displaying cached data next to the component's own
  thread, stop, report), which is \<open>standalone_main\<close> over the operations of a component. Printing is left out.
\<close>

section \<open>The operations of a component\<close>

text \<open>
  What a program does with its component \<open>'c\<close>: \<open>sa_steps\<close> are the blocking steps before the thread is started,
  with what they print as \<open>'b\<close>; \<open>sa_shown\<close> is a line of the display; \<open>sa_final\<close> what is reported at the end.
\<close>

record ('w, 'c, 'b, 'd, 'e) standalone =
  sa_timeout :: int
  sa_interval :: int
  sa_create :: "time \<Rightarrow> 'c"
  sa_initialize :: "'c \<times> 'w link \<Rightarrow> ((start_outcome + bool) \<times> 'c \<times> 'w link) ub"
  sa_steps :: "'c \<times> 'w link \<Rightarrow> ('b \<times> 'c \<times> 'w link) ub"
  sa_start :: "'c \<times> 'w link \<Rightarrow> start_outcome \<times> 'c \<times> 'w link"
  sa_update :: "'c \<times> 'w link \<Rightarrow> (bool \<times> 'c \<times> 'w link) ub"
  sa_worker :: "'c \<Rightarrow> worker"
  sa_running :: "'c \<Rightarrow> bool"
  sa_stop :: "'c \<Rightarrow> 'c"
  sa_destroy :: "'c \<Rightarrow> 'c"
  sa_shown :: "'c \<Rightarrow> time \<Rightarrow> 'd ub"
  sa_final :: "'c \<Rightarrow> 'e ub"

record ('b, 'd, 'e) standalone_report =
  sr_steps :: 'b
  sr_started :: bool
  sr_displays :: "'d list"
  sr_running :: bool
  sr_final :: 'e
  sr_network :: NetworkStatistics

section \<open>The main functions\<close>

text \<open>
  The configuration from the command line: \<open>ip\<close> is the first argument, \<open>port\<close> the number \<open>std::stoi\<close> reads
  from the second, each if present. (On a second argument that is no number \<open>main\<close> ends with the exception of
  \<open>std::stoi\<close> before it does anything.)
\<close>

definition standalone_config :: "string option \<Rightarrow> int option \<Rightarrow> int \<Rightarrow> UdpConfig" where
  "standalone_config ip port timeout =
     (let server_port = (case port of None \<Rightarrow> 8080 | Some n \<Rightarrow> word_of_int n)
      in UdpConfig_default\<lparr>cfg_server_ip := (case ip of None \<Rightarrow> ''192.168.10.123'' | Some s \<Rightarrow> s),
           cfg_server_port := server_port, cfg_local_port := server_port,
           cfg_send_timeout := timeout, cfg_receive_timeout := timeout\<rparr>)"

text \<open>
  Rounds of the component's thread while its flag is set; with the thread's failure counter. The motor
  controller's loop loads the flag twice per round, which with the flag set is the same round.
\<close>

definition thread_rounds ::
  "'w os \<Rightarrow> ('w, 'c, 'b, 'd, 'e) standalone \<Rightarrow> nat \<Rightarrow> int \<times> 'c \<times> 'w link \<Rightarrow> (int \<times> 'c \<times> 'w link) ub" where
  "thread_rounds os d n cs = do {
     (left, cs) \<leftarrow> worker_loop (loop_body (\<lambda>cs. link_now os (snd cs)) (\<lambda>t cs. (fst cs, link_sleep os t (snd cs)))
       (sa_update d) (sa_interval d)) (replicate n True) cs;
     Some cs }"

text \<open>
  The display loop on the list of the values its loads of \<open>g_running\<close> return (a signal clears it), each with
  the number of rounds the thread makes while \<open>main\<close> sleeps. It says whether it left or the list ended first.
\<close>

fun display_loop ::
  "'w os \<Rightarrow> ('w, 'c, 'b, 'd, 'e) standalone \<Rightarrow> time \<Rightarrow> (bool \<times> nat) list \<Rightarrow> int \<times> 'c \<times> 'w link
    \<Rightarrow> (bool \<times> 'd list \<times> int \<times> 'c \<times> 'w link) ub" where
  "display_loop os d start [] cs = Some (False, [], cs)"
| "display_loop os d start ((g_running, n) # loads) (f, c, s) =
     (if \<not> g_running then Some (True, [], f, c, s)
      else if link_now os s - start \<ge> 5 * 1000000000 then Some (True, [], f, c, s)
      else do {
        line \<leftarrow> sa_shown d c (link_now os s);
        (f, c, s) \<leftarrow> thread_rounds os d n (f, c, s);
        (left, lines, cs) \<leftarrow> display_loop os d start loads (f, c, link_sleep os 200000000 s);
        Some (left, line # lines, cs) })"

text \<open>
  Leaving \<open>main\<close>: \<open>disconnect\<close>, then the destructors. The component's stops its thread, and destroying the
  \<open>std::thread\<close> in it terminates the program if it is still joinable; the client's disconnects once more.
\<close>

definition leave_standalone ::
  "'w os \<Rightarrow> ('w, 'c, 'b, 'd, 'e) standalone \<Rightarrow> int \<Rightarrow> 'c \<times> 'w link \<Rightarrow> exit_status option \<times> 'w" where
  "leave_standalone os d code cs =
     (let (c, s) = cs;
          s = disconnect os s;
          c = sa_destroy d c
      in if thread_joinable (sa_worker d c) then (Some (Uncaught Terminates), snd s)
      else (Some (Exit code), destroy_client os s))"

definition standalone_main ::
  "'w os \<Rightarrow> ('w, 'c, 'b, 'd, 'e) standalone \<Rightarrow> string option \<Rightarrow> int option \<Rightarrow> (bool \<times> nat) list \<Rightarrow> nat \<Rightarrow> 'w
    \<Rightarrow> (('b, 'd, 'e) standalone_report option \<times> exit_status option \<times> 'w) ub" where
  "standalone_main os d ip port loads finishing w =
     (let (connected, s) = connect os (UdpClient_new (standalone_config ip port (sa_timeout d)), w)
      in if \<not> connected then Some (None, Some (Exit 1), destroy_client os s)
      else do {
        (r, c, s) \<leftarrow> sa_initialize d (sa_create d (link_now os s), s);
        case r of
          Inl e \<Rightarrow> Some (None, Some (Uncaught e), snd s)
        | Inr False \<Rightarrow> Some (None, leave_standalone os d 1 (c, s))
        | Inr True \<Rightarrow> do {
            (steps, c, s) \<leftarrow> sa_steps d (c, s);
            let (out, c, s) = sa_start d (c, s);
            case after_start out of
              Inl e \<Rightarrow> Some (None, Some (Uncaught e), snd s)
            | Inr _ \<Rightarrow> do {
                let started = sa_running d c;
                (left, lines, f, c, s) \<leftarrow> display_loop os d (link_now os s) loads (0, c, s);
                if \<not> left then Some (None, None, snd s)
                else do {
                  (f, c, s) \<leftarrow> thread_rounds os d finishing (f, c, s);
                  let c = sa_stop d c;
                  final \<leftarrow> sa_final d c;
                  let report = \<lparr>sr_steps = steps, sr_started = started, sr_displays = lines,
                    sr_running = sa_running d c, sr_final = final,
                    sr_network = get_statistics (fst s)\<rparr>;
                  Some (Some report, leave_standalone os d 0 (c, s)) } } } })"

section \<open>The three programs\<close>

text \<open>A blocking step for each element of a list.\<close>

fun for_each :: "('k \<Rightarrow> 's \<Rightarrow> ('a \<times> 's) ub) \<Rightarrow> 'k list \<Rightarrow> 's \<Rightarrow> ('a list \<times> 's) ub" where
  "for_each f [] s = Some ([], s)"
| "for_each f (k # ks) s = do { (x, s) \<leftarrow> f k s; (xs, s) \<leftarrow> for_each f ks s; Some (x # xs, s) }"

definition encoder_sample ::
  "'w os \<Rightarrow> EncoderReader \<times> 'w link \<Rightarrow> ((EncoderData \<times> f32 list \<times> f32 list) option \<times> EncoderReader \<times> 'w link) ub" where
  "encoder_sample os rs = do {
     let (r, s) = rs;
     (data, s) \<leftarrow> read_encoders (send_and_receive os) (link_now os) s;
     sample \<leftarrow> (case data of
         None \<Rightarrow> Some None
       | Some d \<Rightarrow> do {
           voltages \<leftarrow> adc_to_voltages (ed_adc_values d);
           angles \<leftarrow> voltages_to_angles r voltages;
           Some (Some (d, voltages, angles)) });
     Some (sample, r, link_sleep os 50000000 s) }"

definition encoder_steps :: "'w os \<Rightarrow> EncoderReader \<times> 'w link
    \<Rightarrow> (((EncoderData \<times> f32 list \<times> f32 list) option list \<times> bool \<times> f32 list) \<times> EncoderReader \<times> 'w link) ub" where
  "encoder_steps os rs = do {
     (samples, rs) \<leftarrow> for_each (\<lambda>i. encoder_sample os) [0..<5] rs;
     (calibrated, r, s) \<leftarrow> calibrate_zero_point (send_and_receive os) (link_now os) rs;
     cached_angles \<leftarrow> get_cached_angles r;
     post_cal \<leftarrow> traverse (rd cached_angles) [0..<NUM_ENCODER_CHANNELS];
     Some ((samples, calibrated, post_cal), r, s) }"

definition encoder_line :: "EncoderReader \<Rightarrow> time \<Rightarrow> (f32 list \<times> int) ub" where
  "encoder_line r now = do {
     angles \<leftarrow> get_cached_angles r;
     shown \<leftarrow> traverse (rd angles) [0..<6];
     Some (shown, encoder_data_age r now) }"

definition encoder_standalone ::
  "'w os \<Rightarrow> ('w, EncoderReader, (EncoderData \<times> f32 list \<times> f32 list) option list \<times> bool \<times> f32 list,
     f32 list \<times> int, EncoderCalibration) standalone" where
  "encoder_standalone os = \<lparr>sa_timeout = 250, sa_interval = 200,
     sa_create = EncoderReader_new \<lparr>erc_auto_start_thread = False, erc_update_interval = 200\<rparr>,
     sa_initialize = encoder_initialize (send_and_receive os) (link_now os) (link_spawn os),
     sa_steps = encoder_steps os,
     sa_start = encoder_start_update_thread (link_spawn os),
     sa_update = encoder_update_once (send_and_receive os) (link_now os),
     sa_worker = er_worker, sa_running = encoder_thread_running, sa_stop = encoder_stop_update_thread, sa_destroy = encoder_destroy, sa_shown = encoder_line,
     sa_final = (\<lambda>r. do {
       let cal = encoder_get_calibration r;
       zeros \<leftarrow> (if ec_is_calibrated cal then traverse (rd (ec_zero_voltages cal)) [0..<NUM_ENCODER_CHANNELS] else Some []);
       Some cal })\<rparr>"

definition imu_sample :: "'w os \<Rightarrow> ImuReader \<times> 'w link \<Rightarrow> (ImuData option \<times> ImuReader \<times> 'w link) ub" where
  "imu_sample os rs = do {
     let (r, s) = rs;
     (data, s) \<leftarrow> read_imu (send_and_receive os) (link_now os) s;
     Some (data, r, link_sleep os 50000000 s) }"

definition imu_steps ::
  "'w os \<Rightarrow> ImuReader \<times> 'w link \<Rightarrow> ((ImuData option list \<times> bool \<times> ImuData) \<times> ImuReader \<times> 'w link) ub" where
  "imu_steps os rs = do {
     (samples, rs) \<leftarrow> for_each (\<lambda>i. imu_sample os) [0..<5] rs;
     (calibrated, r, s) \<leftarrow> calibrate_zero_orientation (send_and_receive os) (link_now os) rs;
     Some ((samples, calibrated, imu_cached_data r), r, s) }"

definition imu_standalone ::
  "'w os \<Rightarrow> ('w, ImuReader, ImuData option list \<times> bool \<times> ImuData, ImuData \<times> int, ImuCalibration) standalone" where
  "imu_standalone os = \<lparr>sa_timeout = 150, sa_interval = 100,
     sa_create = ImuReader_new \<lparr>irc_auto_start_thread = False, irc_update_interval = 100\<rparr>,
     sa_initialize = imu_initialize (send_and_receive os) (link_now os) (link_spawn os),
     sa_steps = imu_steps os,
     sa_start = imu_start_update_thread (link_spawn os),
     sa_update = imu_update_once (send_and_receive os) (link_now os),
     sa_worker = ir_worker, sa_running = imu_thread_running, sa_stop = imu_stop_update_thread, sa_destroy = imu_destroy,
     sa_shown = (\<lambda>r now. Some (imu_cached_data r, imu_data_age r now)),
     sa_final = (\<lambda>r. Some (imu_get_calibration r))\<rparr>"

text \<open>The blocking steps of the motor program: a read, and a force with its verification if it was set.\<close>

definition motor_read :: "'w os \<Rightarrow> u8 \<Rightarrow> 'w link \<Rightarrow> (MotorStatus option \<times> 'w link) ub" where
  "motor_read os i s = do {
     (status, s) \<leftarrow> get_motor_status (send_and_receive os) (link_now os) i s;
     Some (status, link_sleep os 50000000 s) }"

definition motor_force :: "'w os \<Rightarrow> u16 \<Rightarrow> 'w link \<Rightarrow> ((bool \<times> MotorStatus option) \<times> 'w link) ub" where
  "motor_force os force s = do {
     (ok, s) \<leftarrow> set_motor_force (send_and_receive os) 1 force s;
     if ok then do {
       (status, s) \<leftarrow> get_motor_status (send_and_receive os) (link_now os) 1 (link_sleep os 500000000 s);
       Some ((True, status), s) }
     else Some ((False, None), s) }"

definition motor_steps :: "'w os \<Rightarrow> MotorController \<times> 'w link
    \<Rightarrow> ((MotorStatus option list \<times> bool \<times> (bool \<times> MotorStatus option) list \<times> bool) \<times> MotorController \<times> 'w link) ub" where
  "motor_steps os ms = do {
     let (m, s) = ms;
     (statuses, s) \<leftarrow> for_each (motor_read os) [1, 2, 3] s;
     (mode_set, s) \<leftarrow> set_motor_mode (send_and_receive os) 1 MODE_FORCE s;
     (forces_set, s) \<leftarrow> for_each (motor_force os) [10, 50, 100, 10] s;
     (all_set, s) \<leftarrow> set_all_forces (send_and_receive os) (replicate NUM_MOTORS 20) s;
     Some ((statuses, mode_set, forces_set, all_set), m, s) }"

definition motor_line :: "MotorController \<Rightarrow> time \<Rightarrow> (MotorStatus option \<times> int) list ub" where
  "motor_line m now = traverse (\<lambda>i. do {
     status \<leftarrow> get_cached_status m i;
     age \<leftarrow> get_status_age m i now;
     Some (status, age) }) [1, 2, 3]"

definition motor_standalone ::
  "'w os \<Rightarrow> ('w, MotorController, MotorStatus option list \<times> bool \<times> (bool \<times> MotorStatus option) list \<times> bool,
     (MotorStatus option \<times> int) list, MotorStatus list) standalone" where
  "motor_standalone os = \<lparr>sa_timeout = 500, sa_interval = 100,
     sa_create = MotorController_new \<lparr>mcc_auto_start_thread = False, mcc_update_interval = 100\<rparr>,
     sa_initialize = motor_initialize (send_and_receive os) (link_spawn os),
     sa_steps = motor_steps os,
     sa_start = start_status_update_thread (link_spawn os),
     sa_update = motor_update_once (send_and_receive os) (link_now os),
     sa_worker = mc_worker, sa_running = motor_thread_running, sa_stop = stop_status_update_thread, sa_destroy = motor_destroy, sa_shown = motor_line,
     sa_final = (\<lambda>m. traverse (rd (get_all_cached_status m)) [0..<NUM_MOTORS])\<rparr>"

section \<open>What lasts\<close>

text \<open>
  Assertions on client and world that exchanges, sleeping and thread creation cannot make false; a later
  state keeps all of them.
\<close>

definition lasting :: "'w os \<Rightarrow> ('w link \<Rightarrow> bool) \<Rightarrow> bool" where
  "lasting os assn \<longleftrightarrow> exchange (send_and_receive os) assn
     \<and> (\<forall>t s. 0 < t \<longrightarrow> assn s \<longrightarrow> assn (link_sleep os t s)) \<and> (\<forall>s. assn s \<longrightarrow> assn (snd (link_spawn os s)))"

definition later :: "'w os \<Rightarrow> 'w link \<Rightarrow> 'w link \<Rightarrow> bool" where
  "later os s s' \<longleftrightarrow> (\<forall>assn. lasting os assn \<longrightarrow> assn s \<longrightarrow> assn s')"

lemma later_refl [simp]: "later os s s"
  by (simp add: later_def)

lemma later_trans [trans]: "later os s s1 \<Longrightarrow> later os s1 s2 \<Longrightarrow> later os s s2"
  unfolding later_def by blast

lemma lastingD:
  assumes "lasting os assn"
  shows "send_and_receive os p s = Some (r, s') \<Longrightarrow> assn s \<Longrightarrow> assn s'"
    and "0 < t \<Longrightarrow> assn s \<Longrightarrow> assn (link_sleep os t s)" and "assn s \<Longrightarrow> assn (snd (link_spawn os s))"
  using assms exchange.xchg_inv [of "send_and_receive os" assn p s r s'] unfolding lasting_def by blast+

lemma later_steps:
  "send_and_receive os p s = Some (r, s') \<Longrightarrow> later os s s'"
  "0 < t \<Longrightarrow> later os s (link_sleep os t s)" "later os s (snd (link_spawn os s))"
  unfolding later_def using lastingD by metis+

lemma later_exchange: "exchange (send_and_receive os) (later os s)"
proof
  show "\<exists>r s'. send_and_receive os p s = Some (r, s')" for p s by (rule send_and_receive_defined)
  show "later os s s2" if "send_and_receive os p s1 = Some (r, s2)" "later os s s1" for p s1 r s2
    by (rule later_trans [OF that(2) later_steps(1) [OF that(1)]])
qed

text \<open>The documented behaviour of a steady clock: it never goes back, and sleeping takes its time.\<close>

definition steady :: "'w os \<Rightarrow> bool" where
  "steady os \<longleftrightarrow> (\<forall>fd data w. os_now os w \<le> os_now os (snd (os_send os fd data w)))
     \<and> (\<forall>fd n w. os_now os w \<le> os_now os (snd (os_recv os fd n w)))
     \<and> (\<forall>t w. 0 < t \<longrightarrow> os_now os w + t \<le> os_now os (os_sleep os t w))
     \<and> (\<forall>w. os_now os w \<le> os_now os (snd (os_thread_create os w)))"

lemma steady_exchange:
  assumes "steady os" and "send_and_receive os p s = Some (r, s')"
  shows "link_now os s \<le> link_now os s'"
proof -
  obtain b c1 w1 where sp: "send_packet os p (fst s, snd s) = (b, c1, w1)" by (metis prod_cases3)
  have send: "os_now os (snd s) \<le> os_now os w1"
    using sp assms(1) by (auto simp: send_packet_def Let_def steady_def split: if_splits prod.splits; metis snd_conv)
  have recv: "os_now os w1 \<le> os_now os (snd s')" if "receive_packet os (c1, w1) = Some (r, s')"
  proof -
    obtain c' w' where s': "s' = (c', w')" by (cases s')
    have "w' = w1 \<or> w' = snd (os_recv os (uc_socket_fd c1) 1024 w1)"
      using that s' by (auto simp: receive_packet_eq split: if_splits prod.splits recv_result.splits)
    with s' assms(1) show ?thesis by (auto simp: steady_def)
  qed
  show ?thesis
    using assms(2) sp send recv by (cases b) (auto simp: send_and_receive_def link_now_def)
qed

lemma lasting_clock:
  assumes "steady os"
  shows "lasting os (\<lambda>s. t \<le> link_now os s)"
proof -
  have "exchange (send_and_receive os) (\<lambda>s. t \<le> link_now os s)"
    by unfold_locales (rule send_and_receive_defined, use steady_exchange [OF assms] in \<open>fastforce\<close>)
  moreover have "t \<le> os_now os (os_sleep os u w)" if "0 < u" "t \<le> os_now os w" for u w
  proof -
    have "os_now os w + u \<le> os_now os (os_sleep os u w)" using assms that(1) by (simp add: steady_def)
    with that show ?thesis by simp
  qed
  moreover have "t \<le> os_now os (snd (os_thread_create os w))" if "t \<le> os_now os w" for w
    using assms that unfolding steady_def by (meson order_trans)
  ultimately show ?thesis
    by (simp add: lasting_def link_now_def link_sleep_def link_spawn_def case_prod_beta)
qed

lemma later_clock: "steady os \<Longrightarrow> later os s s' \<Longrightarrow> link_now os s \<le> link_now os s'"
  using lasting_clock [of os "link_now os s"] by (auto simp: later_def)

context world_observation
begin

lemma lasting_on_line: "lasting os (on_line obs fd v)"
  using exchange_on_line by (simp add: lasting_def on_line_def link_sleep_def link_spawn_def obs_sleep
      obs_spawn case_prod_beta)

end

section \<open>The common run\<close>

text \<open>
  What \<open>standalone_main\<close> needs of a component: \<open>wf\<close> holds from its creation on, \<open>idle\<close> until the thread is
  started.
\<close>

locale standalone_laws =
  fixes os :: "'w os" and d :: "('w, 'c, 'b, 'd, 'e) standalone" and wf :: "'c \<Rightarrow> bool" and idle :: "'c \<Rightarrow> bool"
  assumes initialized: "wf c \<Longrightarrow> idle c \<Longrightarrow>
      \<exists>b c' s'. sa_initialize d (c, s) = Some (Inr b, c', s') \<and> wf c' \<and> idle c' \<and> later os s s'"
    and stepped: "wf c \<Longrightarrow> idle c \<Longrightarrow>
      \<exists>x c' s'. sa_steps d (c, s) = Some (x, c', s') \<and> wf c' \<and> idle c' \<and> later os s s'"
    and started: "wf c \<Longrightarrow> idle c \<Longrightarrow> sa_start d (c, s) = (out, c', s') \<Longrightarrow>
      (out = Throws_System_Error \<or> out = Started \<and> wf c' \<and> sa_running d c') \<and> later os s s'"
    and updated: "wf c \<Longrightarrow> \<exists>b c' s'. sa_update d (c, s) = Some (b, c', s') \<and> wf c' \<and> later os s s'"
    and destroyed: "wf c \<Longrightarrow> \<not> thread_joinable (sa_worker d (sa_destroy d c))"
    and stopped: "wf c \<Longrightarrow> wf (sa_stop d c) \<and> \<not> sa_running d (sa_stop d c)"
    and displayed: "wf c \<Longrightarrow> \<exists>x. sa_shown d c t = Some x" "wf c \<Longrightarrow> \<exists>x. sa_final d c = Some x"
begin

lemma thread_poller:
  "total_poller (sa_update d) (\<lambda>cs. wf (fst cs) \<and> later os s (snd cs))
     (\<lambda>t cs. (fst cs, link_sleep os t (snd cs)))"
proof
  fix cs cs' :: "'c \<times> 'w link" and b and t :: time
  assume w: "wf (fst cs) \<and> later os s (snd cs)"
  from w updated [of "fst cs" "snd cs"] obtain b0 c0 s0 where
    u: "sa_update d cs = Some (b0, c0, s0)" "wf c0" "later os (snd cs) s0" by auto
  show "\<exists>b cs'. sa_update d cs = Some (b, cs')" using u by blast
  show "wf (fst cs') \<and> later os s (snd cs')" if "sa_update d cs = Some (b, cs')"
    using that u w later_trans [of os s "snd cs" s0] by auto
  show "wf (fst (fst cs, link_sleep os t (snd cs))) \<and> later os s (snd (fst cs, link_sleep os t (snd cs)))" if "0 < t"
    using w later_trans [OF _ later_steps(2) [OF that], of os s "snd cs"] by simp
qed

lemma rounds_total:
  assumes "wf c" and "0 \<le> f" and "f + int n \<le> INT_MAX"
  shows "\<exists>f' c' s'. thread_rounds os d n (f, c, s) = Some (f', c', s') \<and> wf c' \<and> later os s s'
    \<and> 0 \<le> f' \<and> f' \<le> f + int n"
  using total_poller.worker_loop_total [OF thread_poller [of s], of "(c, s)" f "replicate n True"
      "\<lambda>cs. link_now os (snd cs)" "sa_interval d"] assms
  by (auto simp: thread_rounds_def)

text \<open>
  The display loop: when the loads last and the clock is steady, it leaves, because each line costs 200 ms of
  the five seconds.
\<close>

lemma display_total:
  assumes "steady os"
  shows "wf c \<Longrightarrow> 0 \<le> f \<Longrightarrow> f + int (sum_list (map snd loads)) \<le> INT_MAX \<Longrightarrow>
    \<exists>left lines f' c' s'. display_loop os d start loads (f, c, s) = Some (left, lines, f', c', s')
      \<and> wf c' \<and> later os s s' \<and> 0 \<le> f' \<and> f' \<le> f + int (sum_list (map snd loads))
      \<and> (lines \<noteq> [] \<longrightarrow> link_now os s - start + 200000000 * (int (length lines) - 1) < 5000000000)
      \<and> (left \<or> length lines = length loads)"
proof (induction loads arbitrary: f c s)
  case (Cons l loads)
  obtain g n where l: "l = (g, n)" by (cases l)
  show ?case
  proof (cases "g \<and> link_now os s - start < 5000000000")
    case True
    obtain x where x: "sa_shown d c (link_now os s) = Some x" using displayed(1) [OF Cons.prems(1)] by blast
    obtain f1 c1 s1 where r: "thread_rounds os d n (f, c, s) = Some (f1, c1, s1)" "wf c1" "later os s s1"
      "0 \<le> f1" "f1 \<le> f + int n"
      using rounds_total [OF Cons.prems(1,2), of n s] Cons.prems(3) l by auto
    let ?s = "link_sleep os 200000000 s1"
    have "f1 + int (sum_list (map snd loads)) \<le> INT_MAX" using Cons.prems(3) r(5) l by simp
    from Cons.IH [OF r(2,4) this, of ?s] obtain left lines f' c' s' where
      i: "display_loop os d start loads (f1, c1, ?s) = Some (left, lines, f', c', s')" "wf c'" "later os ?s s'"
      "0 \<le> f'" "f' \<le> f1 + int (sum_list (map snd loads))"
      "lines \<noteq> [] \<longrightarrow> link_now os ?s - start + 200000000 * (int (length lines) - 1) < 5000000000"
      "left \<or> length lines = length loads" by blast
    have "later os s ?s" using later_trans [OF r(3) later_steps(2)] by simp
    then have later: "later os s s'" using later_trans i(3) by blast
    have sleep: "link_now os s1 + 200000000 \<le> link_now os ?s"
      using assms by (simp add: steady_def link_now_def link_sleep_def)
    have bound: "link_now os s - start + 200000000 * int (length lines) < 5000000000"
    proof (cases lines)
      case (Cons y ys)
      with i(6) later_clock [OF assms r(3)] sleep show ?thesis by simp
    qed (use True in simp)
    have "display_loop os d start (l # loads) (f, c, s) = Some (left, x # lines, f', c', s')"
      using True x r(1) i(1) by (simp add: l)
    moreover have "f' \<le> f + int (sum_list (map snd (l # loads)))" using i(5) r(5) by (simp add: l)
    moreover have "left \<or> length (x # lines) = length (l # loads)" using i(7) by auto
    moreover have "0 \<le> f'" and "wf c'" by (rule i(4), rule i(2))
    moreover have "x # lines \<noteq> [] \<longrightarrow>
        link_now os s - start + 200000000 * (int (length (x # lines)) - 1) < 5000000000"
      using bound by simp
    ultimately show ?thesis using later by blast
  next
    case False
    then have "display_loop os d start (l # loads) (f, c, s) = Some (True, [], f, c, s)" by (auto simp: l)
    moreover have "f \<le> f + int (sum_list (map snd (l # loads)))" by simp
    ultimately show ?thesis using Cons.prems(1,2) by (intro exI conjI) (assumption | simp)+
  qed
qed (auto intro: exI [of _ False])

lemma displays_done:
  assumes "steady os" and "wf c" and "26 \<le> length loads" and "int (sum_list (map snd loads)) \<le> INT_MAX"
  shows "\<exists>lines f' c' s'. display_loop os d (link_now os s) loads (0, c, s) = Some (True, lines, f', c', s')
    \<and> wf c' \<and> later os s s' \<and> 0 \<le> f' \<and> f' \<le> int (sum_list (map snd loads)) \<and> length lines \<le> 25"
proof -
  have le: "0 + int (sum_list (map snd loads)) \<le> INT_MAX" using assms(4) by simp
  from display_total [OF assms(1,2) order_refl le, of "link_now os s" s] obtain left lines f' c' s' where
    r: "display_loop os d (link_now os s) loads (0, c, s) = Some (left, lines, f', c', s')"
      "wf c'" "later os s s'" "0 \<le> f'" "f' \<le> int (sum_list (map snd loads))"
      "lines \<noteq> [] \<longrightarrow> 200000000 * (int (length lines) - 1) < 5000000000"
      "left \<or> length lines = length loads" by auto
  have few: "length lines \<le> 25" using r(6) by (cases "lines = []") auto
  with r(7) assms(3) have "left = True" by auto
  with r(1) have "display_loop os d (link_now os s) loads (0, c, s) = Some (True, lines, f', c', s')" by simp
  with r(2-5) few show ?thesis by blast
qed

end

lemma leave_standalone_closes:
  assumes "fd_laws os fds" and "fd \<notin> F" and "on_line fds fd (insert fd F) s"
    and "\<not> thread_joinable (sa_worker d (sa_destroy d c))"
  shows "\<exists>w'. leave_standalone os d code (c, s) = (Some (Exit code), w') \<and> fds w' = F"
  using assms by (cases s) (simp add: leave_standalone_def destroy_client_def disconnect_eq on_line_def fd_laws_close)

text \<open>How a program may end: all descriptors closed on each exit, and a report exactly with exit code 0.\<close>

definition ends_well :: "('w \<Rightarrow> int set) \<Rightarrow> 'w
    \<Rightarrow> (('b, 'd, 'e) standalone_report option \<times> exit_status option \<times> 'w) ub \<Rightarrow> bool" where
  "ends_well fds w result = (case result of
     Some (Some r, Some (Exit code), w') \<Rightarrow> code = 0 \<and> fds w' = fds w
       \<and> sr_started r \<and> length (sr_displays r) \<le> 25 \<and> \<not> sr_running r
   | Some (None, Some (Exit code), w') \<Rightarrow> code = 1 \<and> fds w' = fds w
   | Some (None, Some (Uncaught e), w') \<Rightarrow> e = Throws_System_Error
   | _ \<Rightarrow> False)"

context standalone_laws
begin

lemma main_ends_well:
  assumes laws: "fd_laws os fds" and clock: "steady os"
    and created: "\<And>t. wf (sa_create d t) \<and> idle (sa_create d t)"
    and loads: "26 \<le> length loads" "int (sum_list (map snd loads)) + int finishing \<le> INT_MAX"
  shows "ends_well fds w (standalone_main os d ip port loads finishing w)"
proof -
  note obs = fd_laws_observation [OF laws]
  let ?c = "UdpClient_new (standalone_config ip port (sa_timeout d))"
  have new: "\<not> uc_connected ?c" by (simp add: UdpClient_new_def)
  obtain b k1 w1 where cn: "connect os (?c, w) = (b, k1, w1)" by (metis prod_cases3)
  note con = connect_fds [OF laws new cn]
  show ?thesis
  proof (cases b)
    case False
    with cn con show ?thesis by (simp add: standalone_main_def ends_well_def destroy_client_def disconnect_eq)
  next
    case True
    let ?fd = "uc_socket_fd k1" and ?s1 = "(k1, w1)"
    have "0 \<le> ?fd" using connect_result(2) [OF cn new] True by simp
    with con True have line: "?fd \<notin> fds w" "on_line fds ?fd (insert ?fd (fds w)) ?s1" by (simp_all add: on_line_def)
    have exits: "\<exists>w'. leave_standalone os d code (c, s) = (Some (Exit code), w') \<and> fds w' = fds w"
      if "later os ?s1 s" "wf c" for code c s
      using that(1) leave_standalone_closes [OF laws line(1) _ destroyed [OF that(2)]]
        world_observation.lasting_on_line [OF obs] line(2) unfolding later_def by blast
    obtain b2 c2 s2 where i: "sa_initialize d (sa_create d (link_now os ?s1), ?s1) = Some (Inr b2, c2, s2)"
      "wf c2" "idle c2" "later os ?s1 s2" using initialized created by blast
    show ?thesis
    proof (cases b2)
      case False
      with cn i exits [OF i(4,2), of 1] True show ?thesis by (auto simp: standalone_main_def ends_well_def)
    next
      case b2: True
      obtain x c3 s3 where st: "sa_steps d (c2, s2) = Some (x, c3, s3)" "wf c3" "idle c3" "later os s2 s3"
        using stepped [OF i(2,3)] by blast
      obtain out c4 s4 where ss: "sa_start d (c3, s3) = (out, c4, s4)" by (metis prod_cases3)
      note started' = started [OF st(2,3) ss]
      show ?thesis
      proof (cases "out = Started")
        case False
        with started' cn i(1) st(1) ss True b2 show ?thesis
          by (simp add: standalone_main_def ends_well_def after_start_def)
      next
        case out: True
        with started' have c4: "wf c4" "sa_running d c4" "later os s3 s4" by auto
        obtain lines f5 c5 s5 where dl: "display_loop os d (link_now os s4) loads (0, c4, s4) = Some (True, lines, f5, c5, s5)"
          "wf c5" "later os s4 s5" "0 \<le> f5" "f5 \<le> int (sum_list (map snd loads))" "length lines \<le> 25"
          using displays_done [OF clock c4(1) loads(1), of s4] loads(2) by auto
        have "f5 + int finishing \<le> INT_MAX" using dl(5) loads(2) by simp
        from rounds_total [OF dl(2,4) this, of s5] obtain f6 c6 s6 where
          fr: "thread_rounds os d finishing (f5, c5, s5) = Some (f6, c6, s6)" "wf c6" "later os s5 s6" by blast
        obtain y where y: "sa_final d (sa_stop d c6) = Some y" using displayed(2) stopped [OF fr(2)] by blast
        have "later os ?s1 s6" using i(4) st(4) c4(3) dl(3) fr(3) later_trans by meson
        from exits [OF this, of "sa_stop d c6" 0] stopped [OF fr(2)] cn i(1) st(1) ss dl(1,6) fr(1) y c4(2) stopped [OF fr(2)] True b2 out
        show ?thesis by (auto simp: standalone_main_def ends_well_def after_start_def)
      qed
    qed
  qed
qed

end

section \<open>The components\<close>

lemma for_each_total:
  fixes P :: "'s \<Rightarrow> bool"
  assumes "\<And>k s. P s \<Longrightarrow> \<exists>x s'. f k s = Some (x, s') \<and> P s'"
  shows "P s \<Longrightarrow> \<exists>xs s'. for_each f ks s = Some (xs, s') \<and> P s'"
proof (induction ks arbitrary: s)
  case (Cons k ks)
  obtain x s1 where "f k s = Some (x, s1)" "P s1" using assms [OF Cons.prems] by blast
  with Cons.IH [of s1] show ?case by auto
qed simp

lemma encoder_ops:
  assumes "encoder_wf r"
  shows "\<exists>x r' s'. encoder_sample os (r, s) = Some (x, r', s') \<and> r' = r \<and> later os s s'"
    and "\<exists>x. encoder_line r t = Some x" and "\<exists>x. sa_final (encoder_standalone os) r = Some x"
proof -
  obtain d s' where d: "read_encoders (send_and_receive os) (link_now os) s = Some (d, s')" "later os s s'"
    using exchange.read_encoders_total [OF later_exchange [of os s], where s = s and now = "link_now os"] later_refl by blast
  have "later os s (link_sleep os 50000000 s')" using later_trans [OF d(2) later_steps(2)] by simp
  moreover obtain x where "(case d of None \<Rightarrow> Some None | Some d \<Rightarrow> do {
      voltages \<leftarrow> adc_to_voltages (ed_adc_values d); angles \<leftarrow> voltages_to_angles r voltages;
      Some (Some (d, voltages, angles)) }) = Some x"
    using assms d(1) read_encoders_length [where s = s and s' = s']
    by (fastforce simp: encoder_wf_def adc_to_voltages_eq encoder_apply_calibration_eq voltages_to_angles_eq split: option.splits)
  then have "encoder_sample os (r, s) = Some (x, r, link_sleep os 50000000 s')"
    using d(1) by (simp add: encoder_sample_def)
  ultimately show "\<exists>x r' s'. encoder_sample os (r, s) = Some (x, r', s') \<and> r' = r \<and> later os s s'" by blast
  show "\<exists>x. encoder_line r t = Some x"
    using get_cached_angles_total [OF assms] by (auto simp: encoder_line_def traverse_rd)
  show "\<exists>x. sa_final (encoder_standalone os) r = Some x"
    using assms by (auto simp: encoder_standalone_def encoder_get_calibration_def encoder_wf_def traverse_rd
        NUM_ENCODER_CHANNELS_def Let_def)
qed

definition worker_ok :: "worker \<Rightarrow> bool" where
  "worker_ok t \<longleftrightarrow> thread_running t = thread_joinable t"

lemma worker_ok_simps [simp]:
  "worker_ok worker_new" "worker_ok t \<Longrightarrow> worker_stop t = worker_new"
  by (auto simp: worker_ok_def worker_new_def worker_stop_def Let_def)

lemma worker_start_new:
  "worker_start spawn (worker_new, s) = (out, t, s') \<Longrightarrow>
   (out = Throws_System_Error \<or> out = Started \<and> thread_running t \<and> worker_ok t) \<and> s' = snd (spawn s)"
  by (auto simp: worker_start_def worker_new_def worker_ok_def Let_def split: prod.splits if_splits)

lemma worker_stop_running: "\<not> thread_running (worker_stop t)"
  by (simp add: worker_stop_def Let_def)

definition encoder_idle :: "EncoderReader \<Rightarrow> bool" where
  "encoder_idle r \<longleftrightarrow> er_worker r = worker_new \<and> \<not> erc_auto_start_thread (er_config r)"

lemma encoder_idle_keeps:
  "encoder_initialize xchg now spawn (r, s) = Some (b, r', s') \<Longrightarrow> encoder_idle r \<Longrightarrow> encoder_idle r'"
  "calibrate_zero_point xchg now (r, s) = Some (ok, r', s') \<Longrightarrow> encoder_idle r \<Longrightarrow> encoder_idle r'"
  by (auto simp: encoder_initialize_def calibrate_zero_point_eq encoder_idle_def Option.bind_eq_Some_conv
      split: option.splits)

lemma encoder_steps_total:
  assumes "encoder_wf r" and "encoder_idle r"
  shows "\<exists>x r' s'. encoder_steps os (r, s) = Some (x, r', s') \<and> encoder_wf r' \<and> encoder_idle r' \<and> later os s s'"
proof -
  have "\<exists>x rs'. encoder_sample os rs = Some (x, rs') \<and> (fst rs' = r \<and> later os s (snd rs'))"
    if "fst rs = r \<and> later os s (snd rs)" for rs
    using encoder_ops(1) [OF assms(1), of os "snd rs"] that later_trans by (cases rs) fastforce
  from for_each_total [of "\<lambda>rs. fst rs = r \<and> later os s (snd rs)" "\<lambda>i. encoder_sample os", OF this, of "(r, s)" "[0..<5]"]
  obtain xs s1 where 1: "for_each (\<lambda>i. encoder_sample os) [0..<5] (r, s) = Some (xs, r, s1)" "later os s s1" by auto
  obtain ok r2 s2 where 2: "calibrate_zero_point (send_and_receive os) (link_now os) (r, s1) = Some (ok, r2, s2)"
    "encoder_wf r2" "later os s1 s2"
    using exchange.calibrate_zero_point_total [OF later_exchange [of os s1] assms(1), where s = s1 and now = "link_now os"] by auto
  obtain as where 3: "get_cached_angles r2 = Some as" "length as = 16" using get_cached_angles_total [OF 2(2)] by blast
  have "encoder_steps os (r, s) = Some ((xs, ok, as), r2, s2)"
    using 1(1) 2(1) 3 by (simp add: encoder_steps_def traverse_rd NUM_ENCODER_CHANNELS_def)
  with 2 encoder_idle_keeps(2) [OF 2(1) assms(2)] later_trans [OF 1(2) 2(3)] show ?thesis by blast
qed

definition encoder_ready :: "EncoderReader \<Rightarrow> bool" where
  "encoder_ready r \<longleftrightarrow> encoder_wf r \<and> worker_ok (er_worker r)"

lemma encoder_update_worker: "encoder_update_once xchg now (r, s) = Some (b, r', s') \<Longrightarrow> er_worker r' = er_worker r"
  by (auto simp: encoder_update_once_def Option.bind_eq_Some_conv split: option.splits)

interpretation encoder_example: standalone_laws os "encoder_standalone os" encoder_ready encoder_idle for os :: "'w os"
proof
  fix r r' :: EncoderReader and s s' :: "'w link" and out and t :: time
  assume ready: "encoder_ready r"
  then have wf: "encoder_wf r" by (simp add: encoder_ready_def)
  show "\<exists>b r' s'. sa_initialize (encoder_standalone os) (r, s) = Some (Inr b, r', s')
      \<and> encoder_ready r' \<and> encoder_idle r' \<and> later os s s'" if "encoder_idle r"
    using exchange.encoder_initialize_total [OF later_exchange [of os s] wf, where s = s and now = "link_now os"
        and spawn = "link_spawn os"] encoder_idle_keeps(1) that
    by (fastforce simp: encoder_standalone_def encoder_ready_def encoder_idle_def)
  show "\<exists>x r' s'. sa_steps (encoder_standalone os) (r, s) = Some (x, r', s')
      \<and> encoder_ready r' \<and> encoder_idle r' \<and> later os s s'" if "encoder_idle r"
    using encoder_steps_total [OF wf that] by (fastforce simp: encoder_standalone_def encoder_ready_def encoder_idle_def)
  show "(out = Throws_System_Error \<or> out = Started \<and> encoder_ready r' \<and> sa_running (encoder_standalone os) r')
      \<and> later os s s'"
    if "encoder_idle r" "sa_start (encoder_standalone os) (r, s) = (out, r', s')"
    using that wf later_steps(3) [of os s]
    by (auto simp: encoder_standalone_def encoder_start_update_thread_def encoder_idle_def encoder_wf_def
        encoder_ready_def encoder_thread_running_def split: prod.splits dest: worker_start_new)
  show "\<exists>b r' s'. sa_update (encoder_standalone os) (r, s) = Some (b, r', s') \<and> encoder_ready r' \<and> later os s s'"
    using exchange.encoder_update_total [OF later_exchange [of os s] wf, where s = s and now = "link_now os"]
      encoder_update_worker ready by (fastforce simp: encoder_standalone_def encoder_ready_def)
  show "\<not> thread_joinable (sa_worker (encoder_standalone os) (sa_destroy (encoder_standalone os) r))"
    using ready by (simp add: encoder_standalone_def encoder_destroy_def encoder_stop_update_thread_def
        encoder_ready_def worker_new_def)
  show "encoder_ready (sa_stop (encoder_standalone os) r)
      \<and> \<not> sa_running (encoder_standalone os) (sa_stop (encoder_standalone os) r)"
    using ready by (auto simp: encoder_standalone_def encoder_stop_update_thread_def encoder_wf_def encoder_ready_def
        encoder_thread_running_def worker_new_def worker_ok_def worker_stop_def Let_def)
  show "\<exists>x. sa_shown (encoder_standalone os) r t = Some x"
    using encoder_ops(2) [OF wf] by (simp add: encoder_standalone_def)
  show "\<exists>x. sa_final (encoder_standalone os) r = Some x" by (rule encoder_ops(3) [OF wf])
qed

definition imu_idle :: "ImuReader \<Rightarrow> bool" where
  "imu_idle r \<longleftrightarrow> ir_worker r = worker_new \<and> \<not> irc_auto_start_thread (ir_config r)"

lemma imu_idle_keeps:
  "imu_initialize xchg now spawn (r, s) = Some (b, r', s') \<Longrightarrow> imu_idle r \<Longrightarrow> imu_idle r'"
  "calibrate_zero_orientation xchg now (r, s) = Some (ok, r', s') \<Longrightarrow> imu_idle r \<Longrightarrow> imu_idle r'"
  by (auto simp: imu_initialize_def calibrate_zero_orientation_def imu_idle_def Option.bind_eq_Some_conv Let_def
      split: option.splits)

lemma imu_steps_total:
  assumes "imu_idle r"
  shows "\<exists>x r' s'. imu_steps os (r, s) = Some (x, r', s') \<and> imu_idle r' \<and> later os s s'"
proof -
  have "\<exists>x rs'. imu_sample os rs = Some (x, rs') \<and> (fst rs' = r \<and> later os s (snd rs'))"
    if "fst rs = r \<and> later os s (snd rs)" for rs
  proof -
    obtain d s' where d: "read_imu (send_and_receive os) (link_now os) (snd rs) = Some (d, s')" "later os (snd rs) s'"
      using exchange.read_imu_total [OF later_exchange [of os "snd rs"], where s = "snd rs" and now = "link_now os"]
        later_refl by blast
    have "later os s (link_sleep os 50000000 s')"
      using later_trans [OF later_trans [OF _ d(2)] later_steps(2)] that by simp
    then show ?thesis using d(1) that by (cases rs) (simp add: imu_sample_def)
  qed
  from for_each_total [of "\<lambda>rs. fst rs = r \<and> later os s (snd rs)" "\<lambda>i. imu_sample os", OF this, of "(r, s)" "[0..<5]"]
  obtain xs s1 where 1: "for_each (\<lambda>i. imu_sample os) [0..<5] (r, s) = Some (xs, r, s1)" "later os s s1" by auto
  obtain ok r2 s2 where 2: "calibrate_zero_orientation (send_and_receive os) (link_now os) (r, s1) = Some (ok, r2, s2)"
    "later os s1 s2"
    using exchange.calibrate_zero_orientation_total [OF later_exchange [of os s1], where s = s1 and now = "link_now os" and r = r]
    by auto
  have "imu_steps os (r, s) = Some ((xs, ok, imu_cached_data r2), r2, s2)"
    using 1(1) 2(1) by (simp add: imu_steps_def)
  with imu_idle_keeps(2) [OF 2(1) assms] later_trans [OF 1(2) 2(2)] show ?thesis by blast
qed

definition imu_ready :: "ImuReader \<Rightarrow> bool" where
  "imu_ready r \<longleftrightarrow> worker_ok (ir_worker r)"

lemma imu_idle_ready: "imu_idle r \<Longrightarrow> imu_ready r"
  by (simp add: imu_idle_def imu_ready_def)

lemma imu_update_worker: "imu_update_once xchg now (r, s) = Some (b, r', s') \<Longrightarrow> ir_worker r' = ir_worker r"
  by (auto simp: imu_update_once_def Option.bind_eq_Some_conv Let_def split: option.splits)

interpretation imu_example: standalone_laws os "imu_standalone os" imu_ready imu_idle for os :: "'w os"
proof
  fix r r' :: ImuReader and s s' :: "'w link" and out and t :: time
  assume ready: "imu_ready r"
  show "\<exists>b r' s'. sa_initialize (imu_standalone os) (r, s) = Some (Inr b, r', s')
      \<and> imu_ready r' \<and> imu_idle r' \<and> later os s s'" if "imu_idle r"
  proof -
    have auto: "\<not> irc_auto_start_thread (ir_config r)" using that by (simp add: imu_idle_def)
    obtain b r1 s1 where i: "imu_initialize (send_and_receive os) (link_now os) (link_spawn os) (r, s) = Some (Inr b, r1, s1)"
      "later os s s1"
      using exchange.imu_initialize_total [OF later_exchange [of os s] auto, where s = s and now = "link_now os"
          and spawn = "link_spawn os"] by auto
    from imu_idle_keeps(1) [OF i(1) that] i imu_idle_ready show ?thesis by (simp add: imu_standalone_def)
  qed
  show "\<exists>x r' s'. sa_steps (imu_standalone os) (r, s) = Some (x, r', s')
      \<and> imu_ready r' \<and> imu_idle r' \<and> later os s s'" if "imu_idle r"
  proof -
    note idle = that
    obtain x r1 s1 where "imu_steps os (r, s) = Some (x, r1, s1)" "imu_idle r1" "later os s s1"
      using imu_steps_total [OF idle, of os s] by blast
    with imu_idle_ready show ?thesis by (cases x) (simp add: imu_standalone_def)
  qed
  show "(out = Throws_System_Error \<or> out = Started \<and> imu_ready r' \<and> sa_running (imu_standalone os) r')
      \<and> later os s s'"
    if "imu_idle r" "sa_start (imu_standalone os) (r, s) = (out, r', s')"
    using that later_steps(3) [of os s]
    by (auto simp: imu_standalone_def imu_start_update_thread_def imu_idle_def imu_ready_def imu_thread_running_def
        split: prod.splits dest: worker_start_new)
  show "\<exists>b r' s'. sa_update (imu_standalone os) (r, s) = Some (b, r', s') \<and> imu_ready r' \<and> later os s s'"
    using exchange.imu_update_total [OF later_exchange [of os s], where s = s and now = "link_now os" and r = r]
      imu_update_worker ready by (fastforce simp: imu_standalone_def imu_ready_def)
qed (auto simp: imu_standalone_def imu_stop_update_thread_def imu_destroy_def imu_ready_def imu_thread_running_def
    worker_new_def worker_ok_def worker_stop_def Let_def)

text \<open>For the motors the device matters: no status reply may have the length the parser cannot take.\<close>

definition motor_wf :: "'w os \<Rightarrow> MotorController \<Rightarrow> bool" where
  "motor_wf os m \<longleftrightarrow> length (mc_cached_status m) = 6 \<and> worker_ok (mc_worker m)
     \<and> no_short_replies (send_and_receive os)"

definition motor_idle :: "MotorController \<Rightarrow> bool" where
  "motor_idle m \<longleftrightarrow> mc_worker m = worker_new \<and> \<not> mcc_auto_start_thread (mc_config m)"

lemma motor_step_total:
  assumes "no_short_replies (send_and_receive os)"
  shows "\<exists>x s'. motor_read os i s = Some (x, s') \<and> later os s s'"
    and "\<exists>x s'. motor_force os v s = Some (x, s') \<and> later os s s'"
proof -
  have status: "\<exists>st s'. get_motor_status (send_and_receive os) (link_now os) i s = Some (st, s') \<and> later os s s'" for i s
    using exchange.get_motor_status_total [OF later_exchange [of os s] assms, where s = s and now = "link_now os" and i = i]
    by simp
  obtain st s' where "get_motor_status (send_and_receive os) (link_now os) i s = Some (st, s')" "later os s s'"
    using status by blast
  then show "\<exists>x s'. motor_read os i s = Some (x, s') \<and> later os s s'"
    using later_trans [OF _ later_steps(2), of os s s' 50000000] by (simp add: motor_read_def)
  obtain ok s1 where f: "set_motor_force (send_and_receive os) 1 v s = Some (ok, s1)" "later os s s1"
    using exchange.set_motor_total(3) [OF later_exchange [of os s], where s = s and i = 1 and p = v] by auto
  obtain st s2 where g: "get_motor_status (send_and_receive os) (link_now os) 1 (link_sleep os 500000000 s1) = Some (st, s2)"
    "later os (link_sleep os 500000000 s1) s2" using status by blast
  have "later os s s2" using later_trans [OF later_trans [OF f(2) later_steps(2)] g(2)] by simp
  then show "\<exists>x s'. motor_force os v s = Some (x, s') \<and> later os s s'"
    using f g(1) by (cases ok) (auto simp: motor_force_def)
qed

lemma motor_steps_total:
  assumes "no_short_replies (send_and_receive os)"
  shows "\<exists>x s'. motor_steps os (m, s) = Some (x, m, s') \<and> later os s s'"
proof -
  have "\<exists>x s2. motor_read os i s1 = Some (x, s2) \<and> later os s s2" if "later os s s1" for i s1
    using motor_step_total(1) [OF assms, of i s1] later_trans [OF that] by blast
  from for_each_total [of "later os s" "motor_read os", OF this, of s "[1, 2, 3]"]
  obtain xs s1 where 1: "for_each (motor_read os) [1, 2, 3] s = Some (xs, s1)" "later os s s1" by auto
  obtain b s2 where 2: "set_motor_mode (send_and_receive os) 1 MODE_FORCE s1 = Some (b, s2)" "later os s1 s2"
    using exchange.set_motor_total(1) [OF later_exchange [of os s1], where s = s1 and i = 1 and v = MODE_FORCE] by auto
  have "\<exists>x s4. motor_force os v s3 = Some (x, s4) \<and> later os s2 s4" if "later os s2 s3" for v s3
    using motor_step_total(2) [OF assms, of v s3] later_trans [OF that] by blast
  from for_each_total [of "later os s2" "motor_force os", OF this, of s2 "[10, 50, 100, 10]"]
  obtain ys s3 where 3: "for_each (motor_force os) [10, 50, 100, 10] s2 = Some (ys, s3)" "later os s2 s3" by auto
  obtain b' s4 where 4: "set_all_forces (send_and_receive os) (replicate NUM_MOTORS 20) s3 = Some (b', s4)" "later os s3 s4"
    using exchange.set_all_total(3) [OF later_exchange [of os s3], where s = s3 and ps = "replicate NUM_MOTORS 20"]
    by (auto simp: NUM_MOTORS_def)
  have "motor_steps os (m, s) = Some ((xs, b, ys, b'), m, s4)"
    using 1(1) 2(1) 3(1) 4(1) by (simp add: motor_steps_def del: for_each.simps)
  moreover have "later os s s4" using 1(2) 2(2) 3(2) 4(2) later_trans by meson
  ultimately show ?thesis by blast
qed

lemma motor_line_total:
  assumes "length (mc_cached_status m) = 6"
  shows "\<exists>x. motor_line m t = Some x"
  using assms by (simp add: motor_line_def get_cached_status_def get_status_age_def valid_motor_id_iff rd_def)

lemma update_motors_worker:
  "update_motors xchg now ids any (m, s) = Some (b, m', s') \<Longrightarrow> mc_worker m' = mc_worker m"
proof (induction ids arbitrary: any m s)
  case (Cons i ids)
  then show ?case
    by (auto simp: Option.bind_eq_Some_conv split: option.splits)
qed simp

interpretation motor_example: standalone_laws os "motor_standalone os" "motor_wf os" motor_idle for os :: "'w os"
proof
  fix m m' :: MotorController and s s' :: "'w link" and out and t :: time
  assume wf: "motor_wf os m"
  then have len: "length (mc_cached_status m) = 6" and short: "no_short_replies (send_and_receive os)"
    by (simp_all add: motor_wf_def)
  show "\<exists>b m' s'. sa_initialize (motor_standalone os) (m, s) = Some (Inr b, m', s')
      \<and> motor_wf os m' \<and> motor_idle m' \<and> later os s s'" if "motor_idle m"
    using exchange.motor_initialize_total [OF later_exchange [of os s], where s = s and m = m and spawn = "link_spawn os"]
      that wf by (auto simp: motor_standalone_def motor_idle_def)
  show "\<exists>x m' s'. sa_steps (motor_standalone os) (m, s) = Some (x, m', s')
      \<and> motor_wf os m' \<and> motor_idle m' \<and> later os s s'" if "motor_idle m"
    using motor_steps_total [OF short, of m s] wf that by (fastforce simp: motor_standalone_def)
  show "(out = Throws_System_Error \<or> out = Started \<and> motor_wf os m' \<and> sa_running (motor_standalone os) m')
      \<and> later os s s'"
    if "motor_idle m" "sa_start (motor_standalone os) (m, s) = (out, m', s')"
    using that wf later_steps(3) [of os s]
    by (auto simp: motor_standalone_def start_status_update_thread_def motor_idle_def motor_wf_def
        motor_thread_running_def split: prod.splits dest: worker_start_new)
  show "\<exists>b m' s'. sa_update (motor_standalone os) (m, s) = Some (b, m', s') \<and> motor_wf os m' \<and> later os s s'"
    using exchange.motor_update_once_total [OF later_exchange [of os s] short len, where s = s and now = "link_now os"]
      update_motors_worker wf by (fastforce simp: motor_standalone_def motor_wf_def motor_update_once_def)
  show "\<not> thread_joinable (sa_worker (motor_standalone os) (sa_destroy (motor_standalone os) m))"
    using wf by (simp add: motor_standalone_def motor_destroy_def stop_status_update_thread_def motor_wf_def worker_new_def)
  show "motor_wf os (sa_stop (motor_standalone os) m)
      \<and> \<not> sa_running (motor_standalone os) (sa_stop (motor_standalone os) m)"
    using wf by (auto simp: motor_standalone_def stop_status_update_thread_def motor_wf_def motor_thread_running_def
        worker_new_def worker_ok_def worker_stop_def Let_def)
  show "\<exists>x. sa_shown (motor_standalone os) m t = Some x"
    using motor_line_total [OF len] by (simp add: motor_standalone_def)
  show "\<exists>x. sa_final (motor_standalone os) m = Some x"
    using len by (simp add: motor_standalone_def get_all_cached_status_def traverse_rd NUM_MOTORS_def)
qed

lemma created:
  "encoder_ready (sa_create (encoder_standalone os) t) \<and> encoder_idle (sa_create (encoder_standalone os) t)"
  "imu_ready (sa_create (imu_standalone os) t) \<and> imu_idle (sa_create (imu_standalone os) t)"
  "no_short_replies (send_and_receive os) \<Longrightarrow>
     motor_wf os (sa_create (motor_standalone os) t) \<and> motor_idle (sa_create (motor_standalone os) t)"
  by (simp_all add: encoder_standalone_def imu_standalone_def motor_standalone_def encoder_wf_def encoder_idle_def
      EncoderCalibration_default_def NUM_ENCODER_CHANNELS_def
      imu_idle_def encoder_ready_def imu_ready_def motor_wf_def motor_idle_def EncoderReader_new_def ImuReader_new_def MotorController_new_def NUM_MOTORS_def)

section \<open>Properties\<close>

text \<open>
  C29. The single-component programs as a whole, next to the component's thread. On every network, with a
  steady clock, any signal, and at most \<open>INT_MAX\<close> rounds of the thread altogether, at any points (failed rounds are counted in an \<open>int\<close>; \<open>loads\<close> says
  for each pass of the display, of which there are at most 26, whether a signal has come and how many rounds go by), the programs for the encoders and the
  IMU end, and so does the one for the motors provided that no exchange returns a motor status reply with a body of 18 bytes: with exit
  code 1 and all descriptors closed, with the uncaught exception of a failed thread creation, or with exit
  code 0, after at most 25 lines of display, the thread stopped and all descriptors closed. No step has
  undefined behaviour.
\<close>

theorem standalone_programs_end:
  assumes "fd_laws os fds" and "steady os"
    and "26 \<le> length loads" and "int (sum_list (map snd loads)) + int finishing \<le> INT_MAX"
  shows "ends_well fds w (standalone_main os (encoder_standalone os) ip port loads finishing w)
    \<and> ends_well fds w (standalone_main os (imu_standalone os) ip port loads finishing w)
    \<and> (no_short_replies (send_and_receive os) \<longrightarrow>
       ends_well fds w (standalone_main os (motor_standalone os) ip port loads finishing w))"
  using encoder_example.main_ends_well [OF assms(1,2) created(1) assms(3,4)]
    imu_example.main_ends_well [OF assms(1,2) created(2) assms(3,4)]
    motor_example.main_ends_well [OF assms(1,2) created(3) assms(3,4)] by blast

lemma steady_device: "steady (device_os reply)"
  by (simp add: steady_def device_os_def sim_os_def sim_tick_def)

theorem standalone_programs_end_witness:
  "ends_well sim_open (sim_init []) (standalone_main (device_os demo_reply) (motor_standalone (device_os demo_reply))
     None (Some 9000) (replicate 26 (True, 2)) 1 (sim_init []))"
proof -
  have "int (sum_list (map snd (replicate 26 (True, 2)))) + int 1 \<le> INT_MAX" by (simp add: INT_MAX_def sum_list_replicate)
  from standalone_programs_end [OF fd_laws_device [of demo_reply] steady_device _ this,
      where w = "sim_init []" and ip = None and port = "Some 9000"]
  show ?thesis using no_short_replies_demo by simp
qed

end
