(* ===== verification/Glove_Device.thy ===== *)
theory Glove_Device
  imports Examples
begin

text \<open>
  The SDK in front of a glove that does what it is asked and answers as PROTOCOL.md says. The glove is not code of the
  repository: it is a state read off the world by a function \<open>dev\<close>, and the hypothesis \<open>obedient\<close> says what is assumed of it: a
  request that is sent is carried out, and the next datagram is its answer, in the frame the document gives for it
  (sections 3.0 to 3.5 for the motors, 4.2 and 5.2 with their notes on the firmware for encoders and IMU). Under it the layers compose: a
  round of the unified thread brings the readings of the glove into the caches of the sensors, and commands bring the demanded
  values to the glove. The documented replies of the motors, on the other hand, hold no status for the parser
  (\<open>documented_motor_reply_accepted\<close>): every poll of a motor comes back empty, and the motor cache stays what it was.
  \<open>glove_os\<close> is a world with such a glove in it, which decodes the bytes of the requests.
\<close>

section \<open>The glove\<close>

text \<open>A motor: what it was told, and what it measures.\<close>

record motor =
  mo_mode :: u8
  mo_position :: u16
  mo_force :: u16
  mo_speed :: u16
  mo_sensed :: MotorStatus

record glove =
  gl_motors :: "motor list"
  gl_adc :: "u16 list"
  gl_roll :: f32
  gl_pitch :: f32
  gl_yaw :: f32

definition change_motor :: "u8 \<Rightarrow> (motor \<Rightarrow> motor) \<Rightarrow> glove \<Rightarrow> glove" where
  "change_motor i f g = g\<lparr>gl_motors := (gl_motors g)[unat i - 1 := f (gl_motors g ! (unat i - 1))]\<rparr>"

text \<open>What a request does to the glove.\<close>

fun glove_act :: "request \<Rightarrow> glove \<Rightarrow> glove" where
  "glove_act (Set_Mode i m) g = change_motor i (mo_mode_update (\<lambda>_. m)) g"
| "glove_act (Set_Position i p) g = change_motor i (mo_position_update (\<lambda>_. p)) g"
| "glove_act (Set_Force i f) g = change_motor i (mo_force_update (\<lambda>_. f)) g"
| "glove_act (Set_Speed i v p) g = change_motor i (mo_position_update (\<lambda>_. p) \<circ> mo_speed_update (\<lambda>_. v)) g"
| "glove_act r g = g"

definition glove_status :: "glove \<Rightarrow> u8 \<Rightarrow> MotorStatus" where
  "glove_status g i = (let m = gl_motors g ! (unat i - 1) in
     (mo_sensed m)\<lparr>ms_motor_id := i, ms_target_position := mo_position m, ms_timestamp := 0\<rparr>)"

text \<open>
  The datagrams that answer a request, as PROTOCOL.md documents them: a motor answers every request with an inner
  packet that names the register and, but for the motor id, holds its status; of the answer to a command the instruction byte and the contents of
  the status are left open. For the encoder reply the length byte is the documented one or the one the firmware
  really sends; the IMU reply is the frame the firmware really sends.
\<close>

fun glove_answers :: "request \<Rightarrow> glove \<Rightarrow> u8 list \<Rightarrow> bool" where
  "glove_answers (Read_Motor_Id i) g d \<longleftrightarrow>
     (\<exists>v. d = documented_motor_reply (motor_reply i ([0x31, 0x16, 0x00] @ le_bytes v)))"
| "glove_answers (Read_Status i) g d \<longleftrightarrow>
     d = documented_motor_reply (motor_reply i ([0x30, 0x00, 0x00] @ status_fields (glove_status g i)))"
| "glove_answers (Set_Mode i m) g d \<longleftrightarrow> (\<exists>c st. d = documented_motor_reply (motor_reply i ([c, 0x25, 0x00] @ status_fields st)))"
| "glove_answers (Set_Position i p) g d \<longleftrightarrow> (\<exists>c st. d = documented_motor_reply (motor_reply i ([c, 0x29, 0x00] @ status_fields st)))"
| "glove_answers (Set_Force i f) g d \<longleftrightarrow> (\<exists>c st. d = documented_motor_reply (motor_reply i ([c, 0x27, 0x00] @ status_fields st)))"
| "glove_answers (Set_Speed i v p) g d \<longleftrightarrow> (\<exists>c st. d = documented_motor_reply (motor_reply i ([c, 0x28, 0x00] @ status_fields st)))"
| "glove_answers Read_Encoders g d \<longleftrightarrow> d = device_frame 0x22 0x02 0x00 (encoder_body (gl_adc g))
     \<or> d = device_frame 0x25 0x02 0x00 (encoder_body (gl_adc g))"
| "glove_answers Read_Imu g d \<longleftrightarrow> d = firmware_imu_frame (imu_body (gl_roll g) (gl_pitch g) (gl_yaw g))"

text \<open>
  A glove with all its parts, whose readings do not look like the start of a motor packet, which makes
  \<open>deserialize\<close> drop them.
\<close>

definition glove_ok :: "glove \<Rightarrow> bool" where
  "glove_ok g \<longleftrightarrow> length (gl_motors g) = 6 \<and> length (gl_adc g) = 16
     \<and> gl_adc g ! 0 \<noteq> 0x55AA \<and> gl_adc g ! 0 \<noteq> 0xAA55
     \<and> \<not> motor_header (imu_body (gl_roll g) (gl_pitch g) (gl_yaw g))"

lemma glove_ok_act [simp]: "glove_ok (glove_act r g) = glove_ok g"
  by (cases r) (simp_all add: glove_ok_def change_motor_def)

text \<open>What an answer conveys to the parser of the request: a motor status never, whatever the motor measures.\<close>

fun conveys :: "request \<Rightarrow> glove \<Rightarrow> Packet \<Rightarrow> bool" where
  "conveys (Read_Status i) g p \<longleftrightarrow> (\<forall>now. parse_motor_status p now = Some None)"
| "conveys Read_Encoders g p \<longleftrightarrow>
     parse_encoder_data p 0 = Some (Some \<lparr>ed_adc_values = gl_adc g, ed_timestamp = 0\<rparr>)"
| "conveys Read_Imu g p \<longleftrightarrow> parse_imu_data p 0 = Some (Some
     \<lparr>imu_roll = gl_roll g, imu_pitch = gl_pitch g, imu_yaw = gl_yaw g, imu_timestamp = 0\<rparr>)"
| "conveys r g p \<longleftrightarrow> True"

lemma motor_reply_conveys:
  assumes "length data \<le> 80"
  shows "\<exists>p. deserialize (documented_motor_reply (motor_reply i data)) = Some (Some p)
    \<and> (\<forall>now. parse_motor_status p now = Some None)"
proof -
  from documented_motor_reply_accepted [OF assms] obtain p where
    "deserialize (documented_motor_reply (motor_reply i data)) = Some (Some p)" "parse_motor_status p 0 = Some None" by blast
  then show ?thesis by (auto simp: parse_motor_status_eq split: if_splits)
qed

lemma answer_conveys:
  assumes "glove_ok g" and "glove_answers r g d"
  shows "\<exists>p. deserialize d = Some (Some p) \<and> conveys r g p"
proof (cases r)
  case Read_Encoders
  with assms show ?thesis
    using encoder_reply_roundtrip [of "gl_adc g" "0x22" 0] encoder_reply_roundtrip [of "gl_adc g" "0x25" 0]
    by (auto simp: glove_ok_def)
next
  case Read_Imu
  with assms show ?thesis
    using firmware_imu_roundtrip [of "gl_roll g" "gl_pitch g" "gl_yaw g" 0] by (simp add: glove_ok_def)
qed (use assms(2) motor_reply_conveys [of "_ # _ # _ # _"] in force)+

lemma length_documented_motor_reply [simp]: "length (documented_motor_reply (motor_reply i data)) = length data + 10"
  by (simp add: documented_motor_reply_def motor_reply_def Let_def)

lemma length_answer: "glove_ok g \<Longrightarrow> glove_answers r g d \<Longrightarrow> length d \<le> 1024"
  by (cases r) (auto simp: device_frame_def firmware_imu_frame_def glove_ok_def Let_def)

section \<open>Obedience\<close>

text \<open>
  \<open>tuned fd w\<close>: the descriptor is connected to the glove and no datagram is waiting on it. Sending a request
  on it and receiving takes the glove through the request and delivers an answer; sleeping and creating a
  thread leave the glove alone.
\<close>

definition obedient :: "'w os \<Rightarrow> (int \<Rightarrow> 'w \<Rightarrow> bool) \<Rightarrow> ('w \<Rightarrow> glove) \<Rightarrow> bool" where
  "obedient os tuned dev \<longleftrightarrow>
     (\<forall>fd r w. tuned fd w \<longrightarrow> (\<exists>w1 d w2.
        os_send os fd (serialize (request_packet r)) w = (int (length (serialize (request_packet r))), w1)
        \<and> os_recv os fd 1024 w1 = (Recv_Data d, w2) \<and> glove_answers r (dev w) d
        \<and> tuned fd w2 \<and> dev w2 = glove_act r (dev w)))
   \<and> (\<forall>fd t w. tuned fd w \<longrightarrow> tuned fd (os_sleep os t w) \<and> dev (os_sleep os t w) = dev w)"

definition in_touch :: "(int \<Rightarrow> 'w \<Rightarrow> bool) \<Rightarrow> ('w \<Rightarrow> glove) \<Rightarrow> glove \<Rightarrow> 'w link \<Rightarrow> bool" where
  "in_touch tuned dev g s \<longleftrightarrow> glove_ok g \<and> uc_connected (fst s) \<and> 0 \<le> uc_socket_fd (fst s)
     \<and> tuned (uc_socket_fd (fst s)) (snd s) \<and> dev (snd s) = g"

lemma exchange_in_touch:
  assumes "obedient os tuned dev" and "in_touch tuned dev g s"
  obtains p s' where "send_and_receive os (request_packet r) s = Some (Some p, s')" and "conveys r g p"
    and "in_touch tuned dev (glove_act r g) s'"
proof -
  obtain c w where s: "s = (c, w)" by (cases s)
  note t = assms(2) [unfolded in_touch_def s fst_conv snd_conv]
  from assms(1) t obtain w1 d w2 where w:
    "os_send os (uc_socket_fd c) (serialize (request_packet r)) w = (int (length (serialize (request_packet r))), w1)"
    "os_recv os (uc_socket_fd c) 1024 w1 = (Recv_Data d, w2)" "glove_answers r g d"
    "tuned (uc_socket_fd c) w2" "dev w2 = glove_act r g"
    unfolding obedient_def by blast
  from answer_conveys [OF _ w(3)] t obtain p where p: "deserialize d = Some (Some p)" "conveys r g p" by blast
  let ?c = "update_receive_stats True False False (update_send_stats True c)"
  have "send_and_receive os (request_packet r) (c, w) = Some (Some p, ?c, w2)"
    using t w(1,2) length_answer [OF _ w(3)] p(1) by (intro send_and_receive_delivers) simp_all
  moreover have "in_touch tuned dev (glove_act r g) (?c, w2)"
    using t w(4,5) by (simp add: in_touch_def)
  ultimately show thesis using that p(2) s by blast
qed

lemma sleep_in_touch:
  "obedient os tuned dev \<Longrightarrow> in_touch tuned dev g (c, w) \<Longrightarrow> in_touch tuned dev g (c, os_sleep os t w)"
  unfolding obedient_def in_touch_def fst_conv snd_conv by blast

section \<open>Reading\<close>

lemma read_requests:
  "plain_packet TARGET_ENCODER [0xFF, 0xFF] = request_packet Read_Encoders"
  "plain_packet TARGET_IMU [] = request_packet Read_Imu"
  by (simp_all add: request_packet_def encode_eqs)

lemma get_motor_status_empty:
  assumes "obedient os tuned dev" and "in_touch tuned dev g s" and "is_valid_motor_id i"
  shows "\<exists>s'. get_motor_status (send_and_receive os) now i s = Some (None, s') \<and> in_touch tuned dev g s'"
proof -
  obtain p s' where "send_and_receive os (request_packet (Read_Status i)) s = Some (Some p, s')"
    "conveys (Read_Status i) g p" "in_touch tuned dev (glove_act (Read_Status i) g) s'"
    by (rule exchange_in_touch [OF assms(1,2)])
  then show ?thesis by (simp add: get_motor_status_eq [OF assms(3)])
qed

lemma poll_motors_empty:
  assumes "obedient os tuned dev"
  shows "in_touch tuned dev g s \<Longrightarrow> \<forall>i \<in> set ids. is_valid_motor_id i \<Longrightarrow>
    \<exists>s'. poll_motors (send_and_receive os) now ids s = Some (replicate (length ids) None, s') \<and> in_touch tuned dev g s'"
proof (induction ids arbitrary: s)
  case (Cons i ids)
  from get_motor_status_empty [OF assms Cons.prems(1), of i now] Cons.prems(2) obtain s1 where
    1: "get_motor_status (send_and_receive os) now i s = Some (None, s1)" "in_touch tuned dev g s1" by auto
  from Cons.IH [OF 1(2)] Cons.prems(2) 1(1) show ?case by auto
qed simp

lemma valid_motor_ids: "\<forall>i \<in> set motor_ids. is_valid_motor_id i"
  by (simp add: motor_ids_eq valid_motor_id_iff)

lemma keep_all: "length old = n \<Longrightarrow> map2 keep_or_take old (replicate n None) = old"
  by (induction old arbitrary: n) (auto simp: keep_or_take_def)

lemma motor_update_empty:
  assumes "obedient os tuned dev" and "in_touch tuned dev g s" and "length (mc_cached_status m) = 6"
  shows "\<exists>s'. motor_update_once (send_and_receive os) now (m, s) = Some (False, m, s') \<and> in_touch tuned dev g s'"
proof -
  have "length motor_ids = 6" by (simp add: motor_ids_eq)
  with poll_motors_empty [OF assms(1,2) valid_motor_ids] obtain s' where
    "poll_motors (send_and_receive os) now motor_ids s = Some (replicate 6 None, s')" "in_touch tuned dev g s'" by metis
  with assms(3) show ?thesis by (simp add: motor_update_once_eq keep_all)
qed

lemma read_encoders_reads:
  assumes "obedient os tuned dev" and "in_touch tuned dev g s"
  shows "\<exists>t s'. read_encoders (send_and_receive os) now s
      = Some (Some \<lparr>ed_adc_values = gl_adc g, ed_timestamp = t\<rparr>, s') \<and> in_touch tuned dev g s'"
proof -
  obtain p s' where "send_and_receive os (request_packet Read_Encoders) s = Some (Some p, s')"
    "conveys Read_Encoders g p" "in_touch tuned dev (glove_act Read_Encoders g) s'"
    by (rule exchange_in_touch [OF assms])
  then show ?thesis by (auto simp: read_encoders_eq read_requests parse_encoder_data_eq split: if_splits)
qed

lemma read_imu_reads:
  assumes "obedient os tuned dev" and "in_touch tuned dev g s"
  shows "\<exists>t s'. read_imu (send_and_receive os) now s
      = Some (Some \<lparr>imu_roll = gl_roll g, imu_pitch = gl_pitch g, imu_yaw = gl_yaw g, imu_timestamp = t\<rparr>, s')
    \<and> in_touch tuned dev g s'"
proof -
  obtain p s' where "send_and_receive os (request_packet Read_Imu) s = Some (Some p, s')"
    "conveys Read_Imu g p" "in_touch tuned dev (glove_act Read_Imu g) s'"
    by (rule exchange_in_touch [OF assms])
  then show ?thesis by (auto simp: read_imu_eq read_requests parse_imu_data_eq split: if_splits)
qed

section \<open>A round of the unified thread\<close>

text \<open>An SDK with all components on a client in touch with the glove, in the state \<open>g\<close>.\<close>

definition at_glove :: "(int \<Rightarrow> 'w \<Rightarrow> bool) \<Rightarrow> ('w \<Rightarrow> glove) \<Rightarrow> glove \<Rightarrow> 'w sdk \<Rightarrow> bool" where
  "at_glove tuned dev g kw \<longleftrightarrow> sdk_initialized (fst kw)
     \<and> (\<exists>c. sdk_ready (fst kw) c \<and> in_touch tuned dev g (c, snd kw))"

lemma at_glove_ready:
  assumes "at_glove tuned dev g (k, w)"
  obtains c m r i where "sdk_initialized k" and "sdk_udp_client k = Some c" and "sdk_ready k c"
    and "in_touch tuned dev g (c, w)" and "sdk_motor_controller k = Some m" and "length (mc_cached_status m) = 6"
    and "sdk_encoder_reader k = Some r" and "encoder_wf r" and "sdk_imu_reader k = Some i"
  using assms by (auto simp: at_glove_def sdk_ready_def)

lemma in_touch_fd: "in_touch tuned dev g (c, w) \<Longrightarrow> uc_connected c \<and> 0 \<le> uc_socket_fd c"
  by (simp add: in_touch_def)

text \<open>Which caches show the glove.\<close>

definition shows_encoders :: "GloveSDK \<Rightarrow> glove \<Rightarrow> bool" where
  "shows_encoders k g \<longleftrightarrow> map_option (ed_adc_values \<circ> er_cached_data) (sdk_encoder_reader k) = Some (gl_adc g)"

definition shows_imu :: "GloveSDK \<Rightarrow> glove \<Rightarrow> bool" where
  "shows_imu k g \<longleftrightarrow> (\<exists>i t. sdk_imu_reader k = Some i \<and> ir_cached_data i = imu_apply_calibration i
     \<lparr>imu_roll = gl_roll g, imu_pitch = gl_pitch g, imu_yaw = gl_yaw g, imu_timestamp = t\<rparr>)"

lemma motor_segment_empty:
  assumes "obedient os tuned dev" and "at_glove tuned dev g (k, w)"
  shows "\<exists>k' w'. motor_segment os (k, w) = Some (k', w') \<and> at_glove tuned dev g (k', w')
    \<and> sdk_motor_controller k' = sdk_motor_controller k
    \<and> sdk_encoder_reader k' = sdk_encoder_reader k \<and> sdk_imu_reader k' = sdk_imu_reader k
    \<and> sdk_config k' = sdk_config k \<and> sdk_worker k' = sdk_worker k"
proof -
  obtain c m r i where k: "sdk_initialized k" "sdk_udp_client k = Some c" "sdk_ready k c"
    "in_touch tuned dev g (c, w)" "sdk_motor_controller k = Some m" "length (mc_cached_status m) = 6"
    "sdk_encoder_reader k = Some r" "encoder_wf r" "sdk_imu_reader k = Some i"
    by (rule at_glove_ready [OF assms(2)])
  from motor_update_empty [OF assms(1) k(4,6)] obtain c' w' where
    "motor_update_once (send_and_receive os) (link_now os) (m, c, w) = Some (False, m, c', w')"
    "in_touch tuned dev g (c', w')" by force
  with k show ?thesis by (auto simp: motor_segment_def via_motor_def at_glove_def sdk_ready_def in_touch_fd)
qed

text \<open>The sensor segments keep the other caches and the calibrations.\<close>

lemma encoder_segment_reads:
  assumes "obedient os tuned dev" and "at_glove tuned dev g (k, w)"
  shows "\<exists>k' w'. encoder_segment os (k, w) = Some (k', w') \<and> at_glove tuned dev g (k', w') \<and> shows_encoders k' g
    \<and> sdk_motor_controller k' = sdk_motor_controller k \<and> sdk_imu_reader k' = sdk_imu_reader k
    \<and> map_option er_calibration (sdk_encoder_reader k') = map_option er_calibration (sdk_encoder_reader k)
    \<and> sdk_config k' = sdk_config k \<and> sdk_worker k' = sdk_worker k"
proof -
  obtain c m r i where k: "sdk_initialized k" "sdk_udp_client k = Some c" "sdk_ready k c"
    "in_touch tuned dev g (c, w)" "sdk_motor_controller k = Some m" "length (mc_cached_status m) = 6"
    "sdk_encoder_reader k = Some r" "encoder_wf r" "sdk_imu_reader k = Some i"
    by (rule at_glove_ready [OF assms(2)])
  from read_encoders_reads [OF assms(1) k(4)] obtain t c' w' where
    u: "read_encoders (send_and_receive os) (link_now os) (c, w)
      = Some (Some \<lparr>ed_adc_values = gl_adc g, ed_timestamp = t\<rparr>, c', w')" "in_touch tuned dev g (c', w')" by force
  moreover have "length (gl_adc g) = 16" using k(4) by (simp add: in_touch_def glove_ok_def)
  ultimately show ?thesis
    using k by (auto simp: encoder_segment_def via_encoder_def encoder_update_once_def at_glove_def sdk_ready_def
        shows_encoders_def encoder_wf_def in_touch_fd)
qed

lemma imu_segment_reads:
  assumes "obedient os tuned dev" and "at_glove tuned dev g (k, w)"
  shows "\<exists>k' w'. imu_segment os (k, w) = Some (k', w') \<and> at_glove tuned dev g (k', w') \<and> shows_imu k' g
    \<and> sdk_motor_controller k' = sdk_motor_controller k \<and> sdk_encoder_reader k' = sdk_encoder_reader k
    \<and> map_option ir_calibration (sdk_imu_reader k') = map_option ir_calibration (sdk_imu_reader k)
    \<and> sdk_config k' = sdk_config k \<and> sdk_worker k' = sdk_worker k"
proof -
  obtain c m r i where k: "sdk_initialized k" "sdk_udp_client k = Some c" "sdk_ready k c"
    "in_touch tuned dev g (c, w)" "sdk_motor_controller k = Some m" "length (mc_cached_status m) = 6"
    "sdk_encoder_reader k = Some r" "encoder_wf r" "sdk_imu_reader k = Some i"
    by (rule at_glove_ready [OF assms(2)])
  from read_imu_reads [OF assms(1) k(4)] obtain t c' w' where
    u: "read_imu (send_and_receive os) (link_now os) (c, w)
      = Some (Some \<lparr>imu_roll = gl_roll g, imu_pitch = gl_pitch g, imu_yaw = gl_yaw g, imu_timestamp = t\<rparr>, c', w')"
    "in_touch tuned dev g (c', w')" by force
  have "imu_apply_calibration (i\<lparr>ir_cached_data := d\<rparr>) = imu_apply_calibration i" for d
    by (simp add: fun_eq_iff imu_apply_calibration_def imu_apply_calibration_unsafe_def)
  with u k show ?thesis
    by (auto simp: imu_segment_def via_imu_def imu_update_once_def at_glove_def sdk_ready_def shows_imu_def
        in_touch_fd)
qed

lemma sleep_rest_at_glove:
  assumes "obedient os tuned dev" and "at_glove tuned dev g (k, w)"
  shows "fst (sleep_rest os t (k, w)) = k" and "at_glove tuned dev g (sleep_rest os t (k, w))"
  using assms sleep_in_touch [OF assms(1)] by (auto simp: sleep_rest_def at_glove_def Let_def)

lemma round_shows:
  assumes "obedient os tuned dev" and "at_glove tuned dev g (k, w)"
  shows "\<exists>k' w'. unified_update_loop os Motor_Segment [True, True, True] (k, w) = Some (False, k', w')
    \<and> at_glove tuned dev g (k', w') \<and> sdk_motor_controller k' = sdk_motor_controller k \<and> shows_encoders k' g \<and> shows_imu k' g
    \<and> map_option er_calibration (sdk_encoder_reader k') = map_option er_calibration (sdk_encoder_reader k)
    \<and> map_option ir_calibration (sdk_imu_reader k') = map_option ir_calibration (sdk_imu_reader k)"
proof -
  obtain k1 w1 where 1: "motor_segment os (k, w) = Some (k1, w1)" "at_glove tuned dev g (k1, w1)"
    "sdk_motor_controller k1 = sdk_motor_controller k" "sdk_encoder_reader k1 = sdk_encoder_reader k" "sdk_imu_reader k1 = sdk_imu_reader k"
    using motor_segment_empty [OF assms] by blast
  obtain k2 w2 where 2: "encoder_segment os (k1, w1) = Some (k2, w2)" "at_glove tuned dev g (k2, w2)"
    "shows_encoders k2 g" "sdk_motor_controller k2 = sdk_motor_controller k1" "sdk_imu_reader k2 = sdk_imu_reader k1"
    "map_option er_calibration (sdk_encoder_reader k2) = map_option er_calibration (sdk_encoder_reader k1)"
    using encoder_segment_reads [OF assms(1) 1(2)] by blast
  obtain k3 w3 where 3: "imu_segment os (k2, w2) = Some (k3, w3)" "at_glove tuned dev g (k3, w3)"
    "shows_imu k3 g" "sdk_motor_controller k3 = sdk_motor_controller k2" "sdk_encoder_reader k3 = sdk_encoder_reader k2"
    "map_option ir_calibration (sdk_imu_reader k3) = map_option ir_calibration (sdk_imu_reader k2)"
    using imu_segment_reads [OF assms(1) 2(2)] by blast
  obtain w4 where 4: "sleep_rest os (os_now os w) (k3, w3) = (k3, w4)" "at_glove tuned dev g (k3, w4)"
    using sleep_rest_at_glove [OF assms(1) 3(2)] by (metis fst_conv surj_pair)
  have "shows_encoders k3 g" using 2(3) 3(5) by (simp add: shows_encoders_def)
  with 1 2 3 4 show ?thesis by (simp add: Let_def)
qed

text \<open>No calibration has been made: what the readers show is what the glove measures.\<close>

definition uncalibrated :: "GloveSDK \<Rightarrow> bool" where
  "uncalibrated k \<longleftrightarrow> map_option er_calibration (sdk_encoder_reader k) = Some EncoderCalibration_default
     \<and> map_option ir_calibration (sdk_imu_reader k) = Some ImuCalibration_default"

lemma uncalibrated_shows:
  assumes "uncalibrated k" and "at_glove tuned dev g (k, w)" and "shows_encoders k g" and "shows_imu k g"
  shows "\<exists>angles. get_encoder_angles k = Some angles
      \<and> map f32_value angles = map (\<lambda>v. Some (360 * of_int (uint v) / 65536)) (gl_adc g)"
    and "\<exists>t. get_imu_orientation k = Some \<lparr>imu_roll = gl_roll g, imu_pitch = gl_pitch g, imu_yaw = gl_yaw g,
      imu_timestamp = t\<rparr>"
proof -
  obtain c m r i where k: "sdk_initialized k" "sdk_udp_client k = Some c" "sdk_ready k c"
    "in_touch tuned dev g (c, w)" "sdk_motor_controller k = Some m" "length (mc_cached_status m) = 6"
    "sdk_encoder_reader k = Some r" "encoder_wf r" "sdk_imu_reader k = Some i"
    by (rule at_glove_ready [OF assms(2)])
  have cal: "\<not> ec_is_calibrated (er_calibration r)" "\<not> ic_is_calibrated (ir_calibration i)"
    using assms(1) k by (simp_all add: uncalibrated_def EncoderCalibration_default_def ImuCalibration_default_def)
  have "f32_value (angle_of (voltage_of v)) = Some (360 * of_int (uint v) / 65536)" for v
    using angle_value [OF voltage_of_is, of v] u16_lt [of v] by simp
  then show "\<exists>angles. get_encoder_angles k = Some angles
      \<and> map f32_value angles = map (\<lambda>v. Some (360 * of_int (uint v) / 65536)) (gl_adc g)"
    using get_cached_angles_uncalibrated [OF k(8) cal(1)] assms(3) k
    by (auto simp: get_encoder_angles_def ensure_initialized_def shows_encoders_def)
  show "\<exists>t. get_imu_orientation k = Some \<lparr>imu_roll = gl_roll g, imu_pitch = gl_pitch g, imu_yaw = gl_yaw g,
      imu_timestamp = t\<rparr>"
    using assms(4) k cal(2) by (auto simp: get_imu_orientation_def ensure_initialized_def shows_imu_def
        imu_cached_data_def imu_apply_calibration_def imu_apply_calibration_unsafe_def)
qed

section \<open>Commands\<close>

lemma exchange_all_acts:
  assumes "obedient os tuned dev"
  shows "in_touch tuned dev g s \<Longrightarrow> \<exists>rs s'. exchange_all (send_and_receive os) (map request_packet reqs) s = Some (rs, s')
    \<and> None \<notin> set rs \<and> in_touch tuned dev (fold glove_act reqs g) s'"
proof (induction reqs arbitrary: g s)
  case (Cons r reqs)
  obtain p s1 where 1: "send_and_receive os (request_packet r) s = Some (Some p, s1)"
    "in_touch tuned dev (glove_act r g) s1"
    by (rule exchange_in_touch [OF assms Cons.prems])
  from Cons.IH [OF 1(2)] obtain rs s' where
    "exchange_all (send_and_receive os) (map request_packet reqs) s1 = Some (rs, s')" "None \<notin> set rs"
    "in_touch tuned dev (fold glove_act reqs (glove_act r g)) s'" by blast
  with 1(1) show ?case by (intro exI [of _ "Some p # rs"] exI [of _ s']) simp
qed simp

lemma run_all_acts:
  assumes "obedient os tuned dev" and "in_touch tuned dev g s"
  shows "\<exists>s'. run_all (\<lambda>k. commanded (send_and_receive os) (r k)) ks True s
      = Some (\<forall>k \<in> set ks. permitted (r k), s')
    \<and> in_touch tuned dev (fold glove_act (filter permitted (map r ks)) g) s'"
proof -
  from exchange_all_acts [OF assms, of "filter permitted (map r ks)"] obtain rs s' where
    "exchange_all (send_and_receive os) (map request_packet (filter permitted (map r ks))) s = Some (rs, s')"
    "None \<notin> set rs" "in_touch tuned dev (fold glove_act (filter permitted (map r ks)) g) s'" by blast
  then show ?thesis by (simp add: run_all_commanded)
qed


text \<open>A batch acts on the motors one by one, on those it has a permitted request for.\<close>

lemma batch_acts:
  assumes "\<And>j. j < 6 \<Longrightarrow> glove_act (r j) = change_motor (of_nat (j + 1)) (f j)" and "length (gl_motors g) = 6"
  shows "n \<le> 6 \<Longrightarrow> fold glove_act (filter permitted (map r [0..<n])) g
    = g\<lparr>gl_motors := map (\<lambda>j. if j < n \<and> permitted (r j) then f j (gl_motors g ! j) else gl_motors g ! j) [0..<6]\<rparr>"
proof (induction n)
  case 0
  have "map ((!) (gl_motors g)) [0..<6] = gl_motors g" using assms(2) map_nth [of "gl_motors g"] by simp
  then show ?case by simp
next
  case (Suc n)
  let ?motors = "\<lambda>n. map (\<lambda>j. if j < n \<and> permitted (r j) then f j (gl_motors g ! j) else gl_motors g ! j) [0..<6]"
  have n: "n < 6" using Suc.prems by simp
  then have "unat (of_nat (n + 1) :: u8) - 1 = n" by (subst unat_of_nat_u8) simp_all
  then have act: "glove_act (r n) (g\<lparr>gl_motors := ?motors n\<rparr>) = g\<lparr>gl_motors := (?motors n)[n := f n (?motors n ! n)]\<rparr>"
    using assms(1) [OF n] by (simp add: change_motor_def)
  have "?motors n ! n = gl_motors g ! n" using n by simp
  then have "(?motors n)[n := f n (?motors n ! n)] = ?motors (Suc n)" if "permitted (r n)"
    using that n by (intro nth_equalityI) (auto simp: nth_list_update less_Suc_eq)
  moreover have "?motors n = ?motors (Suc n)" if "\<not> permitted (r n)"
    using that by (auto simp: less_Suc_eq)
  ultimately show ?case
    using Suc.IH n act by (cases "permitted (r n)") simp_all
qed

definition each_motor :: "(nat \<Rightarrow> motor \<Rightarrow> motor) \<Rightarrow> glove \<Rightarrow> glove" where
  "each_motor f g = g\<lparr>gl_motors := map (\<lambda>j. f j (gl_motors g ! j)) [0..<6]\<rparr>"

lemma batch_each_motor:
  assumes "obedient os tuned dev" and "in_touch tuned dev g s"
    and "\<And>j. j < 6 \<Longrightarrow> glove_act (r j) = change_motor (of_nat (j + 1)) (f j)"
  shows "\<exists>s'. run_all (\<lambda>k. commanded (send_and_receive os) (r k)) [0..<6] True s
      = Some (\<forall>j \<in> set [0..<6]. permitted (r j), s')
    \<and> in_touch tuned dev (each_motor (\<lambda>j. if permitted (r j) then f j else id) g) s'"
proof -
  have "length (gl_motors g) = 6" using assms(2) by (simp add: in_touch_def glove_ok_def)
  from batch_acts [OF assms(3) this, of 6]
  have acts: "fold glove_act (filter permitted (map r [0..<6])) g = g\<lparr>gl_motors := map (\<lambda>j.
      if j < 6 \<and> permitted (r j) then f j (gl_motors g ! j) else gl_motors g ! j) [0..<6]\<rparr>" by simp
  have "fold glove_act (filter permitted (map r [0..<6])) g = each_motor (\<lambda>j. if permitted (r j) then f j else id) g"
    unfolding acts each_motor_def by (intro arg_cong [of _ _ "\<lambda>ms. g\<lparr>gl_motors := ms\<rparr>"] map_cong) auto
  with run_all_acts [OF assms(1,2), of r "[0..<6]"] show ?thesis by simp
qed

lemma motor_ids_upt: "motor_ids = map (\<lambda>j. of_nat (j + 1)) [0..<6]"
  by (simp add: motor_ids_eq upt_rec)

lemma id_of_index: "j < 6 \<Longrightarrow> (of_nat (j + 1) :: u8) \<in> {1..6}"
proof -
  assume "j < 6"
  then have "j \<in> set [0..<6]" by simp
  then show ?thesis by (auto simp: upt_rec)
qed

lemma run_all_map: "run_all f (map h ks) b s = run_all (\<lambda>k. f (h k)) ks b s"
  by (induction ks arbitrary: b s) (auto split: Option.bind_splits)

text \<open>The three batch commands, and the single ones, as changes of the glove.\<close>

lemma mode_each_motor:
  assumes "obedient os tuned dev" and "in_touch tuned dev g s" and "mode \<le> 5"
  shows "\<exists>s'. set_all_modes (send_and_receive os) mode s = Some (True, s')
    \<and> in_touch tuned dev (g\<lparr>gl_motors := map (mo_mode_update (\<lambda>_. mode)) (gl_motors g)\<rparr>) s'"
proof -
  let ?r = "\<lambda>j. Set_Mode (of_nat (j + 1)) mode"
  have ok: "permitted (?r j)" if "j < 6" for j using assms(3) id_of_index [OF that] by simp
  have "length (gl_motors g) = 6" using assms(2) by (simp add: in_touch_def glove_ok_def)
  then have "map (\<lambda>j. (if permitted (?r j) then mo_mode_update (\<lambda>_. mode) else id) (gl_motors g ! j)) [0..<6]
      = map (mo_mode_update (\<lambda>_. mode)) (gl_motors g)"
    using ok by (intro nth_equalityI) simp_all
  then have each: "each_motor (\<lambda>j. if permitted (?r j) then mo_mode_update (\<lambda>_. mode) else id) g
      = g\<lparr>gl_motors := map (mo_mode_update (\<lambda>_. mode)) (gl_motors g)\<rparr>"
    by (simp only: each_motor_def)
  have act: "glove_act (?r j) = change_motor (of_nat (j + 1)) (mo_mode_update (\<lambda>_. mode))" for j
    by (simp add: fun_eq_iff)
  have all: "(\<forall>j \<in> set [0..<6]. permitted (?r j)) = True" using ok by simp
  show ?thesis
    using batch_each_motor [OF assms(1,2) act] unfolding each all set_all_modes_eq motor_ids_upt run_all_map .
qed

lemma array_each_motor:
  fixes r :: "u8 \<Rightarrow> u16 \<Rightarrow> request" and vs :: "u16 list"
  assumes "obedient os tuned dev" and "in_touch tuned dev g s" and "length vs = 6"
    and "\<And>i v. i \<in> {1..6} \<Longrightarrow> permitted (r i v) \<longleftrightarrow> good v" and "\<And>i v. glove_act (r i v) = change_motor i (f v)"
  shows "\<exists>s'. run_all (\<lambda>i. commanded (send_and_receive os) (r (of_nat (i + 1)) (vs ! i))) [0..<6] True s
      = Some (\<forall>v \<in> set vs. good v, s')
    \<and> in_touch tuned dev (g\<lparr>gl_motors := map2 (\<lambda>m v. if good v then f v m else m) (gl_motors g) vs\<rparr>) s'"
proof -
  let ?r = "\<lambda>j. r (of_nat (j + 1)) (vs ! j)"
  have ok: "permitted (?r j) = good (vs ! j)" if "j < 6" for j using assms(4) id_of_index [OF that] by blast
  have "length (gl_motors g) = 6" using assms(2) by (simp add: in_touch_def glove_ok_def)
  then have "map2 (\<lambda>m v. if good v then f v m else m) (gl_motors g) vs
      = map (\<lambda>j. (if permitted (?r j) then f (vs ! j) else id) (gl_motors g ! j)) [0..<6]"
    using assms(3) ok by (intro nth_equalityI) simp_all
  then have each: "each_motor (\<lambda>j. if permitted (?r j) then f (vs ! j) else id) g
      = g\<lparr>gl_motors := map2 (\<lambda>m v. if good v then f v m else m) (gl_motors g) vs\<rparr>"
    by (simp only: each_motor_def)
  have "(\<forall>j \<in> set [0..<6]. permitted (?r j)) \<longleftrightarrow> (\<forall>j \<in> set [0..<6]. good (vs ! j))"
    using ok by simp
  also have "\<dots> \<longleftrightarrow> (\<forall>v \<in> set vs. good v)" using assms(3) by (auto simp: all_set_conv_all_nth)
  finally have all: "(\<forall>j \<in> set [0..<6]. permitted (?r j)) \<longleftrightarrow> (\<forall>v \<in> set vs. good v)" .
  show ?thesis
    using batch_each_motor [OF assms(1,2), of ?r "\<lambda>j. f (vs ! j)"] assms(5)
    unfolding each all by blast
qed

lemma position_batch:
  assumes "obedient os tuned dev" and "in_touch tuned dev g s" and "length ps = 6"
  shows "\<exists>s'. set_all_positions (send_and_receive os) ps s = Some (\<forall>p \<in> set ps. p \<le> 2000, s')
    \<and> in_touch tuned dev (g\<lparr>gl_motors :=
        map2 (\<lambda>m p. if p \<le> 2000 then m\<lparr>mo_position := p\<rparr> else m) (gl_motors g) ps\<rparr>) s'"
  unfolding set_all_positions_eq [OF assms(3)]
  by (rule array_each_motor [OF assms]) (simp_all add: fun_eq_iff)

lemma force_batch:
  assumes "obedient os tuned dev" and "in_touch tuned dev g s" and "length fs = 6"
  shows "\<exists>s'. set_all_forces (send_and_receive os) fs s = Some (\<forall>f \<in> set fs. f \<le> 4095, s')
    \<and> in_touch tuned dev (g\<lparr>gl_motors :=
        map2 (\<lambda>m f. if f \<le> 4095 then m\<lparr>mo_force := f\<rparr> else m) (gl_motors g) fs\<rparr>) s'"
  unfolding set_all_forces_eq [OF assms(3)]
  by (rule array_each_motor [OF assms]) (simp_all add: fun_eq_iff)

section \<open>Commands through the SDK\<close>

lemma via_motor_at_glove:
  assumes "at_glove tuned dev g (k, w)" and "\<And>s. in_touch tuned dev g s \<Longrightarrow> \<exists>s'. f s = Some (a, s') \<and> in_touch tuned dev g' s'"
  shows "\<exists>k' w'. via_motor (\<lambda>(m, s). do { (ok, s) \<leftarrow> f s; Some (ok, m, s) }) (k, w) = Some (a, k', w')
    \<and> at_glove tuned dev g' (k', w')"
proof -
  obtain c m r i where k: "sdk_initialized k" "sdk_udp_client k = Some c" "sdk_ready k c"
    "in_touch tuned dev g (c, w)" "sdk_motor_controller k = Some m" "length (mc_cached_status m) = 6"
    "sdk_encoder_reader k = Some r" "encoder_wf r" "sdk_imu_reader k = Some i"
    by (rule at_glove_ready [OF assms(1)])
  from assms(2) [OF k(4)] obtain c' w' where f: "f (c, w) = Some (a, c', w')" "in_touch tuned dev g' (c', w')"
    by auto
  let ?k = "k\<lparr>sdk_motor_controller := Some m, sdk_udp_client := Some c'\<rparr>"
  have "sdk_ready ?k c'" using k f(2) by (simp add: sdk_ready_def in_touch_fd)
  then have "at_glove tuned dev g' (?k, w')" using k(1) f(2) by (auto simp: at_glove_def)
  with k f(1) show ?thesis by (simp add: via_motor_def)
qed

lemma motor_command_at_glove:
  assumes "at_glove tuned dev g (k, w)" and "\<And>s. in_touch tuned dev g s \<Longrightarrow> \<exists>s'. f s = Some (a, s') \<and> in_touch tuned dev g' s'"
  shows "\<exists>k' w'. motor_command f (k, w) = Some (a, k', w') \<and> at_glove tuned dev g' (k', w')"
  using via_motor_at_glove [OF assms] assms(1) by (simp add: motor_command_def ensure_initialized_def at_glove_def)




section \<open>Initialisation\<close>

text \<open>
  The glove can be reached at an address: on every world a socket opens, the port can be bound, the options
  set, and connecting tunes the descriptor; none of it, nor closing, changes the glove.
\<close>

definition reaches_glove :: "'w os \<Rightarrow> (int \<Rightarrow> 'w \<Rightarrow> bool) \<Rightarrow> ('w \<Rightarrow> glove) \<Rightarrow> string \<Rightarrow> bool" where
  "reaches_glove os tuned dev ip \<longleftrightarrow> os_inet_pton os ip \<noteq> None
     \<and> (\<forall>w. 0 \<le> fst (os_socket os w) \<and> dev (snd (os_socket os w)) = dev w)
     \<and> (\<forall>fd w. dev (snd (os_reuseaddr os fd w)) = dev w)
     \<and> (\<forall>fd port w. 0 \<le> fst (os_bind os fd port w) \<and> dev (snd (os_bind os fd port w)) = dev w)
     \<and> (\<forall>fd opt tv w. 0 \<le> fst (os_set_timeout os fd opt tv w) \<and> dev (snd (os_set_timeout os fd opt tv w)) = dev w)
     \<and> (\<forall>fd a port w. 0 \<le> fst (os_connect os fd a port w) \<and> dev (snd (os_connect os fd a port w)) = dev w
          \<and> tuned fd (snd (os_connect os fd a port w)))
     \<and> (\<forall>fd w. dev (os_close os fd w) = dev w)"

lemma connect_in_touch:
  assumes "reaches_glove os tuned dev (cfg_server_ip cfg)" and "glove_ok (dev w)"
  shows "\<exists>c' w'. connect os (UdpClient_new cfg, w) = (True, c', w') \<and> in_touch tuned dev (dev w) (c', w')"
proof -
  note r = assms(1) [unfolded reaches_glove_def]
  obtain fd w1 where so: "os_socket os w = (fd, w1)" by (cases "os_socket os w")
  then have fd: "0 \<le> fd" "dev w1 = dev w" using r by (metis fst_conv, metis snd_conv)
  let ?c = "(UdpClient_new cfg)\<lparr>uc_socket_fd := fd\<rparr>"
  have bind: "fst (bind_local_port os c w0)"
    "dev (snd (bind_local_port os c w0)) = dev w0" for c w0
    using r by (auto simp: bind_local_port_def Let_def case_prod_beta not_less)
  have tmo: "fst (set_socket_timeout os fd opt t w0)"
    "dev (snd (set_socket_timeout os fd opt t w0)) = dev w0" for opt t w0
    using r by (auto simp: set_socket_timeout_def Let_def case_prod_beta not_less)
  obtain a where a: "os_inet_pton os (cfg_server_ip cfg) = Some a" using r by blast
  let ?w2 = "snd (bind_local_port os ?c w1)"
  let ?w3 = "snd (set_socket_timeout os fd SO_RCVTIMEO (cfg_receive_timeout cfg) ?w2)"
  let ?w4 = "snd (set_socket_timeout os fd SO_SNDTIMEO (cfg_send_timeout cfg) ?w3)"
  let ?w5 = "snd (os_connect os fd a (cfg_server_port cfg) ?w4)"
  have con: "0 \<le> fst (os_connect os fd a (cfg_server_port cfg) ?w4)" "dev ?w5 = dev ?w4" "tuned fd ?w5"
    using r by blast+
  have "configure_socket os ?c w1 = (True, ?c\<lparr>uc_connected := True\<rparr>, ?w5)"
    using con(1) a bind(1) tmo(1)
    by (simp add: configure_socket_def Let_def case_prod_beta UdpClient_new_def)
  then have "connect os (UdpClient_new cfg, w) = (True, ?c\<lparr>uc_connected := True\<rparr>, ?w5)"
    using so fd(1) by (simp add: connect_def UdpClient_new_def)
  moreover have "dev ?w5 = dev w" using con(2) tmo(2) bind(2) fd(2) by metis
  then have "in_touch tuned dev (dev w) (?c\<lparr>uc_connected := True\<rparr>, ?w5)"
    using con(3) fd(1) assms(2) by (simp add: in_touch_def)
  ultimately show ?thesis by blast
qed

text \<open>What initialising the motor controller makes of the glove: the force mode and a force of 10.\<close>

definition prepared :: "glove \<Rightarrow> glove" where
  "prepared g = g\<lparr>gl_motors := map (\<lambda>m. m\<lparr>mo_mode := MODE_FORCE, mo_force := 10\<rparr>) (gl_motors g)\<rparr>"

lemma map2_replicate: "length xs = n \<Longrightarrow> map2 f xs (replicate n y) = map (\<lambda>x. f x y) xs"
  by (induction xs arbitrary: n) auto

lemma motor_initialize_prepares:
  assumes "obedient os tuned dev" and "in_touch tuned dev g s" and "\<not> mcc_auto_start_thread (mc_config m)"
  shows "\<exists>s'. motor_initialize (send_and_receive os) spawn (m, s) = Some (Inr True, m, s')
    \<and> in_touch tuned dev (prepared g) s'"
proof -
  have "MODE_FORCE \<le> 5" by (simp add: MODE_FORCE_def)
  from mode_each_motor [OF assms(1,2) this] obtain s1 where
    1: "set_all_modes (send_and_receive os) MODE_FORCE s = Some (True, s1)"
    "in_touch tuned dev (g\<lparr>gl_motors := map (mo_mode_update (\<lambda>_. MODE_FORCE)) (gl_motors g)\<rparr>) s1" by blast
  have len: "length (gl_motors g) = 6" using assms(2) by (simp add: in_touch_def glove_ok_def)
  from force_batch [OF assms(1) 1(2), of "replicate 6 10"] obtain s2 where
    "set_all_forces (send_and_receive os) (replicate 6 10) s1 = Some (True, s2)" "in_touch tuned dev (prepared g) s2"
    using len by (auto simp: map2_replicate prepared_def comp_def)
  with 1(1) assms(3) show ?thesis by (auto simp: motor_initialize_def NUM_MOTORS_def)
qed

text \<open>Threads can be created, and that does not disturb the glove.\<close>

definition creates_threads :: "'w os \<Rightarrow> (int \<Rightarrow> 'w \<Rightarrow> bool) \<Rightarrow> ('w \<Rightarrow> glove) \<Rightarrow> bool" where
  "creates_threads os tuned dev \<longleftrightarrow> (\<forall>w. fst (os_thread_create os w) \<and> dev (snd (os_thread_create os w)) = dev w
     \<and> (\<forall>fd. tuned fd w \<longrightarrow> tuned fd (snd (os_thread_create os w))))"

lemma sdk_start_at_glove:
  assumes "creates_threads os tuned dev" and "at_glove tuned dev g (k, w)" and "sdk_worker k = worker_new"
  shows "\<exists>w'. sdk_start os (k, w) = (Tried Started, k\<lparr>sdk_worker := \<lparr>thread_running = True, thread_joinable = True\<rparr>\<rparr>, w')
    \<and> at_glove tuned dev g (k\<lparr>sdk_worker := \<lparr>thread_running = True, thread_joinable = True\<rparr>\<rparr>, w')"
proof -
  have "fst (os_thread_create os w)" using assms(1) by (simp add: creates_threads_def)
  then obtain w' where w': "os_thread_create os w = (True, w')" by (cases "os_thread_create os w") auto
  then have "dev w' = dev w" "\<And>fd. tuned fd w \<Longrightarrow> tuned fd w'"
    using assms(1) unfolding creates_threads_def by (metis snd_conv)+
  moreover have "sdk_initialized k" using assms(2) by (simp add: at_glove_def)
  ultimately show ?thesis
    using assms(2) w' by (auto simp: sdk_start_cases [OF _ assms(3)] at_glove_def in_touch_def)
qed

text \<open>The motor cache as the constructor of the controller leaves it: six default statuses with the motor ids.\<close>

definition never_read :: "GloveSDK \<Rightarrow> bool" where
  "never_read k \<longleftrightarrow> (\<exists>t. map_option mc_cached_status (sdk_motor_controller k)
     = Some (map (\<lambda>i. MotorStatus_default\<lparr>ms_motor_id := i, ms_timestamp := t\<rparr>) motor_ids))"

lemma never_readI: "sdk_motor_controller k = Some (MotorController_new config t) \<Longrightarrow> never_read k"
  by (auto simp: never_read_def MotorController_new_def NUM_MOTORS_def motor_ids_upt simp del: upt_Suc)

lemma sdk_initialize_serves:
  assumes "obedient os tuned dev" and "reaches_glove os tuned dev (gc_server_ip cfg)" and "glove_ok (dev w)"
    and "gc_auto_start_thread cfg \<Longrightarrow> creates_threads os tuned dev"
  shows "\<exists>k w'. sdk_initialize os (GloveSDK_new cfg, w) = Some (Inr True, k, w')
    \<and> at_glove tuned dev (prepared (dev w)) (k, w') \<and> never_read k \<and> shows_encoders k (dev w) \<and> shows_imu k (dev w)
    \<and> map_option er_calibration (sdk_encoder_reader k) = Some EncoderCalibration_default
    \<and> map_option ir_calibration (sdk_imu_reader k) = Some ImuCalibration_default"
proof -
  have "cfg_server_ip (sdk_udp_config cfg) = gc_server_ip cfg" by (simp add: sdk_udp_config_def UdpConfig_default_def)
  then obtain c1 w1 where 1: "connect os (UdpClient_new (sdk_udp_config cfg), w) = (True, c1, w1)"
    "in_touch tuned dev (dev w) (c1, w1)"
    using connect_in_touch [of os tuned dev "sdk_udp_config cfg" w] assms(2,3) by auto
  let ?m = "MotorController_new (MotorControllerConfig_default\<lparr>mcc_auto_start_thread := False\<rparr>) (os_now os w1)"
  have "\<not> mcc_auto_start_thread (mc_config ?m)" by (simp add: MotorController_new_def)
  from motor_initialize_prepares [OF assms(1) 1(2) this, of "link_spawn os"] obtain c2 w2 where
    2: "motor_initialize (send_and_receive os) (link_spawn os) (?m, c1, w1) = Some (Inr True, ?m, c2, w2)"
    "in_touch tuned dev (prepared (dev w)) (c2, w2)" by auto
  from read_encoders_reads [OF assms(1) 2(2), of "link_now os"] obtain t3 c3 w3 where
    3: "read_encoders (send_and_receive os) (link_now os) (c2, w2)
      = Some (Some \<lparr>ed_adc_values = gl_adc (dev w), ed_timestamp = t3\<rparr>, c3, w3)"
    "in_touch tuned dev (prepared (dev w)) (c3, w3)" by (auto simp: prepared_def)
  from read_imu_reads [OF assms(1) 3(2), of "link_now os"] obtain t4 c4 w4 where
    4: "read_imu (send_and_receive os) (link_now os) (c3, w3) = Some (Some \<lparr>imu_roll = gl_roll (dev w),
      imu_pitch = gl_pitch (dev w), imu_yaw = gl_yaw (dev w), imu_timestamp = t4\<rparr>, c4, w4)"
    "in_touch tuned dev (prepared (dev w)) (c4, w4)" by (auto simp: prepared_def)
  have "length (mc_cached_status ?m) = 6" "length (gl_adc (dev w)) = 16"
    using assms(3) by (simp_all add: MotorController_new_def NUM_MOTORS_def glove_ok_def)
  then obtain k where
    k: "sdk_initialize os (GloveSDK_new cfg, w) = (if gc_auto_start_thread cfg
        then case sdk_start os (k, w4) of
            (Tried Throws_System_Error, kw) \<Rightarrow> Some (Inl Throws_System_Error, kw)
          | (Tried Terminates, kw) \<Rightarrow> Some (Inl Terminates, kw)
          | (_, kw) \<Rightarrow> Some (Inr True, kw)
        else Some (Inr True, k, w4))"
    "at_glove tuned dev (prepared (dev w)) (k, w4)" "shows_encoders k (dev w)" "shows_imu k (dev w)"
    "sdk_motor_controller k = Some ?m"
    "map_option er_calibration (sdk_encoder_reader k) = Some EncoderCalibration_default"
    "map_option ir_calibration (sdk_imu_reader k) = Some ImuCalibration_default" "sdk_worker k = worker_new"
    using 1(1) 2(1) 3(1) 4 encoder_wf_new [of _ "os_now os w2"]
    by (auto simp: sdk_initialize_def init_motor_def init_encoder_def init_imu_def GloveSDK_new_def via_motor_def
        via_encoder_def via_imu_def encoder_initialize_def imu_initialize_def EncoderReader_new_def ImuReader_new_def
        at_glove_def sdk_ready_def shows_encoders_def shows_imu_def in_touch_fd encoder_wf_def
        imu_apply_calibration_def imu_apply_calibration_unsafe_def Let_def)
  have "never_read k" using k(5) by (rule never_readI)
  show ?thesis
  proof (cases "gc_auto_start_thread cfg")
    case True
    then show ?thesis
      using k(1,3-7) \<open>never_read k\<close> sdk_start_at_glove [OF assms(4) [OF True] k(2,8)]
      by (auto simp: shows_encoders_def shows_imu_def never_read_def)
  qed (use k \<open>never_read k\<close> in auto)
qed

section \<open>The motor example in front of the glove\<close>


definition told :: "u8 \<Rightarrow> u16 \<Rightarrow> u16 list \<Rightarrow> glove \<Rightarrow> glove" where
  "told mode force ps g = g\<lparr>gl_motors :=
     map2 (\<lambda>m p. m\<lparr>mo_mode := mode, mo_position := p, mo_force := force\<rparr>) (gl_motors g) ps\<rparr>"

lemma replicate_6: "replicate 6 x = [x, x, x, x, x, x]"
  by (simp add: numeral_eq_Suc)




section \<open>A world with a glove in it\<close>

text \<open>The glove's side of the protocol: which request the bytes of a datagram are.\<close>

definition glove_decode :: "u8 list \<Rightarrow> request" where
  "glove_decode d = (let i = d ! 8; v = word_cat (d ! 13) (d ! 12) in
     if d ! 3 = TARGET_ENCODER then Read_Encoders
     else if d ! 3 = TARGET_IMU then Read_Imu
     else if d ! 4 = CMD_READ_MOTOR_ID then Read_Motor_Id i
     else if d ! 4 = CMD_READ_STATUS then Read_Status i
     else if d ! 4 = CMD_SET_MODE then Set_Mode i (d ! 12)
     else if d ! 4 = CMD_SET_POSITION then Set_Position i v
     else if d ! 4 = CMD_SET_FORCE then Set_Force i v
     else Set_Speed i v (word_cat (d ! 15) (d ! 14)))"

lemma glove_decode_request: "glove_decode (serialize (request_packet r)) = r"
proof -
  have plain: "serialize (plain_packet t bytes) ! 3 = t" for t bytes
    by (simp add: serialize_def plain_packet_def Let_def Packet_default_def)
  show ?thesis
    by (cases r) (simp_all add: request_packet_def encode_eqs serialize_motor_packet plain glove_decode_def Let_def
        motor_frame_def target_consts command_consts le_bytes_def byte_of_byte word_cat_split)
qed

definition glove_reply :: "u8 list \<Rightarrow> glove \<Rightarrow> u8 list" where
  "glove_reply d g = (let r = glove_decode d;
       told = (\<lambda>i reg. documented_motor_reply (motor_reply i ([0x32, reg, 0x00] @ status_fields (glove_status (glove_act r g) i))))
     in case r of
       Read_Motor_Id i \<Rightarrow> documented_motor_reply (motor_reply i ([0x31, 0x16, 0x00] @ le_bytes (ucast i)))
     | Read_Status i \<Rightarrow> documented_status_reply (glove_status g i)
     | Set_Mode i m \<Rightarrow> told i 0x25
     | Set_Position i p \<Rightarrow> told i 0x29
     | Set_Force i f \<Rightarrow> told i 0x27
     | Set_Speed i v p \<Rightarrow> told i 0x28
     | Read_Encoders \<Rightarrow> device_frame 0x25 0x02 0x00 (encoder_body (gl_adc g))
     | Read_Imu \<Rightarrow> firmware_imu_frame (imu_body (gl_roll g) (gl_pitch g) (gl_yaw g)))"

lemma glove_reply_answers: "glove_answers r g (glove_reply (serialize (request_packet r)) g)"
proof -
  have id: "ms_motor_id (glove_status g i) = i" for i by (simp add: glove_status_def Let_def)
  show ?thesis
    by (cases r) (simp add: glove_reply_def glove_decode_request documented_status_reply_eq id Let_def, blast?)+
qed

record glove_world =
  gw_glove :: glove
  gw_reply :: "u8 list"
  gw_sockets :: nat
  gw_clock :: time

definition glove_os :: "glove_world os" where
  "glove_os = \<lparr>
     os_socket = (\<lambda>w. (int (gw_sockets w) + 3, w\<lparr>gw_sockets := gw_sockets w + 1\<rparr>)),
     os_reuseaddr = (\<lambda>fd w. (0, w)), os_bind = (\<lambda>fd port w. (0, w)), os_set_timeout = (\<lambda>fd opt tv w. (0, w)),
     os_inet_pton = (\<lambda>ip. Some 0xC0A80A7B), os_connect = (\<lambda>fd ip port w. (0, w)),
     os_send = (\<lambda>fd d w. (int (length d),
       w\<lparr>gw_reply := glove_reply d (gw_glove w), gw_glove := glove_act (glove_decode d) (gw_glove w)\<rparr>)),
     os_recv = (\<lambda>fd n w. (Recv_Data (gw_reply w), w\<lparr>gw_clock := gw_clock w + 1000000\<rparr>)),
     os_close = (\<lambda>fd w. w), os_now = gw_clock, os_sleep = (\<lambda>t w. w\<lparr>gw_clock := gw_clock w + t\<rparr>),
     os_thread_create = (\<lambda>w. (True, w))\<rparr>"

lemma glove_os_obedient: "obedient glove_os (\<lambda>fd w. True) gw_glove"
  by (simp add: obedient_def glove_os_def glove_reply_answers glove_decode_request)

lemma glove_os_creates: "creates_threads glove_os (\<lambda>fd w. True) gw_glove"
  by (simp add: creates_threads_def glove_os_def)

lemma glove_os_reaches: "reaches_glove glove_os (\<lambda>fd w. True) gw_glove ip"
  by (simp add: reaches_glove_def glove_os_def)

definition demo_glove :: glove where
  "demo_glove = \<lparr>gl_motors = replicate 6 \<lparr>mo_mode = 1, mo_position = 0, mo_force = 4095, mo_speed = 0,
       mo_sensed = MotorStatus_default\<lparr>ms_temperature := 30\<rparr>\<rparr>,
     gl_adc = map (\<lambda>i. of_nat (4096 * i)) [0..<16], gl_roll = 0x41280000, gl_pitch = 0xC1A26666, gl_yaw = 0x43340000\<rparr>"

definition demo_world :: glove_world where
  "demo_world = \<lparr>gw_glove = demo_glove, gw_reply = [], gw_sockets = 0, gw_clock = 0\<rparr>"

lemma demo_glove_ok: "glove_ok demo_glove" "gw_glove demo_world = demo_glove"
proof -
  have "\<not> motor_header (imu_body 0x41280000 0xC1A26666 0x43340000)" by code_simp
  then show "glove_ok demo_glove" by (simp add: glove_ok_def demo_glove_def upt_rec)
  show "gw_glove demo_world = demo_glove" by (simp add: demo_world_def)
qed

lemma demo_at_glove:
  "\<exists>k (w :: glove_world). at_glove (\<lambda>fd w. True) gw_glove (prepared demo_glove) (k, w) \<and> uncalibrated k
     \<and> never_read k"
  using sdk_initialize_serves [OF glove_os_obedient glove_os_reaches, of demo_world "example_config False"]
    demo_glove_ok by (auto simp: example_config_def uncalibrated_def)

section \<open>Properties\<close>

text \<open>
  C3. Monitoring, end to end. In front of a glove that carries out what it is asked and answers in the frames of PROTOCOL.md, one
  round of the unified thread of an SDK without calibrations, from requests through frames, checksums, firmware workarounds, parsers and conversions to the
  values the user asks for, makes the SDK show the sensors of the glove: the angle of each of
  the sixteen encoders exactly, and the three floats of the orientation bit for bit; and the glove is left as
  it was. Of its motors it shows nothing: the six documented status replies hold no status for the parser, so the
  motor controller, its cache included, is what it was before the round. (\<open>glove_ok\<close>: the first encoder value and the first bytes of the
  orientation do not look like the header of a motor packet.)
\<close>

theorem round_reads_glove:
  assumes "obedient os tuned dev" and "at_glove tuned dev g (k, w)" and "uncalibrated k"
  shows "\<exists>k' w' angles t. unified_update_loop os Motor_Segment [True, True, True] (k, w) = Some (False, k', w')
    \<and> get_encoder_angles k' = Some angles
    \<and> map f32_value angles = map (\<lambda>v. Some (360 * of_int (uint v) / 65536)) (gl_adc g)
    \<and> get_imu_orientation k' = Some \<lparr>imu_roll = gl_roll g, imu_pitch = gl_pitch g, imu_yaw = gl_yaw g, imu_timestamp = t\<rparr>
    \<and> motor_controller k' = motor_controller k \<and> dev w' = g"
proof -
  obtain k' w' where r: "unified_update_loop os Motor_Segment [True, True, True] (k, w) = Some (False, k', w')"
    "at_glove tuned dev g (k', w')" "sdk_motor_controller k' = sdk_motor_controller k" "shows_encoders k' g" "shows_imu k' g"
    "uncalibrated k'"
    using round_shows [OF assms(1,2)] assms(3) unfolding uncalibrated_def by metis
  moreover have "dev w' = g" using r(2) by (auto simp: at_glove_def in_touch_def)
  ultimately show ?thesis using uncalibrated_shows [OF r(6,2,4,5)] unfolding motor_controller_def by blast
qed

theorem round_reads_glove_witness:
  "\<exists>k (w :: glove_world) k' w' d m. unified_update_loop glove_os Motor_Segment [True, True, True] (k, w) = Some (False, k', w')
    \<and> get_imu_orientation k' = Some d \<and> imu_roll d = 0x41280000
    \<and> motor_controller k' = Some m \<and> map ms_temperature (get_all_cached_status m) = [0, 0, 0, 0, 0, 0]
    \<and> map (ms_temperature \<circ> mo_sensed) (gl_motors (gw_glove w')) = [30, 30, 30, 30, 30, 30]"
proof -
  obtain k and w :: glove_world where kw: "at_glove (\<lambda>fd w. True) gw_glove (prepared demo_glove) (k, w)" "uncalibrated k"
    "never_read k" using demo_at_glove by blast
  obtain m where "motor_controller k = Some m" "map ms_temperature (get_all_cached_status m) = [0, 0, 0, 0, 0, 0]"
    using kw(3) by (auto simp: never_read_def motor_controller_def get_all_cached_status_def motor_ids_eq MotorStatus_default_def)
  with round_reads_glove [OF glove_os_obedient kw(1,2)] show ?thesis
    by (fastforce simp: prepared_def demo_glove_def replicate_6)
qed

text \<open>
  Commanding, end to end. \<open>set_all_positions\<close> in front of an obedient glove: every motor whose demanded
  position is within the limit gets it, the others keep theirs, nothing else on the glove changes, and the
  call reports whether all six were within the limit.
\<close>

lemma commands_reach_glove:
  assumes "obedient os tuned dev" and "at_glove tuned dev g (k, w)" and "length ps = 6"
  shows "\<exists>k' w'. sdk_set_all_positions os ps (k, w) = Some (\<forall>p \<in> set ps. p \<le> 2000, k', w')
    \<and> dev w' = g\<lparr>gl_motors := map2 (\<lambda>m p. if p \<le> 2000 then m\<lparr>mo_position := p\<rparr> else m) (gl_motors g) ps\<rparr>"
  using motor_command_at_glove [OF assms(2) position_batch [OF assms(1) _ assms(3), where g = g]]
  by (fastforce simp: sdk_set_all_positions_def at_glove_def in_touch_def)

lemma commands_reach_glove_instance:
  "\<exists>k (w :: glove_world) k' w'. sdk_set_all_positions glove_os [100, 2001, 300, 400, 500, 2000] (k, w) = Some (False, k', w')
    \<and> map mo_position (gl_motors (gw_glove w')) = [100, 0, 300, 400, 500, 2000]"
proof -
  obtain k and w :: glove_world where "at_glove (\<lambda>fd w. True) gw_glove (prepared demo_glove) (k, w)"
    using demo_at_glove by blast
  from commands_reach_glove [OF glove_os_obedient this, of "[100, 2001, 300, 400, 500, 2000]"]
  obtain k' and w' :: glove_world where set: "sdk_set_all_positions glove_os [100, 2001, 300, 400, 500, 2000] (k, w) = Some (False, k', w')"
    and "gw_glove w' = (prepared demo_glove)\<lparr>gl_motors := map2 (\<lambda>m p. if p \<le> 2000 then m\<lparr>mo_position := p\<rparr> else m)
      (gl_motors (prepared demo_glove)) [100, 2001, 300, 400, 500, 2000]\<rparr>" by auto
  then have "map mo_position (gl_motors (gw_glove w')) = [100, 0, 300, 400, 500, 2000]"
    by (simp add: prepared_def demo_glove_def replicate_6)
  with set show ?thesis by (intro exI conjI)
qed



end
