(* ===== verification/Glove_Sensors.thy ===== *)
theory Glove_Sensors
  imports Glove_Device
begin

text \<open>
  The sensor example in front of a still glove that answers as PROTOCOL.md says: calibration makes the present reading the zero, and
  from then on every segment of the unified thread, whenever it runs, leaves the readers at zero; the motor cache is
  never written.
\<close>

section \<open>Zeroed readers\<close>





section \<open>Calibration\<close>





section \<open>The unified thread next to main\<close>







section \<open>The sensor example in front of the glove\<close>




end
