(* ===== verification/Console.thy ===== *)
theory Console
  imports Glove_Sdk
begin

text \<open>
  What the library prints. The operations of the client and the components once more, with every message they
  write to \<open>std::cout\<close> and \<open>std::cerr\<close>; the console is a list of messages next to the world. The lemmas show that
  with the messages left out they are the operations of the model (locale \<open>quiet\<close>), and which outcomes
  leave which messages.
\<close>

section \<open>Messages\<close>

text \<open>
  \<open>errno\<close> after a call that failed: \<open>EAGAIN\<close> or \<open>EWOULDBLOCK\<close>, which the code tells apart, or another code, which it
  only prints. It is read off the world by a parameter.
\<close>

datatype errno = Again | Errno int

text \<open>The bracket in front of a message, for the messages that several classes print.\<close>

datatype part = Motors | Encoders | Imu | Sdk

datatype (plugins only: code size) message =
    Socket_Failed errno | Reuseaddr_Failed errno | Bind_Failed u16 errno | Socket_Timeout_Failed errno
  | Receive_Timeout_Failed | Send_Timeout_Failed | Invalid_Address string | Connect_Failed string u16 errno
  | Connected_To string u16
  | Not_Connected | Send_Timed_Out | Send_Failed errno | Partial_Send int nat | Receive_Failed errno | Not_Deserialized
  | Initializing part | Initialization_Complete part | No_Initial_Data part
  | Thread_Started part | Thread_Start_Failed part | Thread_Stopped part | Consecutive_Failures part int
  | Invalid_Motor_Id u8 | Invalid_Mode u8 | Position_Out_Of_Range u16 | Force_Out_Of_Range u16
  | Target_Out_Of_Range u16
  | Mode_Not_Set u8 | Position_Not_Set u8 | Force_Not_Set u8 | Speed_Not_Set u8
  | Force_Mode_Failed | Initial_Forces_Failed
  | Calibrating part | No_Calibration_Data part | Calibration_Complete part | Offsets f32 f32 f32
  | Already_Initialized | Connection_Failed | Component_Failed part | Shutting_Down | Shutdown_Complete
  | Sdk_Not_Initialized | Cannot_Start | Thread_Already_Running | Overrun int
  | Calibrating_All | All_Calibrated | Calibration_Failed bool bool

text \<open>The messages that go to \<open>std::cout\<close>; all others go to \<open>std::cerr\<close>.\<close>

fun on_cout :: "message \<Rightarrow> bool" where
  "on_cout (Connected_To ip port) = True"
| "on_cout (Initializing part) = True"
| "on_cout (Initialization_Complete part) = True"
| "on_cout (Thread_Started part) = True"
| "on_cout (Thread_Stopped part) = True"
| "on_cout (Calibrating part) = True"
| "on_cout (Calibration_Complete part) = True"
| "on_cout (Offsets roll pitch yaw) = True"
| "on_cout Already_Initialized = True"
| "on_cout Shutting_Down = True"
| "on_cout Shutdown_Complete = True"
| "on_cout Calibrating_All = True"
| "on_cout All_Calibrated = True"
| "on_cout _ = False"

section \<open>The console\<close>

text \<open>A world with a console, and the calls of the operating system on it: they print nothing.\<close>

type_synonym 'w console = "'w \<times> message list"

definition say :: "message \<Rightarrow> 'w console \<Rightarrow> 'w console" where
  "say m w = (fst w, snd w @ [m])"

definition tell :: "message \<Rightarrow> 'a \<times> 'w console \<Rightarrow> 'a \<times> 'w console" where
  "tell m s = (fst s, say m (snd s))"

definition lines :: "'a \<times> 'w console \<Rightarrow> message list" where
  "lines s = snd (snd s)"

definition hush :: "'a \<times> 'w console \<Rightarrow> 'a \<times> 'w" where
  "hush s = (fst s, fst (snd s))"

definition beside :: "('w \<Rightarrow> 'r \<times> 'w) \<Rightarrow> 'w console \<Rightarrow> 'r \<times> 'w console" where
  "beside f w = (let (r, w') = f (fst w) in (r, w', snd w))"

definition on_console :: "'w os \<Rightarrow> 'w console os" where
  "on_console os = \<lparr>
     os_socket = beside (os_socket os),
     os_reuseaddr = (\<lambda>fd. beside (os_reuseaddr os fd)),
     os_bind = (\<lambda>fd port. beside (os_bind os fd port)),
     os_set_timeout = (\<lambda>fd opt tv. beside (os_set_timeout os fd opt tv)),
     os_inet_pton = os_inet_pton os,
     os_connect = (\<lambda>fd addr port. beside (os_connect os fd addr port)),
     os_send = (\<lambda>fd data. beside (os_send os fd data)),
     os_recv = (\<lambda>fd n. beside (os_recv os fd n)),
     os_close = (\<lambda>fd w. (os_close os fd (fst w), snd w)),
     os_now = (\<lambda>w. os_now os (fst w)),
     os_sleep = (\<lambda>t w. (os_sleep os t (fst w), snd w)),
     os_thread_create = beside (os_thread_create os)\<rparr>"

lemma beside_sel [simp]: "fst (beside f w) = fst (f (fst w))" "fst (snd (beside f w)) = snd (f (fst w))"
  "snd (snd (beside f w)) = snd w"
  by (simp_all add: beside_def case_prod_beta)

lemma console_sel [simp]:
  "fst (say m w) = fst w" "snd (say m w) = snd w @ [m]"
  "fst (tell m s) = fst s" "snd (tell m s) = say m (snd s)"
  "hush (tell m s) = hush s" "lines (tell m s) = lines s @ [m]" "lines (a, w) = snd w"
  by (simp_all add: say_def tell_def hush_def lines_def)

lemma on_console_sel [simp]:
  "os_socket (on_console os) = beside (os_socket os)"
  "os_reuseaddr (on_console os) fd = beside (os_reuseaddr os fd)"
  "os_bind (on_console os) fd port = beside (os_bind os fd port)"
  "os_set_timeout (on_console os) fd opt tv = beside (os_set_timeout os fd opt tv)"
  "os_inet_pton (on_console os) = os_inet_pton os"
  "os_connect (on_console os) fd addr port = beside (os_connect os fd addr port)"
  "os_send (on_console os) fd data = beside (os_send os fd data)"
  "os_recv (on_console os) fd n = beside (os_recv os fd n)"
  "os_close (on_console os) fd w = (os_close os fd (fst w), snd w)"
  "os_now (on_console os) w = os_now os (fst w)"
  "os_sleep (on_console os) t w = (os_sleep os t (fst w), snd w)"
  "os_thread_create (on_console os) = beside (os_thread_create os)"
  by (simp_all add: on_console_def)

section \<open>The client\<close>

definition set_socket_timeout_says ::
  "'w os \<Rightarrow> ('w \<Rightarrow> errno) \<Rightarrow> int \<Rightarrow> sockopt \<Rightarrow> int \<Rightarrow> 'w console \<Rightarrow> bool \<times> 'w console" where
  "set_socket_timeout_says os errno fd option timeout w =
     (let tv = (timeout sdiv 1000, (timeout smod 1000) * 1000);
          (r, w) = os_set_timeout (on_console os) fd option tv w
      in if r < 0 then (False, say (Socket_Timeout_Failed (errno (fst w))) w) else (True, w))"

definition bind_local_port_says ::
  "'w os \<Rightarrow> ('w \<Rightarrow> errno) \<Rightarrow> UdpClient \<Rightarrow> 'w console \<Rightarrow> bool \<times> 'w console" where
  "bind_local_port_says os errno c w =
     (if cfg_local_port (uc_config c) > 0 then
        let (r, w) = os_reuseaddr (on_console os) (uc_socket_fd c) w;
            w = (if r < 0 then say (Reuseaddr_Failed (errno (fst w))) w else w);
            (r, w) = os_bind (on_console os) (uc_socket_fd c) (cfg_local_port (uc_config c)) w
        in if r < 0 then (False, say (Bind_Failed (cfg_local_port (uc_config c)) (errno (fst w))) w)
           else (True, w)
      else (True, w))"

definition configure_socket_says ::
  "'w os \<Rightarrow> ('w \<Rightarrow> errno) \<Rightarrow> UdpClient \<Rightarrow> 'w console \<Rightarrow> bool \<times> 'w console link" where
  "configure_socket_says os errno c w =
     (let cfg = uc_config c;
          fd = uc_socket_fd c;
          os' = on_console os;
          (bound, w) = bind_local_port_says os errno c w
      in if \<not> bound then abandon_socket os' c w
      else
        let (rcv_ok, w) = set_socket_timeout_says os errno fd SO_RCVTIMEO (cfg_receive_timeout cfg) w
        in if \<not> rcv_ok then abandon_socket os' c (say Receive_Timeout_Failed w)
        else
          let (snd_ok, w) = set_socket_timeout_says os errno fd SO_SNDTIMEO (cfg_send_timeout cfg) w
          in if \<not> snd_ok then abandon_socket os' c (say Send_Timeout_Failed w)
          else (case os_inet_pton os' (cfg_server_ip cfg) of
            None \<Rightarrow> abandon_socket os' c (say (Invalid_Address (cfg_server_ip cfg)) w)
          | Some addr \<Rightarrow>
              let (r, w) = os_connect os' fd addr (cfg_server_port cfg) w
              in if r < 0 then abandon_socket os' c
                   (say (Connect_Failed (cfg_server_ip cfg) (cfg_server_port cfg) (errno (fst w))) w)
              else (True, c\<lparr>uc_connected := True\<rparr>,
                say (Connected_To (cfg_server_ip cfg) (cfg_server_port cfg)) w)))"

definition connect_says :: "'w os \<Rightarrow> ('w \<Rightarrow> errno) \<Rightarrow> 'w console link \<Rightarrow> bool \<times> 'w console link" where
  "connect_says os errno s =
     (let (c, w) = s in
      if uc_connected c then (True, c, w)
      else
        let (fd, w) = os_socket (on_console os) w;
            c = c\<lparr>uc_socket_fd := fd\<rparr>
        in if fd < 0 then (False, c, say (Socket_Failed (errno (fst w))) w)
           else configure_socket_says os errno c w)"

definition send_packet_says ::
  "'w os \<Rightarrow> ('w \<Rightarrow> errno) \<Rightarrow> Packet \<Rightarrow> 'w console link \<Rightarrow> bool \<times> 'w console link" where
  "send_packet_says os errno packet s =
     (let (c, w) = s in
      if \<not> uc_connected c then (False, update_send_stats False c, say Not_Connected w)
      else
        let data = serialize packet;
            (sent, w) = os_send (on_console os) (uc_socket_fd c) data w
        in if sent < 0 then
             (let w = (case errno (fst w) of Again \<Rightarrow> say Send_Timed_Out w | e \<Rightarrow> say (Send_Failed e) w)
              in (False, update_send_stats False c, w))
        else if sent \<noteq> int (length data) then
          (False, update_send_stats False c, say (Partial_Send sent (length data)) w)
        else (True, update_send_stats True c, w))"

definition receive_packet_says ::
  "'w os \<Rightarrow> ('w \<Rightarrow> errno) \<Rightarrow> 'w console link \<Rightarrow> (Packet option \<times> 'w console link) ub" where
  "receive_packet_says os errno s =
     (let (c, w) = s in
      if \<not> uc_connected c
      then Some (None, update_receive_stats False False False c, say Not_Connected w)
      else
        let (received, w) = os_recv (on_console os) (uc_socket_fd c) 1024 w
        in case received of
             Recv_Again \<Rightarrow> Some (None, update_receive_stats False True False c, w)
           | Recv_Error \<Rightarrow>
               Some (None, update_receive_stats False False False c, say (Receive_Failed (errno (fst w))) w)
           | Recv_Data bytes \<Rightarrow> do {
               let buffer = take 1024 bytes;
               packet \<leftarrow> deserialize buffer;
               case packet of
                 None \<Rightarrow> Some (None, update_receive_stats False False True c, say Not_Deserialized w)
               | Some p \<Rightarrow> Some (Some p, update_receive_stats True False False c, w) })"

definition exchange_says :: "'w os \<Rightarrow> ('w \<Rightarrow> errno) \<Rightarrow> 'w console link xchg" where
  "exchange_says os errno packet s =
     (let (sent, s) = send_packet_says os errno packet s in
      if \<not> sent then Some (None, s) else receive_packet_says os errno s)"

section \<open>The components\<close>

subsection \<open>Threads and loops\<close>

definition worker_start_says ::
  "part \<Rightarrow> ('a \<times> 'w console \<Rightarrow> bool \<times> 'a \<times> 'w console) \<Rightarrow> worker \<times> 'a \<times> 'w console
    \<Rightarrow> start_outcome \<times> worker \<times> 'a \<times> 'w console" where
  "worker_start_says part spawn ts =
     (let (t, s) = ts in
      if thread_running t then (Already_Running, t, s)
      else
        let t = t\<lparr>thread_running := True\<rparr>;
            (ok, s) = spawn s
        in if ok then
             if thread_joinable t then (Terminates, t, s)
             else (Started, t\<lparr>thread_joinable := True\<rparr>, tell (Thread_Started part) s)
           else (Throws_System_Error, t\<lparr>thread_running := False\<rparr>, tell (Thread_Start_Failed part) s))"

definition worker_stop_says :: "part \<Rightarrow> worker \<times> 'a \<times> 'w console \<Rightarrow> worker \<times> 'a \<times> 'w console" where
  "worker_stop_says part ts =
     (let (t, s) = ts in
      if \<not> thread_running t then (t, s)
      else
        let t = t\<lparr>thread_running := False\<rparr>;
            t = (if thread_joinable t then t\<lparr>thread_joinable := False\<rparr> else t)
        in (t, tell (Thread_Stopped part) s))"

text \<open>
  One round of a component's loop: the warning comes after the update, when the counter has reached ten or
  a multiple of a hundred. The state is the component with its link.
\<close>

definition loop_body_says ::
  "part \<Rightarrow> ('c \<times> 'w console link \<Rightarrow> time) \<Rightarrow> (time \<Rightarrow> 'c \<times> 'w console link \<Rightarrow> 'c \<times> 'w console link)
    \<Rightarrow> ('c \<times> 'w console link \<Rightarrow> (bool \<times> 'c \<times> 'w console link) ub) \<Rightarrow> int
    \<Rightarrow> int \<times> 'c \<times> 'w console link \<Rightarrow> (int \<times> 'c \<times> 'w console link) ub" where
  "loop_body_says part now sleep update_once interval cs = do {
     let (failures, s) = cs;
     let start_time = now s;
     (success, s) \<leftarrow> update_once s;
     failures \<leftarrow> count_failure success failures;
     let s = (if \<not> success \<and> warns failures
              then (fst s, tell (Consecutive_Failures part failures) (snd s)) else s);
     let elapsed = now s - start_time;
     let sleep_time = interval * 1000000 - elapsed;
     Some (failures, if sleep_time > 0 then sleep sleep_time s else s) }"

subsection \<open>The motor controller\<close>

definition set_motor_mode_says ::
  "'w console link xchg \<Rightarrow> u8 \<Rightarrow> u8 \<Rightarrow> 'w console link \<Rightarrow> (bool \<times> 'w console link) ub" where
  "set_motor_mode_says xchg motor_id mode s =
     (if \<not> is_valid_motor_id motor_id then Some (False, tell (Invalid_Motor_Id motor_id) s)
      else if \<not> is_valid_mode mode then Some (False, tell (Invalid_Mode mode) s)
      else do {
        packet \<leftarrow> encode_set_motor_mode motor_id mode;
        (response, s) \<leftarrow> xchg packet s;
        if response = None then Some (False, tell (Mode_Not_Set motor_id) s) else Some (True, s) })"

definition set_motor_position_says ::
  "'w console link xchg \<Rightarrow> u8 \<Rightarrow> u16 \<Rightarrow> 'w console link \<Rightarrow> (bool \<times> 'w console link) ub" where
  "set_motor_position_says xchg motor_id position s =
     (if \<not> is_valid_motor_id motor_id then Some (False, tell (Invalid_Motor_Id motor_id) s)
      else if \<not> is_valid_position position then Some (False, tell (Position_Out_Of_Range position) s)
      else do {
        packet \<leftarrow> encode_set_motor_position motor_id position;
        (response, s) \<leftarrow> xchg packet s;
        if response = None then Some (False, tell (Position_Not_Set motor_id) s) else Some (True, s) })"

definition set_motor_force_says ::
  "'w console link xchg \<Rightarrow> u8 \<Rightarrow> u16 \<Rightarrow> 'w console link \<Rightarrow> (bool \<times> 'w console link) ub" where
  "set_motor_force_says xchg motor_id force s =
     (if \<not> is_valid_motor_id motor_id then Some (False, tell (Invalid_Motor_Id motor_id) s)
      else if \<not> is_valid_force force then Some (False, tell (Force_Out_Of_Range force) s)
      else do {
        packet \<leftarrow> encode_set_motor_force motor_id force;
        (response, s) \<leftarrow> xchg packet s;
        if response = None then Some (False, tell (Force_Not_Set motor_id) s) else Some (True, s) })"

definition set_motor_speed_says ::
  "'w console link xchg \<Rightarrow> u8 \<Rightarrow> u16 \<Rightarrow> u16 \<Rightarrow> 'w console link \<Rightarrow> (bool \<times> 'w console link) ub" where
  "set_motor_speed_says xchg motor_id speed target_position s =
     (if \<not> is_valid_motor_id motor_id then Some (False, tell (Invalid_Motor_Id motor_id) s)
      else if \<not> is_valid_position target_position then Some (False, tell (Target_Out_Of_Range target_position) s)
      else do {
        packet \<leftarrow> encode_set_motor_speed motor_id speed target_position;
        (response, s) \<leftarrow> xchg packet s;
        if response = None then Some (False, tell (Speed_Not_Set motor_id) s) else Some (True, s) })"

definition get_motor_status_says ::
  "'w console link xchg \<Rightarrow> ('w console link \<Rightarrow> time) \<Rightarrow> u8 \<Rightarrow> 'w console link
    \<Rightarrow> (MotorStatus option \<times> 'w console link) ub" where
  "get_motor_status_says xchg now motor_id s =
     (if \<not> is_valid_motor_id motor_id then Some (None, tell (Invalid_Motor_Id motor_id) s)
      else do {
        packet \<leftarrow> encode_read_motor_status motor_id;
        (response, s) \<leftarrow> xchg packet s;
        case response of
          None \<Rightarrow> Some (None, s)
        | Some p \<Rightarrow> do { status \<leftarrow> parse_motor_status p (now s); Some (status, s) } })"

definition set_all_modes_says ::
  "'w console link xchg \<Rightarrow> u8 \<Rightarrow> 'w console link \<Rightarrow> (bool \<times> 'w console link) ub" where
  "set_all_modes_says xchg mode s =
     run_all (\<lambda>motor_id. set_motor_mode_says xchg motor_id mode) motor_ids True s"

definition set_all_positions_says ::
  "'w console link xchg \<Rightarrow> u16 list \<Rightarrow> 'w console link \<Rightarrow> (bool \<times> 'w console link) ub" where
  "set_all_positions_says xchg positions s =
     run_all (\<lambda>i s. do {
        let motor_id = of_nat (i + 1);
        position \<leftarrow> rd positions i;
        set_motor_position_says xchg motor_id position s }) [0..<NUM_MOTORS] True s"

definition set_all_forces_says ::
  "'w console link xchg \<Rightarrow> u16 list \<Rightarrow> 'w console link \<Rightarrow> (bool \<times> 'w console link) ub" where
  "set_all_forces_says xchg forces s =
     run_all (\<lambda>i s. do {
        let motor_id = of_nat (i + 1);
        force \<leftarrow> rd forces i;
        set_motor_force_says xchg motor_id force s }) [0..<NUM_MOTORS] True s"

definition motor_start_says ::
  "('w console link \<Rightarrow> bool \<times> 'w console link) \<Rightarrow> MotorController \<times> 'w console link
    \<Rightarrow> start_outcome \<times> MotorController \<times> 'w console link" where
  "motor_start_says spawn ms =
     (let (m, s) = ms; (r, t, s) = worker_start_says Motors spawn (mc_worker m, s)
      in (r, m\<lparr>mc_worker := t\<rparr>, s))"

text \<open>The last message of \<open>initialize\<close> is not reached when the start throws.\<close>

definition complete_says :: "part \<Rightarrow> start_outcome + bool \<Rightarrow> 'a \<times> 'w console \<Rightarrow> 'a \<times> 'w console" where
  "complete_says part r s = (if r = Inr True then tell (Initialization_Complete part) s else s)"

definition motor_initialize_says ::
  "'w console link xchg \<Rightarrow> ('w console link \<Rightarrow> bool \<times> 'w console link) \<Rightarrow> MotorController \<times> 'w console link
    \<Rightarrow> ((start_outcome + bool) \<times> MotorController \<times> 'w console link) ub" where
  "motor_initialize_says xchg spawn ms = do {
     let (m, s) = ms;
     let s = tell (Initializing Motors) s;
     (modes_ok, s) \<leftarrow> set_all_modes_says xchg MODE_FORCE s;
     if \<not> modes_ok then Some (Inr False, m, tell Force_Mode_Failed s)
     else do {
       let forces = replicate NUM_MOTORS 10;
       (forces_ok, s) \<leftarrow> set_all_forces_says xchg forces s;
       if \<not> forces_ok then Some (Inr False, m, tell Initial_Forces_Failed s)
       else if mcc_auto_start_thread (mc_config m) then
         (let (r, m, s) = motor_start_says spawn (m, s)
          in Some (after_start r, m, complete_says Motors (after_start r) s))
       else Some (Inr True, m, complete_says Motors (Inr True) s) } }"

subsection \<open>The sensors\<close>

definition encoder_start_says ::
  "('w console link \<Rightarrow> bool \<times> 'w console link) \<Rightarrow> EncoderReader \<times> 'w console link
    \<Rightarrow> start_outcome \<times> EncoderReader \<times> 'w console link" where
  "encoder_start_says spawn rs =
     (let (r, s) = rs; (out, t, s) = worker_start_says Encoders spawn (er_worker r, s)
      in (out, r\<lparr>er_worker := t\<rparr>, s))"

definition encoder_initialize_says ::
  "'w console link xchg \<Rightarrow> ('w console link \<Rightarrow> time) \<Rightarrow> ('w console link \<Rightarrow> bool \<times> 'w console link)
    \<Rightarrow> EncoderReader \<times> 'w console link \<Rightarrow> ((start_outcome + bool) \<times> EncoderReader \<times> 'w console link) ub" where
  "encoder_initialize_says xchg now spawn rs = do {
     let (r, s) = rs;
     let s = tell (Initializing Encoders) s;
     (data, s) \<leftarrow> read_encoders xchg now s;
     case data of
       None \<Rightarrow> Some (Inr False, r, tell (No_Initial_Data Encoders) s)
     | Some d \<Rightarrow>
         let r = r\<lparr>er_cached_data := d\<rparr> in
         if erc_auto_start_thread (er_config r) then
           (let (out, r, s) = encoder_start_says spawn (r, s)
            in Some (after_start out, r, complete_says Encoders (after_start out) s))
         else Some (Inr True, r, complete_says Encoders (Inr True) s) }"

definition calibrate_zero_point_says ::
  "'w console link xchg \<Rightarrow> ('w console link \<Rightarrow> time) \<Rightarrow> EncoderReader \<times> 'w console link
    \<Rightarrow> (bool \<times> EncoderReader \<times> 'w console link) ub" where
  "calibrate_zero_point_says xchg now rs = do {
     let (r, s) = rs;
     let s = tell (Calibrating Encoders) s;
     (data, s) \<leftarrow> read_encoders xchg now s;
     case data of
       None \<Rightarrow> Some (False, r, tell (No_Calibration_Data Encoders) s)
     | Some d \<Rightarrow> do {
         voltages \<leftarrow> adc_to_voltages (ed_adc_values d);
         let c = (er_calibration r)\<lparr>ec_zero_voltages := voltages\<rparr>;
         let c = c\<lparr>ec_scale_factors := replicate NUM_ENCODER_CHANNELS f32_one\<rparr>;
         let c = c\<lparr>ec_is_calibrated := True\<rparr>;
         Some (True, r\<lparr>er_calibration := c, er_cached_data := d\<rparr>, tell (Calibration_Complete Encoders) s) } }"

definition imu_start_says ::
  "('w console link \<Rightarrow> bool \<times> 'w console link) \<Rightarrow> ImuReader \<times> 'w console link
    \<Rightarrow> start_outcome \<times> ImuReader \<times> 'w console link" where
  "imu_start_says spawn rs =
     (let (r, s) = rs; (out, t, s) = worker_start_says Imu spawn (ir_worker r, s)
      in (out, r\<lparr>ir_worker := t\<rparr>, s))"

definition imu_initialize_says ::
  "'w console link xchg \<Rightarrow> ('w console link \<Rightarrow> time) \<Rightarrow> ('w console link \<Rightarrow> bool \<times> 'w console link)
    \<Rightarrow> ImuReader \<times> 'w console link \<Rightarrow> ((start_outcome + bool) \<times> ImuReader \<times> 'w console link) ub" where
  "imu_initialize_says xchg now spawn rs = do {
     let (r, s) = rs;
     let s = tell (Initializing Imu) s;
     (data, s) \<leftarrow> read_imu xchg now s;
     case data of
       None \<Rightarrow> Some (Inr False, r, tell (No_Initial_Data Imu) s)
     | Some d \<Rightarrow>
         let r = r\<lparr>ir_cached_data := imu_apply_calibration r d\<rparr> in
         if irc_auto_start_thread (ir_config r) then
           (let (out, r, s) = imu_start_says spawn (r, s)
            in Some (after_start out, r, complete_says Imu (after_start out) s))
         else Some (Inr True, r, complete_says Imu (Inr True) s) }"

text \<open>The three lines with the offsets are one message here.\<close>

definition calibrate_zero_orientation_says ::
  "'w console link xchg \<Rightarrow> ('w console link \<Rightarrow> time) \<Rightarrow> ImuReader \<times> 'w console link
    \<Rightarrow> (bool \<times> ImuReader \<times> 'w console link) ub" where
  "calibrate_zero_orientation_says xchg now rs = do {
     let (r, s) = rs;
     let s = tell (Calibrating Imu) s;
     (data, s) \<leftarrow> read_imu xchg now s;
     case data of
       None \<Rightarrow> Some (False, r, tell (No_Calibration_Data Imu) s)
     | Some d \<Rightarrow>
         let r = r\<lparr>ir_calibration := \<lparr>ic_roll_offset = imu_roll d, ic_pitch_offset = imu_pitch d,
                ic_yaw_offset = imu_yaw d, ic_is_calibrated = True\<rparr>\<rparr>;
             r = r\<lparr>ir_cached_data := imu_apply_calibration_unsafe r d\<rparr>;
             c = ir_calibration r;
             s = tell (Calibration_Complete Imu) s;
             s = tell (Offsets (ic_roll_offset c) (ic_pitch_offset c) (ic_yaw_offset c)) s
         in Some (True, r, s) }"

subsection \<open>The loops of the components' own threads\<close>

definition motor_loop_says ::
  "'w console link xchg \<Rightarrow> ('w console link \<Rightarrow> time) \<Rightarrow> (time \<Rightarrow> 'w console link \<Rightarrow> 'w console link) \<Rightarrow> bool list
    \<Rightarrow> MotorController \<times> 'w console link \<Rightarrow> (bool \<times> int \<times> MotorController \<times> 'w console link) ub" where
  "motor_loop_says xchg now sleep loads ms =
     status_update_loop (loop_body_says Motors (\<lambda>ms. now (snd ms)) (\<lambda>t ms. (fst ms, sleep t (snd ms)))
       (motor_update_once xchg now) (mcc_update_interval (mc_config (fst ms)))) loads (0, ms)"

definition encoder_loop_says ::
  "'w console link xchg \<Rightarrow> ('w console link \<Rightarrow> time) \<Rightarrow> (time \<Rightarrow> 'w console link \<Rightarrow> 'w console link) \<Rightarrow> bool list
    \<Rightarrow> EncoderReader \<times> 'w console link \<Rightarrow> (bool \<times> int \<times> EncoderReader \<times> 'w console link) ub" where
  "encoder_loop_says xchg now sleep loads rs =
     worker_loop (loop_body_says Encoders (\<lambda>rs. now (snd rs)) (\<lambda>t rs. (fst rs, sleep t (snd rs)))
       (encoder_update_once xchg now) (erc_update_interval (er_config (fst rs)))) loads (0, rs)"

definition imu_loop_says ::
  "'w console link xchg \<Rightarrow> ('w console link \<Rightarrow> time) \<Rightarrow> (time \<Rightarrow> 'w console link \<Rightarrow> 'w console link) \<Rightarrow> bool list
    \<Rightarrow> ImuReader \<times> 'w console link \<Rightarrow> (bool \<times> int \<times> ImuReader \<times> 'w console link) ub" where
  "imu_loop_says xchg now sleep loads rs =
     worker_loop (loop_body_says Imu (\<lambda>rs. now (snd rs)) (\<lambda>t rs. (fst rs, sleep t (snd rs)))
       (imu_update_once xchg now) (irc_update_interval (ir_config (fst rs)))) loads (0, rs)"

section \<open>Leaving the messages out\<close>

text \<open>
  The pattern of every lemma here: what the quiet operation does on the erased state is what the talking one does,
  erased.
\<close>

lemma erased_spawn: "link_spawn os (hush s) = apsnd hush (link_spawn (on_console os) s)"
  by (cases s) (simp add: link_spawn_def hush_def case_prod_beta)

lemma erased_now: "link_now os (hush s) = link_now (on_console os) s"
  by (cases s) (simp add: link_now_def hush_def)

lemma erased_sleep: "link_sleep os t (hush s) = hush (link_sleep (on_console os) t s)"
  by (cases s) (simp add: link_sleep_def hush_def)

lemma erased_send: "send_packet os p (hush s) = apsnd hush (send_packet_says os errno p s)"
  by (cases s) (simp add: send_packet_def send_packet_says_def Let_def case_prod_beta hush_def split: errno.split)

lemma erased_receive:
  "receive_packet os (hush s) = map_option (apsnd hush) (receive_packet_says os errno s)"
  by (cases s) (auto simp: receive_packet_def receive_packet_says_def Let_def case_prod_beta hush_def
      map_option_bind o_def split: recv_result.split option.splits Option.bind_splits)

lemma erased_exchange:
  "send_and_receive os p (hush s) = map_option (apsnd hush) (exchange_says os errno p s)"
  by (simp add: send_and_receive_def exchange_says_def erased_send [where errno = errno]
      erased_receive [where errno = errno] Let_def case_prod_beta apsnd_def map_prod_def)

lemma erased_timeout:
  "set_socket_timeout os fd opt t (fst w) = apsnd fst (set_socket_timeout_says os errno fd opt t w)"
  by (simp add: set_socket_timeout_def set_socket_timeout_says_def Let_def case_prod_beta)

lemma erased_bind: "bind_local_port os c (fst w) = apsnd fst (bind_local_port_says os errno c w)"
  by (simp add: bind_local_port_def bind_local_port_says_def Let_def case_prod_beta)

lemma erased_abandon: "abandon_socket os c (fst w) = apsnd hush (abandon_socket (on_console os) c w)"
  by (simp add: abandon_socket_def hush_def)

lemma erased_configure: "configure_socket os c (fst w) = apsnd hush (configure_socket_says os errno c w)"
  by (auto simp: configure_socket_def configure_socket_says_def Let_def case_prod_beta abandon_socket_def hush_def
      erased_timeout [where errno = errno] erased_bind [where errno = errno] split: option.split)

lemma erased_connect: "connect os (hush s) = apsnd hush (connect_says os errno s)"
  by (cases s) (auto simp: connect_def connect_says_def Let_def case_prod_beta hush_def
      erased_configure [symmetric])

lemma erased_disconnect: "disconnect os (hush s) = hush (disconnect (on_console os) s)"
  by (cases s) (simp add: disconnect_def Let_def case_prod_beta hush_def)

text \<open>
  What the components rely on: an exchange that, erased, is another exchange, and a clock that reads the same. The
  interpretation is the client's exchange with its messages.
\<close>

locale quiet =
  fixes loud :: "'s xchg" and soft :: "'t xchg" and erase :: "'s \<Rightarrow> 't"
    and loud_now :: "'s \<Rightarrow> time" and soft_now :: "'t \<Rightarrow> time"
  assumes quiet_xchg: "soft p (erase s) = map_option (apsnd erase) (loud p s)"
    and quiet_now: "soft_now (erase s) = loud_now s"
begin

lemmas quiet_simps = quiet_xchg quiet_now Let_def case_prod_beta o_def map_option_bind Option.bind_map_option

lemma quiet_read_encoders:
  "read_encoders soft soft_now (erase s) = map_option (apsnd erase) (read_encoders loud loud_now s)"
  by (auto simp: read_encoders_eq quiet_simps split: option.splits Option.bind_splits)

lemma quiet_read_imu: "read_imu soft soft_now (erase s) = map_option (apsnd erase) (read_imu loud loud_now s)"
  by (auto simp: read_imu_eq quiet_simps split: option.splits Option.bind_splits)

lemma quiet_motor_status:
  "get_motor_status soft soft_now i (erase s) = map_option (apsnd erase) (get_motor_status loud loud_now i s)"
  by (cases "encode_read_motor_status i")
    (auto simp: get_motor_status_def quiet_simps split: option.splits Option.bind_splits)

lemma quiet_update_motors:
  "update_motors soft soft_now ids b (m, erase s)
    = map_option (apsnd (apsnd erase)) (update_motors loud loud_now ids b (m, s))"
proof (induction ids arbitrary: b m s)
  case (Cons i ids)
  then show ?case
    by (auto simp: quiet_motor_status quiet_simps intro!: Option.bind_cong split: option.splits)
qed simp

lemma quiet_motor_update:
  "motor_update_once soft soft_now (apsnd erase ms)
    = map_option (apsnd (apsnd erase)) (motor_update_once loud loud_now ms)"
  by (cases ms) (simp add: motor_update_once_def quiet_update_motors)

lemma quiet_encoder_update:
  "encoder_update_once soft soft_now (apsnd erase rs)
    = map_option (apsnd (apsnd erase)) (encoder_update_once loud loud_now rs)"
  by (cases rs) (auto simp: encoder_update_once_def quiet_read_encoders quiet_simps
      intro!: Option.bind_cong split: option.splits)

lemma quiet_imu_update:
  "imu_update_once soft soft_now (apsnd erase rs)
    = map_option (apsnd (apsnd erase)) (imu_update_once loud loud_now rs)"
  by (cases rs) (auto simp: imu_update_once_def quiet_read_imu quiet_simps
      intro!: Option.bind_cong split: option.splits)

end

interpretation console: quiet "exchange_says os errno" "send_and_receive os" hush
    "link_now (on_console os)" "link_now os" for os :: "'w os" and errno
  by unfold_locales (rule erased_exchange, rule erased_now)

lemma erased_worker_start:
  assumes "spawn' (hush s) = apsnd hush (spawn s)"
  shows "worker_start spawn' (t, hush s) = apsnd (apsnd hush) (worker_start_says part spawn (t, s))"
  using assms by (simp add: worker_start_def worker_start_says_def Let_def case_prod_beta)

lemma erased_worker_stop: "apsnd hush (worker_stop_says part (t, s)) = (worker_stop t, hush s)"
  by (simp add: worker_stop_says_def worker_stop_def Let_def)

lemma erased_complete [simp]: "hush (complete_says part r s) = hush s"
  by (simp add: complete_says_def)

lemma erased_run_all:
  assumes "\<And>k s. g k (hush s) = map_option (apsnd hush) (f k s)"
  shows "run_all g ks b (hush s) = map_option (apsnd hush) (run_all f ks b s)"
  by (induction ks arbitrary: b s)
    (simp_all add: assms case_prod_beta o_def map_option_bind Option.bind_map_option)

text \<open>The components' operations on a console.\<close>

locale quiet_console = quiet loud soft hush loud_now soft_now
  for loud :: "'w console link xchg" and soft :: "'w link xchg" and loud_now and soft_now +
  fixes loud_spawn :: "'w console link \<Rightarrow> bool \<times> 'w console link" and soft_spawn :: "'w link \<Rightarrow> bool \<times> 'w link"
  assumes quiet_spawn: "soft_spawn (hush s) = apsnd hush (loud_spawn s)"
begin

lemma quiet_commands:
  "set_motor_mode soft i m (hush s) = map_option (apsnd hush) (set_motor_mode_says loud i m s)"
  "set_motor_position soft i v (hush s) = map_option (apsnd hush) (set_motor_position_says loud i v s)"
  "set_motor_force soft i v (hush s) = map_option (apsnd hush) (set_motor_force_says loud i v s)"
  "set_motor_speed soft i v q (hush s) = map_option (apsnd hush) (set_motor_speed_says loud i v q s)"
  by (auto simp: set_motor_mode_def set_motor_mode_says_def set_motor_position_def set_motor_position_says_def
      set_motor_force_def set_motor_force_says_def set_motor_speed_def set_motor_speed_says_def
      encode_as_request quiet_simps split: Option.bind_splits)

lemma quiet_get_motor_status:
  "get_motor_status soft soft_now i (hush s) = map_option (apsnd hush) (get_motor_status_says loud loud_now i s)"
  by (auto simp: get_motor_status_def get_motor_status_says_def encode_as_request quiet_simps
      split: option.splits Option.bind_splits)

lemma quiet_batches:
  "set_all_modes soft m (hush s) = map_option (apsnd hush) (set_all_modes_says loud m s)"
  "set_all_positions soft vs (hush s) = map_option (apsnd hush) (set_all_positions_says loud vs s)"
  "set_all_forces soft vs (hush s) = map_option (apsnd hush) (set_all_forces_says loud vs s)"
  unfolding set_all_modes_def set_all_modes_says_def set_all_positions_def set_all_positions_says_def
    set_all_forces_def set_all_forces_says_def
  by (rule erased_run_all; simp add: quiet_commands map_option_bind o_def)+

lemma quiet_motor_start:
  "start_status_update_thread soft_spawn (m, hush s)
    = apsnd (apsnd hush) (motor_start_says loud_spawn (m, s))"
  by (simp add: start_status_update_thread_def motor_start_says_def case_prod_beta
      quiet_spawn
      erased_worker_start [where part = Motors and spawn = loud_spawn])

lemma quiet_encoder_start:
  "encoder_start_update_thread soft_spawn (r, hush s)
    = apsnd (apsnd hush) (encoder_start_says loud_spawn (r, s))"
  by (simp add: encoder_start_update_thread_def encoder_start_says_def case_prod_beta
      quiet_spawn
      erased_worker_start [where part = Encoders and spawn = loud_spawn])

lemma quiet_imu_start:
  "imu_start_update_thread soft_spawn (r, hush s) = apsnd (apsnd hush) (imu_start_says loud_spawn (r, s))"
  by (simp add: imu_start_update_thread_def imu_start_says_def case_prod_beta
      quiet_spawn
      erased_worker_start [where part = Imu and spawn = loud_spawn])

lemma quiet_motor_initialize:
  "motor_initialize soft soft_spawn (m, hush s)
    = map_option (apsnd (apsnd hush)) (motor_initialize_says loud loud_spawn (m, s))"
  using quiet_batches(1) [of MODE_FORCE "tell (Initializing Motors) s"]
  by (auto simp: motor_initialize_def motor_initialize_says_def quiet_batches(3) quiet_motor_start quiet_simps
      split: Option.bind_splits)

lemma quiet_encoder_initialize:
  "encoder_initialize soft soft_now soft_spawn (r, hush s)
    = map_option (apsnd (apsnd hush)) (encoder_initialize_says loud loud_now loud_spawn (r, s))"
  using quiet_read_encoders [of "tell (Initializing Encoders) s"]
  by (auto simp: encoder_initialize_def encoder_initialize_says_def quiet_encoder_start quiet_simps
      split: option.splits Option.bind_splits)

lemma quiet_imu_initialize:
  "imu_initialize soft soft_now soft_spawn (r, hush s)
    = map_option (apsnd (apsnd hush)) (imu_initialize_says loud loud_now loud_spawn (r, s))"
  using quiet_read_imu [of "tell (Initializing Imu) s"]
  by (auto simp: imu_initialize_def imu_initialize_says_def quiet_imu_start quiet_simps
      split: option.splits Option.bind_splits)

lemma quiet_zero_point:
  "calibrate_zero_point soft soft_now (r, hush s)
    = map_option (apsnd (apsnd hush)) (calibrate_zero_point_says loud loud_now (r, s))"
  using quiet_read_encoders [of "tell (Calibrating Encoders) s"]
  by (auto simp: calibrate_zero_point_def calibrate_zero_point_says_def quiet_simps
      split: option.splits Option.bind_splits)

lemma quiet_zero_orientation:
  "calibrate_zero_orientation soft soft_now (r, hush s)
    = map_option (apsnd (apsnd hush)) (calibrate_zero_orientation_says loud loud_now (r, s))"
  using quiet_read_imu [of "tell (Calibrating Imu) s"]
  by (auto simp: calibrate_zero_orientation_def calibrate_zero_orientation_says_def quiet_simps
      split: option.splits Option.bind_splits)

end

interpretation console: quiet_console "exchange_says os errno" "send_and_receive os"
    "link_now (on_console os)" "link_now os" "link_spawn (on_console os)" "link_spawn os" for os :: "'w os" and errno
  by unfold_locales (rule erased_spawn)

text \<open>The loops: what is behind the counter is erased.\<close>

lemma now_tell [simp]: "link_now (on_console os) (tell m s) = link_now (on_console os) s"
  by (simp add: link_now_def)

lemma erased_body:
  assumes "\<And>rs. update' (apsnd hush rs) = map_option (apsnd (apsnd hush)) (update rs)"
  shows "loop_body (\<lambda>rs. link_now os (snd rs)) (\<lambda>t rs. (fst rs, link_sleep os t (snd rs))) update' interval
      (n, apsnd hush rs)
    = map_option (apsnd (apsnd hush)) (loop_body_says part (\<lambda>rs. link_now (on_console os) (snd rs))
        (\<lambda>t rs. (fst rs, link_sleep (on_console os) t (snd rs))) update interval (n, rs))"
proof (cases "update rs")
  case (Some x)
  then obtain b r1 s1 where x: "update rs = Some (b, r1, s1)" by (cases x) auto
  show ?thesis
    by (cases "count_failure b n")
      (simp_all add: loop_body_def loop_body_says_def assms x Let_def erased_now
        erased_sleep [symmetric] snd_apsnd [of hush rs])
qed (simp add: loop_body_def loop_body_says_def assms)

lemma erased_loop:
  assumes "\<And>rs. update' (apsnd hush rs) = map_option (apsnd (apsnd hush)) (update rs)"
  shows "worker_loop (loop_body (\<lambda>rs. link_now os (snd rs)) (\<lambda>t rs. (fst rs, link_sleep os t (snd rs))) update' interval)
      loads (n, apsnd hush rs)
    = map_option (apsnd (apsnd (apsnd hush))) (worker_loop (loop_body_says part (\<lambda>rs. link_now (on_console os) (snd rs))
        (\<lambda>t rs. (fst rs, link_sleep (on_console os) t (snd rs))) update interval) loads (n, rs))"
proof (induction loads arbitrary: n rs)
  case (Cons l loads)
  let ?body = "loop_body_says part (\<lambda>rs. link_now (on_console os) (snd rs))
        (\<lambda>t rs. (fst rs, link_sleep (on_console os) t (snd rs))) update interval"
  note body = erased_body [of update' update os interval n rs part, OF assms]
  show ?case
  proof (cases "?body (n, rs)")
    case (Some x)
    then obtain n' r' s' where "?body (n, rs) = Some (n', r', s')" by (cases x) auto
    with body Cons.IH [of n' "(r', s')"] show ?thesis by simp
  qed (use body in simp)
qed simp

lemma erased_encoder_loop:
  "encoder_update_loop (send_and_receive os) (link_now os) (link_sleep os) loads (apsnd hush rs)
    = map_option (apsnd (apsnd (apsnd hush)))
        (encoder_loop_says (exchange_says os errno) (link_now (on_console os)) (link_sleep (on_console os)) loads rs)"
  unfolding encoder_update_loop_def encoder_loop_says_def fst_apsnd
  by (rule erased_loop) (rule console.quiet_encoder_update)

lemma erased_imu_loop:
  "imu_update_loop (send_and_receive os) (link_now os) (link_sleep os) loads (apsnd hush rs)
    = map_option (apsnd (apsnd (apsnd hush)))
        (imu_loop_says (exchange_says os errno) (link_now (on_console os)) (link_sleep (on_console os)) loads rs)"
  unfolding imu_update_loop_def imu_loop_says_def fst_apsnd
  by (rule erased_loop) (rule console.quiet_imu_update)

lemma erased_motor_loop:
  "status_update_loop (loop_body (\<lambda>ms. link_now os (snd ms)) (\<lambda>t ms. (fst ms, link_sleep os t (snd ms)))
      (motor_update_once (send_and_receive os) (link_now os)) (mcc_update_interval (mc_config (fst ms))))
      loads (0, apsnd hush ms)
    = map_option (apsnd (apsnd (apsnd hush)))
        (motor_loop_says (exchange_says os errno) (link_now (on_console os)) (link_sleep (on_console os)) loads ms)"
  unfolding motor_loop_says_def status_update_loop_eq
  by (rule erased_loop) (rule console.quiet_motor_update)

end
