(* ===== verification/Console_Sdk.thy ===== *)
theory Console_Sdk
  imports Console
begin

text \<open>
  What \<open>class GloveSDK\<close> (\<open>src/glove_sdk.cpp\<close>) prints: its operations on a console, over those of
  \<open>Console\<close>. First the operations, then the lemmas that with the messages left out they are the model's, and
  what is on the console after which outcome.
\<close>

section \<open>The unified thread\<close>

definition ensure_initialized_says :: "'w console sdk \<Rightarrow> bool \<times> 'w console sdk" where
  "ensure_initialized_says kw =
     (if \<not> sdk_initialized (fst kw) then (False, tell Sdk_Not_Initialized kw) else (True, kw))"

definition sdk_start_says :: "'w os \<Rightarrow> 'w console sdk \<Rightarrow> sdk_start_outcome \<times> 'w console sdk" where
  "sdk_start_says os kw =
     (let (ready, k, w) = ensure_initialized_says kw; t = sdk_worker k in
      if \<not> ready then (Not_Initialized, tell Cannot_Start (k, w))
      else if thread_running t then (Tried Already_Running, tell Thread_Already_Running (k, w))
      else
        let t = t\<lparr>thread_running := True\<rparr>;
            (ok, w) = os_thread_create (on_console os) w
        in if \<not> ok then (Tried Throws_System_Error, k\<lparr>sdk_worker := t\<rparr>, w)
           else if thread_joinable t then (Tried Terminates, k\<lparr>sdk_worker := t\<rparr>, w)
           else (Tried Started, tell (Thread_Started Sdk) (k\<lparr>sdk_worker := t\<lparr>thread_joinable := True\<rparr>\<rparr>, w)))"

definition sdk_stop_says :: "'w console sdk \<Rightarrow> 'w console sdk" where
  "sdk_stop_says kw =
     (let (k, w) = kw; (t, k, w) = worker_stop_says Sdk (sdk_worker k, k, w) in (k\<lparr>sdk_worker := t\<rparr>, w))"

definition motor_segment_says :: "'w os \<Rightarrow> ('w \<Rightarrow> errno) \<Rightarrow> 'w console sdk \<Rightarrow> 'w console sdk ub" where
  "motor_segment_says os errno kw =
     (if sdk_motor_controller (fst kw) = None then Some kw
      else map_option snd (via_motor (motor_update_once (exchange_says os errno) (link_now (on_console os))) kw))"

definition encoder_segment_says :: "'w os \<Rightarrow> ('w \<Rightarrow> errno) \<Rightarrow> 'w console sdk \<Rightarrow> 'w console sdk ub" where
  "encoder_segment_says os errno kw =
     (if sdk_encoder_reader (fst kw) = None then Some kw
      else map_option snd
        (via_encoder (encoder_update_once (exchange_says os errno) (link_now (on_console os))) kw))"

definition imu_segment_says :: "'w os \<Rightarrow> ('w \<Rightarrow> errno) \<Rightarrow> 'w console sdk \<Rightarrow> 'w console sdk ub" where
  "imu_segment_says os errno kw =
     (if sdk_imu_reader (fst kw) = None then Some kw
      else map_option snd (via_imu (imu_update_once (exchange_says os errno) (link_now (on_console os))) kw))"

text \<open>A round that took more than ten milliseconds longer than the interval is reported, in milliseconds.\<close>

definition sleep_rest_says :: "'w os \<Rightarrow> time \<Rightarrow> 'w console sdk \<Rightarrow> 'w console sdk" where
  "sleep_rest_says os start kw =
     (let (k, w) = kw;
          elapsed = os_now (on_console os) w - start;
          sleep_time = gc_update_interval (sdk_config k) * 1000000 - elapsed;
          w = (if sleep_time < - (10 * 1000000) then say (Overrun ((- sleep_time) sdiv 1000000)) w else w)
      in (k, if sleep_time > 1000000 then os_sleep (on_console os) sleep_time w else w))"

fun unified_loop_says ::
  "'w os \<Rightarrow> ('w \<Rightarrow> errno) \<Rightarrow> segment \<Rightarrow> bool list \<Rightarrow> 'w console sdk \<Rightarrow> (bool \<times> 'w console sdk) ub" where
  "unified_loop_says os errno seg [] kw = Some (False, kw)"
| "unified_loop_says os errno seg (running # loads) kw =
     (if \<not> running then Some (True, kw)
      else case seg of
        Motor_Segment \<Rightarrow>
          let start_time = os_now (on_console os) (snd kw)
          in do {
            kw \<leftarrow> motor_segment_says os errno kw;
            unified_loop_says os errno (Encoder_Segment start_time) loads kw }
      | Encoder_Segment start_time \<Rightarrow>
          do {
            kw \<leftarrow> encoder_segment_says os errno kw;
            unified_loop_says os errno (Imu_Segment start_time) loads kw }
      | Imu_Segment start_time \<Rightarrow>
          do {
            kw \<leftarrow> imu_segment_says os errno kw;
            unified_loop_says os errno Motor_Segment loads (sleep_rest_says os start_time kw) })"

section \<open>Initialisation and shutdown\<close>

text \<open>The destructors of the components stop their threads, and say so when one was running.\<close>

definition destroy_says :: "part \<Rightarrow> worker \<Rightarrow> 'w console \<Rightarrow> 'w console" where
  "destroy_says part t w = snd (snd (worker_stop_says part (t, (), w)))"

definition cleanup_says :: "'w os \<Rightarrow> 'w console sdk \<Rightarrow> 'w console sdk" where
  "cleanup_says os kw =
     (let (k, w) = kw;
          w = (case sdk_imu_reader k of None \<Rightarrow> w | Some r \<Rightarrow> destroy_says Imu (ir_worker r) w);
          k = k\<lparr>sdk_imu_reader := None\<rparr>;
          w = (case sdk_encoder_reader k of None \<Rightarrow> w | Some r \<Rightarrow> destroy_says Encoders (er_worker r) w);
          k = k\<lparr>sdk_encoder_reader := None\<rparr>;
          w = (case sdk_motor_controller k of None \<Rightarrow> w | Some m \<Rightarrow> destroy_says Motors (mc_worker m) w);
          k = k\<lparr>sdk_motor_controller := None\<rparr>
      in case sdk_udp_client k of
           None \<Rightarrow> (k, w)
         | Some c \<Rightarrow> let (c, w) = disconnect (on_console os) (c, w) in (k\<lparr>sdk_udp_client := None\<rparr>, w))"

text \<open>What \<open>initialize\<close> makes of a start: an exception or a termination, or it goes on and returns true.\<close>

fun after_sdk_start :: "sdk_start_outcome \<Rightarrow> start_outcome + bool" where
  "after_sdk_start (Tried Throws_System_Error) = Inl Throws_System_Error"
| "after_sdk_start (Tried Terminates) = Inl Terminates"
| "after_sdk_start _ = Inr True"

definition init_imu_says ::
  "'w os \<Rightarrow> ('w \<Rightarrow> errno) \<Rightarrow> 'w console sdk \<Rightarrow> ((start_outcome + bool) \<times> 'w console sdk) ub" where
  "init_imu_says os errno kw = do {
     let (k, w) = kw;
     let reader = ImuReader_new (ImuReaderConfig_default\<lparr>irc_auto_start_thread := False\<rparr>)
           (os_now (on_console os) w);
     let k = k\<lparr>sdk_imu_reader := Some reader\<rparr>;
     (r, kw) \<leftarrow> via_imu (imu_initialize_says (exchange_says os errno) (link_now (on_console os))
       (link_spawn (on_console os))) (k, w);
     case r of
       Inl e \<Rightarrow> Some (Inl e, kw)
     | Inr False \<Rightarrow> Some (Inr False, cleanup_says os (tell (Component_Failed Imu) kw))
     | Inr True \<Rightarrow>
         (let (k, w) = kw;
              k = k\<lparr>sdk_initialized := True\<rparr>;
              kw = tell (Initialization_Complete Sdk) (k, w) in
          if gc_auto_start_thread (sdk_config k) then
            let (r, kw) = sdk_start_says os kw in Some (after_sdk_start r, kw)
          else Some (Inr True, kw)) }"

definition init_encoder_says ::
  "'w os \<Rightarrow> ('w \<Rightarrow> errno) \<Rightarrow> 'w console sdk \<Rightarrow> ((start_outcome + bool) \<times> 'w console sdk) ub" where
  "init_encoder_says os errno kw = do {
     let (k, w) = kw;
     let reader = EncoderReader_new (EncoderReaderConfig_default\<lparr>erc_auto_start_thread := False\<rparr>)
           (os_now (on_console os) w);
     let k = k\<lparr>sdk_encoder_reader := Some reader\<rparr>;
     (r, kw) \<leftarrow> via_encoder (encoder_initialize_says (exchange_says os errno) (link_now (on_console os))
       (link_spawn (on_console os))) (k, w);
     case r of
       Inl e \<Rightarrow> Some (Inl e, kw)
     | Inr False \<Rightarrow> Some (Inr False, cleanup_says os (tell (Component_Failed Encoders) kw))
     | Inr True \<Rightarrow> init_imu_says os errno kw }"

definition init_motor_says ::
  "'w os \<Rightarrow> ('w \<Rightarrow> errno) \<Rightarrow> 'w console sdk \<Rightarrow> ((start_outcome + bool) \<times> 'w console sdk) ub" where
  "init_motor_says os errno kw = do {
     let (k, w) = kw;
     let controller = MotorController_new (MotorControllerConfig_default\<lparr>mcc_auto_start_thread := False\<rparr>)
           (os_now (on_console os) w);
     let k = k\<lparr>sdk_motor_controller := Some controller\<rparr>;
     (r, kw) \<leftarrow> via_motor (motor_initialize_says (exchange_says os errno) (link_spawn (on_console os))) (k, w);
     case r of
       Inl e \<Rightarrow> Some (Inl e, kw)
     | Inr False \<Rightarrow> Some (Inr False, cleanup_says os (tell (Component_Failed Motors) kw))
     | Inr True \<Rightarrow> init_encoder_says os errno kw }"

definition sdk_initialize_says ::
  "'w os \<Rightarrow> ('w \<Rightarrow> errno) \<Rightarrow> 'w console sdk \<Rightarrow> ((start_outcome + bool) \<times> 'w console sdk) ub" where
  "sdk_initialize_says os errno kw =
     (if sdk_initialized (fst kw) then Some (Inr True, tell Already_Initialized kw)
      else
        let (k, w) = tell (Initializing Sdk) kw;
            client = UdpClient_new (sdk_udp_config (sdk_config k));
            (ok, client, w) = connect_says os errno (client, w);
            k = k\<lparr>sdk_udp_client := Some client\<rparr>
        in if \<not> ok then Some (Inr False, cleanup_says os (tell Connection_Failed (k, w)))
           else init_motor_says os errno (k, w))"

definition sdk_shutdown_says :: "'w os \<Rightarrow> 'w console sdk \<Rightarrow> 'w console sdk" where
  "sdk_shutdown_says os kw =
     (if \<not> sdk_initialized (fst kw) then kw
      else
        let (k, w) = sdk_stop_says (tell Shutting_Down kw);
            k = k\<lparr>sdk_initialized := False\<rparr>
        in tell Shutdown_Complete (cleanup_says os (k, w)))"

section \<open>Convenience methods\<close>

definition motor_command_says ::
  "('w console link \<Rightarrow> (bool \<times> 'w console link) ub) \<Rightarrow> 'w console sdk \<Rightarrow> (bool \<times> 'w console sdk) ub" where
  "motor_command_says f kw =
     (let (ready, kw) = ensure_initialized_says kw in
      if \<not> ready then Some (False, kw)
      else via_motor (\<lambda>(m, s). do { (ok, s) \<leftarrow> f s; Some (ok, m, s) }) kw)"

text \<open>The seven commands of the class.\<close>

datatype command =
    Motor_Mode u8 u8 | All_Modes u8 | Motor_Position u8 u16 | Motor_Force u8 u16 | Motor_Speed u8 u16 u16
  | All_Positions "u16 list" | All_Forces "u16 list"

fun run_command :: "'w os \<Rightarrow> command \<Rightarrow> 'w sdk \<Rightarrow> (bool \<times> 'w sdk) ub" where
  "run_command os (Motor_Mode i m) = sdk_set_motor_mode os i m"
| "run_command os (All_Modes m) = sdk_set_all_modes os m"
| "run_command os (Motor_Position i v) = sdk_set_motor_position os i v"
| "run_command os (Motor_Force i v) = sdk_set_motor_force os i v"
| "run_command os (Motor_Speed i v q) = sdk_set_motor_speed os i v q"
| "run_command os (All_Positions vs) = sdk_set_all_positions os vs"
| "run_command os (All_Forces vs) = sdk_set_all_forces os vs"

fun command_says ::
  "'w os \<Rightarrow> ('w \<Rightarrow> errno) \<Rightarrow> command \<Rightarrow> 'w console sdk \<Rightarrow> (bool \<times> 'w console sdk) ub" where
  "command_says os errno (Motor_Mode i m) = motor_command_says (set_motor_mode_says (exchange_says os errno) i m)"
| "command_says os errno (All_Modes m) = motor_command_says (set_all_modes_says (exchange_says os errno) m)"
| "command_says os errno (Motor_Position i v) =
     motor_command_says (set_motor_position_says (exchange_says os errno) i v)"
| "command_says os errno (Motor_Force i v) = motor_command_says (set_motor_force_says (exchange_says os errno) i v)"
| "command_says os errno (Motor_Speed i v q) =
     motor_command_says (set_motor_speed_says (exchange_says os errno) i v q)"
| "command_says os errno (All_Positions vs) =
     motor_command_says (set_all_positions_says (exchange_says os errno) vs)"
| "command_says os errno (All_Forces vs) = motor_command_says (set_all_forces_says (exchange_says os errno) vs)"

definition get_encoder_angles_says :: "'w console sdk \<Rightarrow> (f32 list \<times> 'w console sdk) ub" where
  "get_encoder_angles_says kw =
     (let (ready, kw) = ensure_initialized_says kw in
      if \<not> ready then Some (replicate NUM_ENCODER_CHANNELS 0, kw)
      else do { r \<leftarrow> sdk_encoder_reader (fst kw); angles \<leftarrow> get_cached_angles r; Some (angles, kw) })"

definition get_imu_orientation_says :: "'w console sdk \<Rightarrow> (ImuData \<times> 'w console sdk) ub" where
  "get_imu_orientation_says kw =
     (let (ready, kw) = ensure_initialized_says kw in
      if \<not> ready then Some (\<lparr>imu_roll = 0, imu_pitch = 0, imu_yaw = 0, imu_timestamp = 0\<rparr>, kw)
      else do { r \<leftarrow> sdk_imu_reader (fst kw); Some (imu_cached_data r, kw) })"

definition calibrate_encoders_says ::
  "'w os \<Rightarrow> ('w \<Rightarrow> errno) \<Rightarrow> 'w console sdk \<Rightarrow> (bool \<times> 'w console sdk) ub" where
  "calibrate_encoders_says os errno kw =
     (let (ready, kw) = ensure_initialized_says kw in
      if \<not> ready then Some (False, kw)
      else via_encoder (calibrate_zero_point_says (exchange_says os errno) (link_now (on_console os))) kw)"

definition calibrate_imu_says ::
  "'w os \<Rightarrow> ('w \<Rightarrow> errno) \<Rightarrow> 'w console sdk \<Rightarrow> (bool \<times> 'w console sdk) ub" where
  "calibrate_imu_says os errno kw =
     (let (ready, kw) = ensure_initialized_says kw in
      if \<not> ready then Some (False, kw)
      else via_imu (calibrate_zero_orientation_says (exchange_says os errno) (link_now (on_console os))) kw)"

definition calibrate_all_says ::
  "'w os \<Rightarrow> ('w \<Rightarrow> errno) \<Rightarrow> 'w console sdk \<Rightarrow> (bool \<times> 'w console sdk) ub" where
  "calibrate_all_says os errno kw =
     (let (ready, kw) = ensure_initialized_says kw in
      if \<not> ready then Some (False, kw)
      else do {
        let kw = tell Calibrating_All kw;
        (encoder_success, kw) \<leftarrow> calibrate_encoders_says os errno kw;
        (imu_success, kw) \<leftarrow> calibrate_imu_says os errno kw;
        let overall_success = (encoder_success \<and> imu_success);
        Some (overall_success,
          if overall_success then tell All_Calibrated kw
          else tell (Calibration_Failed encoder_success imu_success) kw) })"

section \<open>Leaving the messages out\<close>

lemma hush_pair: "hush (a, w) = (a, fst w)"
  by (simp add: hush_def)

lemma hush_sel [simp]: "fst (hush s) = fst s" "snd (hush s) = fst (snd s)"
  by (simp_all add: hush_def)

lemma erased_via_motor:
  assumes "\<And>m s. g (m, hush s) = map_option (apsnd (apsnd hush)) (f (m, s))"
  shows "via_motor g (hush kw) = map_option (apsnd hush) (via_motor f kw)"
proof -
  have "g (m, c, fst (snd kw)) = map_option (apsnd (apsnd hush)) (f (m, c, snd kw))" for m c
    using assms [of m "(c, snd kw)"] by (simp add: hush_pair)
  then show ?thesis
    by (cases kw) (auto simp: via_motor_def hush_pair split: option.splits Option.bind_splits)
qed

lemma erased_via_encoder:
  assumes "\<And>m s. g (m, hush s) = map_option (apsnd (apsnd hush)) (f (m, s))"
  shows "via_encoder g (hush kw) = map_option (apsnd hush) (via_encoder f kw)"
proof -
  have "g (m, c, fst (snd kw)) = map_option (apsnd (apsnd hush)) (f (m, c, snd kw))" for m c
    using assms [of m "(c, snd kw)"] by (simp add: hush_pair)
  then show ?thesis
    by (cases kw) (auto simp: via_encoder_def hush_pair split: option.splits Option.bind_splits)
qed

lemma erased_via_imu:
  assumes "\<And>m s. g (m, hush s) = map_option (apsnd (apsnd hush)) (f (m, s))"
  shows "via_imu g (hush kw) = map_option (apsnd hush) (via_imu f kw)"
proof -
  have "g (m, c, fst (snd kw)) = map_option (apsnd (apsnd hush)) (f (m, c, snd kw))" for m c
    using assms [of m "(c, snd kw)"] by (simp add: hush_pair)
  then show ?thesis
    by (cases kw) (auto simp: via_imu_def hush_pair split: option.splits Option.bind_splits)
qed

lemma erased_ready:
  "fst (ensure_initialized_says kw) = ensure_initialized (fst kw)" "hush (snd (ensure_initialized_says kw)) = hush kw"
  by (simp_all add: ensure_initialized_says_def ensure_initialized_def)

lemma erased_start: "sdk_start os (hush kw) = apsnd hush (sdk_start_says os kw)"
  by (cases kw) (simp add: sdk_start_def sdk_start_says_def ensure_initialized_says_def hush_def Let_def case_prod_beta)

lemma erased_stop: "apfst sdk_stop (hush kw) = hush (sdk_stop_says kw)"
  by (cases kw) (simp add: sdk_stop_def sdk_stop_says_def worker_stop_def worker_stop_says_def hush_def Let_def
      case_prod_beta)

lemma erased_motor_segment:
  "motor_segment os (hush kw) = map_option hush (motor_segment_says os errno kw)"
proof -
  let ?f = "motor_update_once (exchange_says os errno) (link_now (on_console os))"
  have "via_motor (motor_update_once (send_and_receive os) (link_now os)) (hush kw)
      = map_option (apsnd hush) (via_motor ?f kw)"
    by (rule erased_via_motor) (metis apsnd_conv console.quiet_motor_update)
  then show ?thesis by (simp add: motor_segment_def motor_segment_says_def option.map_comp o_def)
qed

lemma erased_encoder_segment:
  "encoder_segment os (hush kw) = map_option hush (encoder_segment_says os errno kw)"
proof -
  let ?f = "encoder_update_once (exchange_says os errno) (link_now (on_console os))"
  have "via_encoder (encoder_update_once (send_and_receive os) (link_now os)) (hush kw)
      = map_option (apsnd hush) (via_encoder ?f kw)"
    by (rule erased_via_encoder) (metis apsnd_conv console.quiet_encoder_update)
  then show ?thesis by (simp add: encoder_segment_def encoder_segment_says_def option.map_comp o_def)
qed

lemma erased_imu_segment:
  "imu_segment os (hush kw) = map_option hush (imu_segment_says os errno kw)"
proof -
  let ?f = "imu_update_once (exchange_says os errno) (link_now (on_console os))"
  have "via_imu (imu_update_once (send_and_receive os) (link_now os)) (hush kw)
      = map_option (apsnd hush) (via_imu ?f kw)"
    by (rule erased_via_imu) (metis apsnd_conv console.quiet_imu_update)
  then show ?thesis by (simp add: imu_segment_def imu_segment_says_def option.map_comp o_def)
qed

lemma erased_sleep_rest: "sleep_rest os t (hush kw) = hush (sleep_rest_says os t kw)"
  by (cases kw) (simp add: sleep_rest_def sleep_rest_says_def hush_def Let_def)

lemma erased_unified_loop:
  "unified_update_loop os seg loads (hush kw) = map_option (apsnd hush) (unified_loop_says os errno seg loads kw)"
proof (induction os errno seg loads kw rule: unified_loop_says.induct)
  case (2 os errno seg running loads kw)
  have [simp]: "os_now os (snd (hush kw)) = os_now os (fst (snd kw))" by (simp add: hush_def)
  show ?case using 2
    by (auto simp: erased_motor_segment [where errno = errno] erased_encoder_segment [where errno = errno]
        erased_imu_segment [where errno = errno] erased_sleep_rest Let_def Option.bind_map_option map_option_bind o_def
        intro!: Option.bind_cong split: segment.splits)
qed simp

lemma erased_destroy [simp]: "fst (destroy_says part t w) = fst w"
  by (simp add: destroy_says_def worker_stop_says_def Let_def)

lemma erased_cleanup: "cleanup_resources os (hush kw) = hush (cleanup_says os kw)"
  by (cases kw) (auto simp: cleanup_resources_def cleanup_says_def Let_def hush_def disconnect_eq split: option.split)

lemma erased_shutdown: "sdk_shutdown os (hush kw) = hush (sdk_shutdown_says os kw)"
proof -
  have "sdk_stop k = fst (sdk_stop_says (tell Shutting_Down (k, w)))"
    and "fst (snd (sdk_stop_says (tell Shutting_Down (k, w)))) = fst w" for k :: GloveSDK and w :: "'a console"
    using erased_stop [of "tell Shutting_Down (k, w)"] by (simp_all add: hush_def)
  then show ?thesis
    by (cases kw) (simp add: sdk_shutdown_def sdk_shutdown_says_def Let_def case_prod_beta hush_pair
        erased_cleanup [symmetric])
qed

lemma erased_auto_start:
  "fst (sdk_start_says os (tell m (k, w))) = fst (sdk_start os (k, fst w))"
  "hush (snd (sdk_start_says os (tell m (k, w)))) = snd (sdk_start os (k, fst w))"
  using erased_start [of os "tell m (k, w)"] by (simp_all add: hush_pair)

lemma erased_init_imu:
  "init_imu os (hush kw) = map_option (apsnd hush) (init_imu_says os errno kw)"
proof -
  let ?f = "imu_initialize_says (exchange_says os errno) (link_now (on_console os)) (link_spawn (on_console os))"
  have via: "via_imu (imu_initialize (send_and_receive os) (link_now os) (link_spawn os)) (hush kw)
      = map_option (apsnd hush) (via_imu ?f kw)" for kw
    by (rule erased_via_imu) (rule console.quiet_imu_initialize)
  show ?thesis
    using via [of "((fst kw)\<lparr>sdk_imu_reader := Some (ImuReader_new (ImuReaderConfig_default
        \<lparr>irc_auto_start_thread := False\<rparr>) (os_now os (fst (snd kw))))\<rparr>, snd kw)"]
    by (cases kw) (auto simp: init_imu_def init_imu_says_def Let_def hush_pair erased_cleanup [symmetric]
        erased_auto_start case_prod_beta
        split: Option.bind_splits sum.splits bool.splits sdk_start_outcome.splits start_outcome.splits)
qed

lemma erased_init_encoder:
  "init_encoder os (hush kw) = map_option (apsnd hush) (init_encoder_says os errno kw)"
proof -
  let ?f = "encoder_initialize_says (exchange_says os errno) (link_now (on_console os)) (link_spawn (on_console os))"
  have via: "via_encoder (encoder_initialize (send_and_receive os) (link_now os) (link_spawn os)) (hush kw)
      = map_option (apsnd hush) (via_encoder ?f kw)" for kw
    by (rule erased_via_encoder) (rule console.quiet_encoder_initialize)
  show ?thesis
    using via [of "((fst kw)\<lparr>sdk_encoder_reader := Some (EncoderReader_new (EncoderReaderConfig_default
        \<lparr>erc_auto_start_thread := False\<rparr>) (os_now os (fst (snd kw))))\<rparr>, snd kw)"]
    by (cases kw) (auto simp: init_encoder_def init_encoder_says_def Let_def hush_pair erased_cleanup [symmetric]
        erased_init_imu [symmetric] split: Option.bind_splits sum.splits bool.splits)
qed

lemma erased_init_motor:
  "init_motor os (hush kw) = map_option (apsnd hush) (init_motor_says os errno kw)"
proof -
  let ?f = "motor_initialize_says (exchange_says os errno) (link_spawn (on_console os))"
  have via: "via_motor (motor_initialize (send_and_receive os) (link_spawn os)) (hush kw)
      = map_option (apsnd hush) (via_motor ?f kw)" for kw
    by (rule erased_via_motor) (rule console.quiet_motor_initialize)
  show ?thesis
    using via [of "((fst kw)\<lparr>sdk_motor_controller := Some (MotorController_new (MotorControllerConfig_default
        \<lparr>mcc_auto_start_thread := False\<rparr>) (os_now os (fst (snd kw))))\<rparr>, snd kw)"]
    by (cases kw) (auto simp: init_motor_def init_motor_says_def Let_def hush_pair erased_cleanup [symmetric]
        erased_init_encoder [symmetric] split: Option.bind_splits sum.splits bool.splits)
qed

lemma erased_initialize:
  "sdk_initialize os (hush kw) = map_option (apsnd hush) (sdk_initialize_says os errno kw)"
proof -
  obtain k w l where kw: "kw = (k, w, l)" by (cases kw)
  have con: "connect os (c, w) = apsnd hush (connect_says os errno (c, w, l'))" for c l'
    using erased_connect [of os "(c, w, l')"] by (simp add: hush_pair)
  show ?thesis
    by (simp add: kw sdk_initialize_def sdk_initialize_says_def tell_def say_def con [of _ "l @ [Initializing Sdk]"]
        Let_def case_prod_beta hush_pair erased_cleanup [symmetric] erased_init_motor [symmetric])
qed

lemma erased_motor_command:
  assumes "\<And>s. g (hush s) = map_option (apsnd hush) (f s)"
  shows "motor_command g (hush kw) = map_option (apsnd hush) (motor_command_says f kw)"
proof -
  have "via_motor (\<lambda>(m, s). do { (ok, s) \<leftarrow> g s; Some (ok, m, s) }) (hush kw)
      = map_option (apsnd hush) (via_motor (\<lambda>(m, s). do { (ok, s) \<leftarrow> f s; Some (ok, m, s) }) kw)"
    by (rule erased_via_motor) (simp add: assms case_prod_beta o_def map_option_bind Option.bind_map_option)
  then show ?thesis
    by (simp add: motor_command_def motor_command_says_def ensure_initialized_def ensure_initialized_says_def)
qed

lemma erased_command: "run_command os cmd (hush kw) = map_option (apsnd hush) (command_says os errno cmd kw)"
  by (cases cmd) (simp_all add: sdk_set_motor_mode_def sdk_set_all_modes_def sdk_set_motor_position_def
      sdk_set_motor_force_def sdk_set_motor_speed_def sdk_set_all_positions_def sdk_set_all_forces_def
      erased_motor_command console.quiet_commands console.quiet_batches)

lemma erased_calibrate_encoders:
  "calibrate_encoders os (hush kw) = map_option (apsnd hush) (calibrate_encoders_says os errno kw)"
proof -
  let ?f = "calibrate_zero_point_says (exchange_says os errno) (link_now (on_console os))"
  have "via_encoder (calibrate_zero_point (send_and_receive os) (link_now os)) (hush kw)
      = map_option (apsnd hush) (via_encoder ?f kw)"
    by (rule erased_via_encoder) (rule console.quiet_zero_point)
  then show ?thesis
    by (simp add: calibrate_encoders_def calibrate_encoders_says_def ensure_initialized_def
        ensure_initialized_says_def)
qed

lemma erased_calibrate_imu:
  "calibrate_imu os (hush kw) = map_option (apsnd hush) (calibrate_imu_says os errno kw)"
proof -
  let ?f = "calibrate_zero_orientation_says (exchange_says os errno) (link_now (on_console os))"
  have "via_imu (calibrate_zero_orientation (send_and_receive os) (link_now os)) (hush kw)
      = map_option (apsnd hush) (via_imu ?f kw)"
    by (rule erased_via_imu) (rule console.quiet_zero_orientation)
  then show ?thesis
    by (simp add: calibrate_imu_def calibrate_imu_says_def ensure_initialized_def ensure_initialized_says_def)
qed

lemma erased_calibrate_all:
  "calibrate_all os (hush kw) = map_option (apsnd hush) (calibrate_all_says os errno kw)"
  using erased_calibrate_encoders [of os "tell Calibrating_All kw" errno]
  by (cases "calibrate_encoders_says os errno (tell Calibrating_All kw)")
    (auto simp: calibrate_all_def calibrate_all_says_def ensure_initialized_def ensure_initialized_says_def
      erased_calibrate_imu [where errno = errno] case_prod_beta o_def map_option_bind Option.bind_map_option Let_def
      split: Option.bind_splits)

section \<open>What an operation leaves on the console\<close>

text \<open>An exchange: nothing when it returns a response, and only error messages otherwise.\<close>

lemma send_says_lines:
  assumes "send_packet_says os errno p s = (b, s')"
  shows "\<exists>ms. lines s' = lines s @ ms \<and> (\<forall>m \<in> set ms. \<not> on_cout m) \<and> (b \<longleftrightarrow> ms = [])"
  using assms by (cases s) (auto simp: send_packet_says_def Let_def case_prod_beta split: if_splits errno.splits)

lemma receive_says_lines:
  assumes "receive_packet_says os errno s = Some (r, s')"
  shows "\<exists>ms. lines s' = lines s @ ms \<and> (\<forall>m \<in> set ms. \<not> on_cout m) \<and> (r \<noteq> None \<longrightarrow> ms = [])"
  using assms by (cases s) (auto simp: receive_packet_says_def Let_def case_prod_beta Option.bind_eq_Some_conv
      split: if_splits recv_result.splits option.splits)

lemma exchange_says_lines:
  assumes "exchange_says os errno p s = Some (r, s')"
  shows "\<exists>ms. lines s' = lines s @ ms \<and> (\<forall>m \<in> set ms. \<not> on_cout m) \<and> (r \<noteq> None \<longrightarrow> ms = [])"
proof -
  obtain b s1 where send: "send_packet_says os errno p s = (b, s1)"
    by (cases "send_packet_says os errno p s")
  from send_says_lines [OF send] obtain ms where ms: "lines s1 = lines s @ ms" "\<forall>m \<in> set ms. \<not> on_cout m"
    "b \<longleftrightarrow> ms = []" by blast
  show ?thesis
  proof (cases b)
    case True
    with assms send have "receive_packet_says os errno s1 = Some (r, s')" by (simp add: exchange_says_def)
    from receive_says_lines [OF this] ms True show ?thesis by auto
  qed (use assms send ms in \<open>auto simp: exchange_says_def\<close>)
qed

text \<open>A command that reports success prints nothing; one that reports failure prints error messages.\<close>

definition outspoken :: "('a \<times> 'w console \<Rightarrow> (bool \<times> 'a \<times> 'w console) ub) \<Rightarrow> bool" where
  "outspoken f \<longleftrightarrow> (\<forall>s ok s'. f s = Some (ok, s') \<longrightarrow>
     (\<exists>ms. lines s' = lines s @ ms \<and> (\<forall>m \<in> set ms. \<not> on_cout m) \<and> (ok \<longleftrightarrow> ms = [])))"

lemma outspokenD:
  assumes "outspoken f" and "f s = Some (ok, s')"
  obtains ms where "lines s' = lines s @ ms" and "\<forall>m \<in> set ms. \<not> on_cout m" and "ok \<longleftrightarrow> ms = []"
  using assms unfolding outspoken_def by blast

lemma outspoken_refusal:
  assumes "\<not> on_cout m"
  shows "outspoken (\<lambda>s. Some (False, tell m s))"
  unfolding outspoken_def
proof (intro allI impI)
  fix s ok s'
  assume "Some (False, tell m s) = Some (ok, s')"
  then have "ok = False" and "s' = tell m s" by blast+
  with assms show "\<exists>ms. lines s' = lines s @ ms \<and> (\<forall>m \<in> set ms. \<not> on_cout m) \<and> (ok \<longleftrightarrow> ms = [])"
    by simp
qed

lemma outspoken_if: "outspoken f \<Longrightarrow> outspoken g \<Longrightarrow> outspoken (\<lambda>s. if b then f s else g s)"
  by (cases b) simp_all

lemma outspoken_exchange:
  assumes "\<not> on_cout m"
  shows "outspoken (\<lambda>s. do { (response, s) \<leftarrow> exchange_says os errno packet s;
    if response = None then Some (False, tell m s) else Some (True, s) })"
  unfolding outspoken_def
proof (intro allI impI)
  fix s ok s'
  assume "do { (response, s) \<leftarrow> exchange_says os errno packet s;
    if response = None then Some (False, tell m s) else Some (True, s) } = Some (ok, s')"
  then obtain r s1 where x: "exchange_says os errno packet s = Some (r, s1)"
    and s': "if r = None then ok = False \<and> s' = tell m s1 else ok = True \<and> s' = s1"
    by (auto simp: Option.bind_eq_Some_conv split: if_splits)
  from exchange_says_lines [OF x] s' assms
  show "\<exists>ms. lines s' = lines s @ ms \<and> (\<forall>m \<in> set ms. \<not> on_cout m) \<and> (ok \<longleftrightarrow> ms = [])"
    by (auto split: if_splits)
qed

lemma outspoken_commands:
  "outspoken (set_motor_mode_says (exchange_says os errno) i m)"
  "outspoken (set_motor_position_says (exchange_says os errno) i v)"
  "outspoken (set_motor_force_says (exchange_says os errno) i v)"
  "outspoken (set_motor_speed_says (exchange_says os errno) i v q)"
  unfolding set_motor_mode_says_def [abs_def] set_motor_position_says_def [abs_def]
    set_motor_force_says_def [abs_def] set_motor_speed_says_def [abs_def] encode_as_request Option.bind_lunit
  by ((rule outspoken_if outspoken_refusal outspoken_exchange | simp)+)

lemma outspoken_run_all:
  assumes "\<And>k. outspoken (f k)" and "run_all f ks b s = Some (ok, s')"
  shows "\<exists>ms. lines s' = lines s @ ms \<and> (\<forall>m \<in> set ms. \<not> on_cout m) \<and> (ok \<longleftrightarrow> b \<and> ms = [])"
  using assms(2)
proof (induction ks arbitrary: b s)
  case (Cons k ks)
  then obtain ok1 s1 where f: "f k s = Some (ok1, s1)" and rest: "run_all f ks (ok1 \<and> b) s1 = Some (ok, s')"
    by (auto simp: Option.bind_eq_Some_conv split: if_splits)
  from outspokenD [OF assms(1) f] obtain ms where ms: "lines s1 = lines s @ ms" "\<forall>m \<in> set ms. \<not> on_cout m"
    "ok1 \<longleftrightarrow> ms = []" .
  from Cons.IH [OF rest] obtain ns where ns: "lines s' = lines s1 @ ns" "\<forall>m \<in> set ns. \<not> on_cout m"
    "ok \<longleftrightarrow> (ok1 \<and> b) \<and> ns = []" by blast
  show ?case using ms ns by (intro exI [of _ "ms @ ns"]) auto
qed simp

lemma outspoken_batches:
  "outspoken (set_all_modes_says (exchange_says os errno) m)"
  "outspoken (set_all_positions_says (exchange_says os errno) vs)"
  "outspoken (set_all_forces_says (exchange_says os errno) vs)"
proof -
  have rd: "outspoken (\<lambda>s. do { v \<leftarrow> rd vs i; f v s })"
    if "\<And>v. outspoken (f v)" for i and f :: "u16 \<Rightarrow> UdpClient \<times> 'a console \<Rightarrow> (bool \<times> UdpClient \<times> 'a console) ub"
    using that by (cases "rd vs i") (auto simp: outspoken_def)
  have all: "outspoken (run_all f ks True)"
    if "\<And>k. outspoken (f k)" for ks and f :: "'k \<Rightarrow> UdpClient \<times> 'a console \<Rightarrow> (bool \<times> UdpClient \<times> 'a console) ub"
    unfolding outspoken_def using outspoken_run_all [OF that, where ks = ks and b = True] by simp
  show "outspoken (set_all_modes_says (exchange_says os errno) m)"
    "outspoken (set_all_positions_says (exchange_says os errno) vs)"
    "outspoken (set_all_forces_says (exchange_says os errno) vs)"
    unfolding set_all_modes_says_def [abs_def] set_all_positions_says_def [abs_def] set_all_forces_says_def [abs_def]
      Let_def
    by (rule all, rule outspoken_commands, rule all, rule rd, rule outspoken_commands,
        rule all, rule rd, rule outspoken_commands)
qed

text \<open>The initialisation of a component: what it announces, and that it finished or what went wrong.\<close>

definition announced :: "part \<Rightarrow> start_outcome + bool \<Rightarrow> message list \<Rightarrow> bool" where
  "announced part r new \<longleftrightarrow>
     r = Inr True \<and> new = [Initializing part, Initialization_Complete part]
   \<or> r = Inr False \<and> (\<exists>ms. new = Initializing part # ms \<and> (\<forall>m \<in> set ms. \<not> on_cout m))"

lemma announced_cases:
  assumes "announced part r new"
  obtains "r = Inr True" "filter on_cout new = [Initializing part, Initialization_Complete part]"
      "\<forall>m \<in> set new. on_cout m"
    | "r = Inr False" "filter on_cout new = [Initializing part]"
  using assms by (auto simp: announced_def filter_empty_conv)

lemma read_encoders_lines:
  assumes "read_encoders (exchange_says os errno) now s = Some (d, s')"
  shows "\<exists>ms. lines s' = lines s @ ms \<and> (\<forall>m \<in> set ms. \<not> on_cout m) \<and> (d \<noteq> None \<longrightarrow> ms = [])"
proof -
  obtain r where "exchange_says os errno (plain_packet TARGET_ENCODER [0xFF, 0xFF]) s = Some (r, s')"
    and "d \<noteq> None \<longrightarrow> r \<noteq> None"
    using assms by (auto simp: read_encoders_eq Option.bind_eq_Some_conv split: option.splits)
  then show ?thesis using exchange_says_lines by blast
qed

lemma read_imu_lines:
  assumes "read_imu (exchange_says os errno) now s = Some (d, s')"
  shows "\<exists>ms. lines s' = lines s @ ms \<and> (\<forall>m \<in> set ms. \<not> on_cout m) \<and> (d \<noteq> None \<longrightarrow> ms = [])"
proof -
  obtain r where "exchange_says os errno (plain_packet TARGET_IMU []) s = Some (r, s')"
    and "d \<noteq> None \<longrightarrow> r \<noteq> None"
    using assms by (auto simp: read_imu_eq Option.bind_eq_Some_conv split: option.splits)
  then show ?thesis using exchange_says_lines by blast
qed

lemma encoder_initialize_lines:
  assumes "encoder_initialize_says (exchange_says os errno) now spawn (r, s) = Some (res, r', s')"
    and "\<not> erc_auto_start_thread (er_config r)"
  shows "er_worker r' = er_worker r \<and> (\<exists>new. lines s' = lines s @ new \<and> announced Encoders res new)"
proof -
  obtain d s1 where read: "read_encoders (exchange_says os errno) now (tell (Initializing Encoders) s) = Some (d, s1)"
    and out: "(res, r', s') = (case d of None \<Rightarrow> (Inr False, r, tell (No_Initial_Data Encoders) s1)
      | Some d \<Rightarrow> (Inr True, r\<lparr>er_cached_data := d\<rparr>, tell (Initialization_Complete Encoders) s1))"
    using assms by (auto simp: encoder_initialize_says_def Let_def complete_says_def Option.bind_eq_Some_conv
        split: option.splits)
  from read_encoders_lines [OF read] out show ?thesis
    by (auto simp: announced_def split: option.splits)
qed

lemma imu_initialize_lines:
  assumes "imu_initialize_says (exchange_says os errno) now spawn (r, s) = Some (res, r', s')"
    and "\<not> irc_auto_start_thread (ir_config r)"
  shows "ir_worker r' = ir_worker r \<and> (\<exists>new. lines s' = lines s @ new \<and> announced Imu res new)"
proof -
  obtain d s1 where read: "read_imu (exchange_says os errno) now (tell (Initializing Imu) s) = Some (d, s1)"
    and out: "(res, r', s') = (case d of None \<Rightarrow> (Inr False, r, tell (No_Initial_Data Imu) s1)
      | Some d \<Rightarrow> (Inr True, r\<lparr>ir_cached_data := imu_apply_calibration r d\<rparr>,
          tell (Initialization_Complete Imu) s1))"
    using assms by (auto simp: imu_initialize_says_def Let_def complete_says_def Option.bind_eq_Some_conv
        split: option.splits)
  from read_imu_lines [OF read] out show ?thesis
    by (auto simp: announced_def split: option.splits)
qed

lemma motor_initialize_lines:
  assumes "motor_initialize_says (exchange_says os errno) spawn (m, s) = Some (res, m', s')"
    and "\<not> mcc_auto_start_thread (mc_config m)"
  shows "mc_worker m' = mc_worker m \<and> (\<exists>new. lines s' = lines s @ new \<and> announced Motors res new)"
proof -
  note init = assms(1) [unfolded motor_initialize_says_def Let_def complete_says_def]
  obtain ok s1 where modes: "set_all_modes_says (exchange_says os errno) MODE_FORCE (tell (Initializing Motors) s)
      = Some (ok, s1)"
    using init by (auto simp: Option.bind_eq_Some_conv)
  obtain ms where ms: "lines s1 = lines s @ Initializing Motors # ms" "\<forall>m \<in> set ms. \<not> on_cout m" "ok \<longleftrightarrow> ms = []"
    using outspokenD [OF outspoken_batches(1) modes] by auto
  show ?thesis
  proof (cases ok)
    case True
    obtain ok' s2 where forces: "set_all_forces_says (exchange_says os errno) (replicate NUM_MOTORS 10) s1
        = Some (ok', s2)"
      using init modes True by (auto simp: Option.bind_eq_Some_conv)
    have out: "(res, m', s') = (if ok' then (Inr True, m, tell (Initialization_Complete Motors) s2)
        else (Inr False, m, tell Initial_Forces_Failed s2))"
      using init modes forces True assms(2) by (simp split: if_splits)
    obtain ns where "lines s2 = lines s1 @ ns" "\<forall>m \<in> set ns. \<not> on_cout m" "ok' \<longleftrightarrow> ns = []"
      using outspokenD [OF outspoken_batches(3) forces] .
    with ms True out show ?thesis by (auto simp: announced_def split: if_splits)
  qed (use init modes ms in \<open>auto simp: announced_def\<close>)
qed

lemma connect_says_lines:
  assumes "connect_says os errno (c, w) = (ok, c', w')" and "\<not> uc_connected c"
  shows "\<exists>new. snd w' = snd w @ new
    \<and> filter on_cout new = (if ok then [Connected_To (cfg_server_ip (uc_config c)) (cfg_server_port (uc_config c))] else [])
    \<and> (ok \<longrightarrow> (\<forall>m \<in> set new. on_cout m \<or> (\<exists>e. m = Reuseaddr_Failed e)))"
  using assms by (auto simp: connect_says_def configure_socket_says_def bind_local_port_says_def
      set_socket_timeout_says_def abandon_socket_def Let_def case_prod_beta split: if_splits option.splits)

text \<open>
  What a successful initialisation announces, in order; and what the console holds after an initialisation, by how
  it ended. The code cannot report every failure of \<open>initialize\<close>: when the thread cannot be created
  the last line is that the initialisation is complete.
\<close>

definition startup :: "GloveConfig \<Rightarrow> message list" where
  "startup cfg = [Initializing Sdk, Connected_To (gc_server_ip cfg) (gc_server_port cfg),
     Initializing Motors, Initialization_Complete Motors, Initializing Encoders, Initialization_Complete Encoders,
     Initializing Imu, Initialization_Complete Imu, Initialization_Complete Sdk]"

definition gave_up :: "GloveConfig \<Rightarrow> nat \<Rightarrow> message \<Rightarrow> message list \<Rightarrow> bool" where
  "gave_up cfg n why new \<longleftrightarrow> filter on_cout new = take n (startup cfg) \<and> last new = why"

definition initialize_log :: "GloveConfig \<Rightarrow> start_outcome + bool \<Rightarrow> message list \<Rightarrow> bool" where
  "initialize_log cfg r new \<longleftrightarrow> (case r of
     Inr True \<Rightarrow> filter on_cout new = startup cfg @ (if gc_auto_start_thread cfg then [Thread_Started Sdk] else [])
       \<and> (\<forall>m \<in> set new. on_cout m \<or> (\<exists>e. m = Reuseaddr_Failed e))
   | Inr False \<Rightarrow> gave_up cfg 1 Connection_Failed new \<or> gave_up cfg 3 (Component_Failed Motors) new
       \<or> gave_up cfg 5 (Component_Failed Encoders) new \<or> gave_up cfg 7 (Component_Failed Imu) new
   | Inl e \<Rightarrow> filter on_cout new = startup cfg)"

definition on_track :: "GloveConfig \<Rightarrow> nat \<Rightarrow> message list \<Rightarrow> bool" where
  "on_track cfg n new \<longleftrightarrow> filter on_cout new = take n (startup cfg)
     \<and> (\<forall>m \<in> set new. on_cout m \<or> (\<exists>e. m = Reuseaddr_Failed e))"

text \<open>No thread of a component is running: destroying the components prints nothing.\<close>

definition idle :: "GloveSDK \<Rightarrow> bool" where
  "idle k \<longleftrightarrow> (\<forall>m. sdk_motor_controller k = Some m \<longrightarrow> \<not> thread_running (mc_worker m))
     \<and> (\<forall>r. sdk_encoder_reader k = Some r \<longrightarrow> \<not> thread_running (er_worker r))
     \<and> (\<forall>r. sdk_imu_reader k = Some r \<longrightarrow> \<not> thread_running (ir_worker r))"

lemma cleanup_lines: "idle (fst kw) \<Longrightarrow> lines (cleanup_says os kw) = lines kw"
  by (cases kw) (auto simp: idle_def cleanup_says_def destroy_says_def worker_stop_says_def disconnect_eq Let_def
      split: option.splits)

text \<open>The stage of a component, which begins after \<open>n\<close> announcements: it failed, or the next one begins.\<close>

definition begins_at :: "part \<Rightarrow> nat \<Rightarrow> bool" where
  "begins_at part n \<longleftrightarrow> (part, n) \<in> {(Motors, 2), (Encoders, 4), (Imu, 6)}"

lemma stage_failed:
  assumes "lines kw = l @ pre @ new" and "idle (fst kw)" and "on_track cfg n pre" and "begins_at part n"
    and "filter on_cout new = [Initializing part]"
  shows "\<exists>new. lines (cleanup_says os (tell (Component_Failed part) kw)) = l @ new \<and> initialize_log cfg (Inr False) new"
  using assms cleanup_lines [of "tell (Component_Failed part) kw" os]
  by (auto simp: begins_at_def initialize_log_def gave_up_def on_track_def startup_def)

lemma stage_passed:
  assumes "on_track cfg n pre" and "begins_at part n"
    and "filter on_cout new = [Initializing part, Initialization_Complete part]" and "\<forall>m \<in> set new. on_cout m"
  shows "on_track cfg (n + 2) (pre @ new)"
  using assms by (auto simp: begins_at_def on_track_def startup_def)

lemma via_motor_lines:
  assumes "via_motor f (k, w) = Some (a, kw')"
  obtains m c m' c' w' where "sdk_motor_controller k = Some m" and "sdk_udp_client k = Some c"
    and "f (m, c, w) = Some (a, m', c', w')"
    and "kw' = (k\<lparr>sdk_motor_controller := Some m', sdk_udp_client := Some c'\<rparr>, w')"
  using assms by (auto simp: via_motor_def Option.bind_eq_Some_conv)

lemma via_encoder_lines:
  assumes "via_encoder f (k, w) = Some (a, kw')"
  obtains m c m' c' w' where "sdk_encoder_reader k = Some m" and "sdk_udp_client k = Some c"
    and "f (m, c, w) = Some (a, m', c', w')"
    and "kw' = (k\<lparr>sdk_encoder_reader := Some m', sdk_udp_client := Some c'\<rparr>, w')"
  using assms by (auto simp: via_encoder_def Option.bind_eq_Some_conv)

lemma via_imu_lines:
  assumes "via_imu f (k, w) = Some (a, kw')"
  obtains m c m' c' w' where "sdk_imu_reader k = Some m" and "sdk_udp_client k = Some c"
    and "f (m, c, w) = Some (a, m', c', w')"
    and "kw' = (k\<lparr>sdk_imu_reader := Some m', sdk_udp_client := Some c'\<rparr>, w')"
  using assms by (auto simp: via_imu_def Option.bind_eq_Some_conv)

text \<open>A start on a ready SDK whose thread is not running.\<close>

lemma start_lines:
  assumes "sdk_start_says os kw = (r, kw')" and "sdk_initialized (fst kw)" and "\<not> thread_running (sdk_worker (fst kw))"
  shows "lines kw' = lines kw @ (if after_sdk_start r = Inr True then [Thread_Started Sdk] else [])
    \<and> after_sdk_start r \<noteq> Inr False"
  using assms by (cases kw) (auto simp: sdk_start_says_def ensure_initialized_says_def Let_def case_prod_beta split: if_splits)

lemma init_imu_lines:
  assumes "init_imu_says os errno kw = Some (r, kw')" and "lines kw = l @ pre"
    and "on_track (sdk_config (fst kw)) 6 pre" and "idle (fst kw)" and "\<not> thread_running (sdk_worker (fst kw))"
  shows "\<exists>new. lines kw' = l @ new \<and> initialize_log (sdk_config (fst kw)) r new"
proof -
  let ?imu = "ImuReader_new (ImuReaderConfig_default\<lparr>irc_auto_start_thread := False\<rparr>) (os_now os (fst (snd kw)))"
  let ?k = "(fst kw)\<lparr>sdk_imu_reader := Some ?imu\<rparr>"
  let ?via = "via_imu (imu_initialize_says (exchange_says os errno) (link_now (on_console os))
    (link_spawn (on_console os))) (?k, snd kw)"
  obtain res kw1 where via: "?via = Some (res, kw1)"
    using assms(1) by (cases ?via) (auto simp: init_imu_says_def Let_def case_prod_beta)
  from via obtain m c m' c' w1 where m: "m = ?imu"
    and f: "imu_initialize_says (exchange_says os errno) (link_now (on_console os)) (link_spawn (on_console os))
      (m, c, snd kw) = Some (res, m', c', w1)"
    and kw1: "kw1 = (?k\<lparr>sdk_imu_reader := Some m', sdk_udp_client := Some c'\<rparr>, w1)"
    by (rule via_imu_lines) simp
  have "ir_worker m' = ir_worker m" and "\<exists>new. lines (c', w1) = lines (c, snd kw) @ new \<and> announced Imu res new"
    using imu_initialize_lines [OF f] by (simp_all add: m ImuReader_new_def)
  then obtain new where worker: "\<not> thread_running (ir_worker m')" and new: "snd w1 = snd (snd kw) @ new"
    and ann: "announced Imu res new"
    by (auto simp: m ImuReader_new_def worker_new_def)
  have idle: "idle (fst kw1)" using assms(4) worker by (simp add: kw1 idle_def)
  have lines1: "lines kw1 = l @ pre @ new" using assms(2) new by (simp add: kw1 lines_def)
  show ?thesis
    using ann
  proof (cases rule: announced_cases)
    case 2
    then have "kw' = cleanup_says os (tell (Component_Failed Imu) kw1)" and "r = Inr False"
      using assms(1) via by (simp_all add: init_imu_says_def Let_def case_prod_beta)
    with stage_failed [OF lines1 idle assms(3) _ 2(2)] show ?thesis by (simp add: begins_at_def)
  next
    case 1
    let ?kw2 = "tell (Initialization_Complete Sdk) ((fst kw1)\<lparr>sdk_initialized := True\<rparr>, snd kw1)"
    have track: "on_track (sdk_config (fst kw)) 9 (pre @ new @ [Initialization_Complete Sdk])"
      using 1 assms(3) by (auto simp: on_track_def startup_def)
    have lines2: "lines ?kw2 = l @ pre @ new @ [Initialization_Complete Sdk]" using lines1 by (simp add: lines_def)
    show ?thesis
    proof (cases "gc_auto_start_thread (sdk_config (fst kw))")
      case False
      then have "kw' = ?kw2" and "r = Inr True"
        using assms(1) via 1 by (simp_all add: init_imu_says_def Let_def case_prod_beta kw1)
      with False track lines2 show ?thesis
        by (auto simp: initialize_log_def on_track_def startup_def)
    next
      case True
      then have "kw' = snd (sdk_start_says os ?kw2)" and r: "r = after_sdk_start (fst (sdk_start_says os ?kw2))"
        using assms(1) via 1 by (simp_all add: init_imu_says_def Let_def case_prod_beta kw1)
      with start_lines [of os ?kw2 "fst (sdk_start_says os ?kw2)" kw'] assms(5)
      have "lines kw' = lines ?kw2 @ (if r = Inr True then [Thread_Started Sdk] else [])" "r \<noteq> Inr False"
        by (simp_all add: kw1)
      with True track lines2 show ?thesis
        by (cases r) (auto simp: initialize_log_def on_track_def startup_def split: bool.splits)
    qed
  qed
qed

lemma init_encoder_lines:
  assumes "init_encoder_says os errno kw = Some (r, kw')" and "lines kw = l @ pre"
    and "on_track (sdk_config (fst kw)) 4 pre" and "idle (fst kw)" and "\<not> thread_running (sdk_worker (fst kw))"
  shows "\<exists>new. lines kw' = l @ new \<and> initialize_log (sdk_config (fst kw)) r new"
proof -
  let ?enc = "EncoderReader_new (EncoderReaderConfig_default\<lparr>erc_auto_start_thread := False\<rparr>) (os_now os (fst (snd kw)))"
  let ?k = "(fst kw)\<lparr>sdk_encoder_reader := Some ?enc\<rparr>"
  let ?via = "via_encoder (encoder_initialize_says (exchange_says os errno) (link_now (on_console os))
    (link_spawn (on_console os))) (?k, snd kw)"
  obtain res kw1 where via: "?via = Some (res, kw1)"
    using assms(1) by (cases ?via) (auto simp: init_encoder_says_def Let_def case_prod_beta)
  from via obtain m c m' c' w1 where m: "m = ?enc"
    and f: "encoder_initialize_says (exchange_says os errno) (link_now (on_console os)) (link_spawn (on_console os))
      (m, c, snd kw) = Some (res, m', c', w1)"
    and kw1: "kw1 = (?k\<lparr>sdk_encoder_reader := Some m', sdk_udp_client := Some c'\<rparr>, w1)"
    by (rule via_encoder_lines) simp
  have "er_worker m' = er_worker m" and "\<exists>new. lines (c', w1) = lines (c, snd kw) @ new \<and> announced Encoders res new"
    using encoder_initialize_lines [OF f] by (simp_all add: m EncoderReader_new_def)
  then obtain new where worker: "\<not> thread_running (er_worker m')" and new: "snd w1 = snd (snd kw) @ new"
    and ann: "announced Encoders res new"
    by (auto simp: m EncoderReader_new_def worker_new_def)
  have idle: "idle (fst kw1)" using assms(4) worker by (simp add: kw1 idle_def)
  have lines1: "lines kw1 = l @ pre @ new" using assms(2) new by (simp add: kw1 lines_def)
  show ?thesis
    using ann
  proof (cases rule: announced_cases)
    case 2
    then have "kw' = cleanup_says os (tell (Component_Failed Encoders) kw1)" and "r = Inr False"
      using assms(1) via by (simp_all add: init_encoder_says_def Let_def case_prod_beta)
    with stage_failed [OF lines1 idle assms(3) _ 2(2)] show ?thesis by (simp add: begins_at_def)
  next
    case 1
    then have "init_imu_says os errno kw1 = Some (r, kw')"
      using assms(1) via by (simp add: init_encoder_says_def Let_def case_prod_beta)
    moreover have "on_track (sdk_config (fst kw1)) 6 (pre @ new)"
      using stage_passed [OF assms(3) _ 1(2,3)] by (simp add: begins_at_def kw1)
    ultimately show ?thesis
      using init_imu_lines [of os errno kw1 r kw' l "pre @ new"] idle lines1 assms(5) by (simp add: kw1)
  qed
qed

lemma init_motor_lines:
  assumes "init_motor_says os errno kw = Some (r, kw')" and "lines kw = l @ pre"
    and "on_track (sdk_config (fst kw)) 2 pre" and "idle (fst kw)" and "\<not> thread_running (sdk_worker (fst kw))"
  shows "\<exists>new. lines kw' = l @ new \<and> initialize_log (sdk_config (fst kw)) r new"
proof -
  let ?mot = "MotorController_new (MotorControllerConfig_default\<lparr>mcc_auto_start_thread := False\<rparr>) (os_now os (fst (snd kw)))"
  let ?k = "(fst kw)\<lparr>sdk_motor_controller := Some ?mot\<rparr>"
  let ?via = "via_motor (motor_initialize_says (exchange_says os errno) (link_spawn (on_console os))) (?k, snd kw)"
  obtain res kw1 where via: "?via = Some (res, kw1)"
    using assms(1) by (cases ?via) (auto simp: init_motor_says_def Let_def case_prod_beta)
  from via obtain m c m' c' w1 where m: "m = ?mot"
    and f: "motor_initialize_says (exchange_says os errno) (link_spawn (on_console os)) (m, c, snd kw)
      = Some (res, m', c', w1)"
    and kw1: "kw1 = (?k\<lparr>sdk_motor_controller := Some m', sdk_udp_client := Some c'\<rparr>, w1)"
    by (rule via_motor_lines) simp
  have "mc_worker m' = mc_worker m" and "\<exists>new. lines (c', w1) = lines (c, snd kw) @ new \<and> announced Motors res new"
    using motor_initialize_lines [OF f] by (simp_all add: m MotorController_new_def)
  then obtain new where worker: "\<not> thread_running (mc_worker m')" and new: "snd w1 = snd (snd kw) @ new"
    and ann: "announced Motors res new"
    by (auto simp: m MotorController_new_def worker_new_def)
  have idle: "idle (fst kw1)" using assms(4) worker by (simp add: kw1 idle_def)
  have lines1: "lines kw1 = l @ pre @ new" using assms(2) new by (simp add: kw1 lines_def)
  show ?thesis
    using ann
  proof (cases rule: announced_cases)
    case 2
    then have "kw' = cleanup_says os (tell (Component_Failed Motors) kw1)" and "r = Inr False"
      using assms(1) via by (simp_all add: init_motor_says_def Let_def case_prod_beta)
    with stage_failed [OF lines1 idle assms(3) _ 2(2)] show ?thesis by (simp add: begins_at_def)
  next
    case 1
    then have "init_encoder_says os errno kw1 = Some (r, kw')"
      using assms(1) via by (simp add: init_motor_says_def Let_def case_prod_beta)
    moreover have "on_track (sdk_config (fst kw1)) 4 (pre @ new)"
      using stage_passed [OF assms(3) _ 1(2,3)] by (simp add: begins_at_def kw1)
    ultimately show ?thesis
      using init_encoder_lines [of os errno kw1 r kw' l "pre @ new"] idle lines1 assms(5) by (simp add: kw1)
  qed
qed

section \<open>A glove that does not answer\<close>

text \<open>The network takes every datagram and no answer ever comes.\<close>

definition silent :: "'w os \<Rightarrow> bool" where
  "silent os \<longleftrightarrow> (\<forall>fd n w. fst (os_recv os fd n w) = Recv_Again)
     \<and> (\<forall>fd data w. fst (os_send os fd data w) = int (length data))"

definition unheard :: "message list \<Rightarrow> 'w console link \<Rightarrow> bool" where
  "unheard l s \<longleftrightarrow> uc_connected (fst s) \<and> lines s = l"

lemma silent_exchange:
  assumes "silent os" and "unheard l s"
  shows "\<exists>s'. exchange_says os errno p s = Some (None, s') \<and> unheard l s'"
  using assms by (cases s) (auto simp: silent_def unheard_def exchange_says_def send_packet_says_def
      receive_packet_says_def Let_def case_prod_beta)

lemma silent_encoder_update:
  assumes "silent os" and "unheard l s"
  shows "\<exists>s'. encoder_update_once (exchange_says os errno) now (r, s) = Some (False, r, s') \<and> unheard l s'"
  using silent_exchange [OF assms, of errno "plain_packet TARGET_ENCODER [0xFF, 0xFF]"]
  by (auto simp: encoder_update_once_def read_encoders_eq)

lemma silent_imu_update:
  assumes "silent os" and "unheard l s"
  shows "\<exists>s'. imu_update_once (exchange_says os errno) now (r, s) = Some (False, r, s') \<and> unheard l s'"
  using silent_exchange [OF assms, of errno "plain_packet TARGET_IMU []"]
  by (auto simp: imu_update_once_def read_imu_eq)

lemma silent_motor_status:
  assumes "silent os" and "unheard l s"
  shows "\<exists>s'. get_motor_status (exchange_says os errno) now i s = Some (None, s') \<and> unheard l s'"
  using silent_exchange [OF assms, of errno "request_packet (Read_Status i)"] assms(2)
  by (cases s) (auto simp: get_motor_status_def encode_as_request)

lemma silent_motor_update:
  assumes "silent os" and "unheard l s"
  shows "\<exists>s'. motor_update_once (exchange_says os errno) now (m, s) = Some (False, m, s') \<and> unheard l s'"
proof -
  have "\<exists>s'. update_motors (exchange_says os errno) now ids b (m, s) = Some (b, m, s') \<and> unheard l s'"
    if "unheard l s" for ids b s
    using that
  proof (induction ids arbitrary: s)
    case (Cons i ids)
    obtain s1 where "get_motor_status (exchange_says os errno) now i s = Some (None, s1)" "unheard l s1"
      using silent_motor_status [OF assms(1) Cons.prems] by blast
    with Cons.IH [of s1] show ?case by simp
  qed auto
  with assms(2) show ?thesis by (simp add: motor_update_once_def)
qed

text \<open>The warnings of \<open>n\<close> failing rounds after \<open>f\<close> earlier ones.\<close>

definition warnings :: "part \<Rightarrow> nat \<Rightarrow> nat \<Rightarrow> message list" where
  "warnings part f n = map (Consecutive_Failures part) (filter warns (map int [Suc f..<Suc (f + n)]))"

lemma warnings_Suc:
  "warnings part f (Suc n)
    = (if warns (int (Suc f)) then [Consecutive_Failures part (int (Suc f))] else []) @ warnings part (Suc f) n"
proof -
  have "[Suc f..<Suc (f + Suc n)] = Suc f # [Suc (Suc f)..<Suc (Suc f + n)]"
    by (simp add: upt_conv_Cons del: upt_Suc)
  then show ?thesis by (simp add: warnings_def del: upt_Suc)
qed

lemma failing_rounds:
  assumes fails: "\<And>l s. unheard l s \<Longrightarrow> \<exists>s'. update (r, s) = Some (False, r, s') \<and> unheard l s'"
    and sleeps: "\<And>l t s. unheard l s \<Longrightarrow> unheard l (sleep t s)"
    and "unheard l s" and "int (f + n) \<le> INT_MAX"
  shows "\<exists>s'. worker_loop (loop_body_says part (\<lambda>rs. now (snd rs)) (\<lambda>t rs. (fst rs, sleep t (snd rs))) update interval)
      (replicate n True) (int f, r, s) = Some (False, int (f + n), r, s') \<and> unheard (l @ warnings part f n) s'"
  using assms(3,4)
proof (induction n arbitrary: f l s)
  case 0
  then show ?case by (simp add: warnings_def)
next
  case (Suc n)
  let ?body = "loop_body_says part (\<lambda>rs. now (snd rs)) (\<lambda>t rs. (fst rs, sleep t (snd rs))) update interval"
  let ?w = "if warns (int (Suc f)) then [Consecutive_Failures part (int (Suc f))] else []"
  obtain s1 where s1: "update (r, s) = Some (False, r, s1)" "unheard l s1" using fails [OF Suc.prems(1)] by blast
  define s2 where "s2 = (if warns (int (Suc f)) then tell (Consecutive_Failures part (int (Suc f))) s1 else s1)"
  have s2: "unheard (l @ ?w) s2" using s1(2) by (simp add: s2_def unheard_def)
  define t where "t = interval * 1000000 - (now s2 - now s)"
  define s3 where "s3 = (if t > 0 then sleep t s2 else s2)"
  have "int f \<noteq> INT_MAX" using Suc.prems(2) by simp
  then have body: "?body (int f, r, s) = Some (int (Suc f), r, s3)"
    using s1 by (simp add: loop_body_says_def count_failure_def Let_def s3_def t_def s2_def add.commute)
  have s3: "unheard (l @ ?w) s3" using s2 sleeps by (simp add: s3_def)
  from Suc.IH [OF s3, of "Suc f"] Suc.prems(2) body show ?case
    by (simp add: warnings_Suc)
qed

text \<open>The unified loop ignores what the updates return.\<close>

definition unheard_sdk :: "'w console sdk \<Rightarrow> bool" where
  "unheard_sdk kw \<longleftrightarrow> (\<exists>c. sdk_udp_client (fst kw) = Some c \<and> uc_connected c)"

lemma silent_motor_segment:
  assumes "silent os" and "unheard_sdk kw"
  shows "\<exists>kw'. motor_segment_says os errno kw = Some kw' \<and> unheard_sdk kw' \<and> lines kw' = lines kw"
proof -
  obtain k c w l where kw: "kw = (k, w, l)" and c: "sdk_udp_client k = Some c" and on: "unheard l (c, w, l)"
    using assms(2) by (cases kw) (auto simp: unheard_sdk_def unheard_def)
  show ?thesis
  proof (cases "sdk_motor_controller k")
    case (Some m)
    from silent_motor_update [OF assms(1) on, of errno "link_now (on_console os)" m]
    obtain s' where "motor_update_once (exchange_says os errno) (link_now (on_console os)) (m, c, w, l) = Some (False, m, s')"
      and "unheard l s'" by blast
    with Some c show ?thesis
      by (cases s') (auto simp: kw motor_segment_says_def via_motor_def unheard_def unheard_sdk_def)
  qed (use assms in \<open>simp add: kw motor_segment_says_def\<close>)
qed

lemma silent_encoder_segment:
  assumes "silent os" and "unheard_sdk kw"
  shows "\<exists>kw'. encoder_segment_says os errno kw = Some kw' \<and> unheard_sdk kw' \<and> lines kw' = lines kw"
proof -
  obtain k c w l where kw: "kw = (k, w, l)" and c: "sdk_udp_client k = Some c" and on: "unheard l (c, w, l)"
    using assms(2) by (cases kw) (auto simp: unheard_sdk_def unheard_def)
  show ?thesis
  proof (cases "sdk_encoder_reader k")
    case (Some m)
    from silent_encoder_update [OF assms(1) on, of errno "link_now (on_console os)" m]
    obtain s' where "encoder_update_once (exchange_says os errno) (link_now (on_console os)) (m, c, w, l) = Some (False, m, s')"
      and "unheard l s'" by blast
    with Some c show ?thesis
      by (cases s') (auto simp: kw encoder_segment_says_def via_encoder_def unheard_def unheard_sdk_def)
  qed (use assms in \<open>simp add: kw encoder_segment_says_def\<close>)
qed

lemma silent_imu_segment:
  assumes "silent os" and "unheard_sdk kw"
  shows "\<exists>kw'. imu_segment_says os errno kw = Some kw' \<and> unheard_sdk kw' \<and> lines kw' = lines kw"
proof -
  obtain k c w l where kw: "kw = (k, w, l)" and c: "sdk_udp_client k = Some c" and on: "unheard l (c, w, l)"
    using assms(2) by (cases kw) (auto simp: unheard_sdk_def unheard_def)
  show ?thesis
  proof (cases "sdk_imu_reader k")
    case (Some m)
    from silent_imu_update [OF assms(1) on, of errno "link_now (on_console os)" m]
    obtain s' where "imu_update_once (exchange_says os errno) (link_now (on_console os)) (m, c, w, l) = Some (False, m, s')"
      and "unheard l s'" by blast
    with Some c show ?thesis
      by (cases s') (auto simp: kw imu_segment_says_def via_imu_def unheard_def unheard_sdk_def)
  qed (use assms in \<open>simp add: kw imu_segment_says_def\<close>)
qed

lemma silent_sleep_rest:
  "unheard_sdk kw \<Longrightarrow> unheard_sdk (sleep_rest_says os t kw)
    \<and> (\<exists>ms. lines (sleep_rest_says os t kw) = lines kw @ map Overrun ms)"
  by (cases kw) (auto simp: sleep_rest_says_def unheard_sdk_def Let_def intro: exI [of _ "[]"] exI [of _ "[_]"])

lemma silent_unified_loop:
  assumes "silent os" and "unheard_sdk kw"
  shows "\<exists>q kw' ms. unified_loop_says os errno seg loads kw = Some (q, kw') \<and> lines kw' = lines kw @ map Overrun ms"
  using assms(2)
proof (induction loads arbitrary: seg kw)
  case Nil
  then show ?case by (auto intro: exI [of _ "[]"])
next
  case (Cons running loads)
  have rest: "\<exists>q kw' ns. unified_loop_says os errno seg2 loads kw2 = Some (q, kw') \<and> lines kw' = lines kw @ map Overrun ns"
    if "unheard_sdk kw2" and "lines kw2 = lines kw @ map Overrun ms" for seg2 kw2 ms
    using Cons.IH [OF that(1), of seg2] that(2) by (metis append_assoc map_append)
  show ?case
  proof (cases running)
    case True
    show ?thesis
    proof (cases seg)
      case Motor_Segment
      obtain kw2 where "motor_segment_says os errno kw = Some kw2" "unheard_sdk kw2" "lines kw2 = lines kw"
        using silent_motor_segment [OF assms(1) Cons.prems] by blast
      with rest [of kw2 "[]"] True Motor_Segment show ?thesis by (simp add: Let_def)
    next
      case (Encoder_Segment t)
      obtain kw2 where "encoder_segment_says os errno kw = Some kw2" "unheard_sdk kw2" "lines kw2 = lines kw"
        using silent_encoder_segment [OF assms(1) Cons.prems] by blast
      with rest [of kw2 "[]"] True Encoder_Segment show ?thesis by simp
    next
      case (Imu_Segment t)
      obtain kw2 where kw2: "imu_segment_says os errno kw = Some kw2" "unheard_sdk kw2" "lines kw2 = lines kw"
        using silent_imu_segment [OF assms(1) Cons.prems] by blast
      from silent_sleep_rest [OF kw2(2), of os t] rest [of "sleep_rest_says os t kw2"] kw2 True Imu_Segment show ?thesis
        by auto
    qed
  qed (cases kw, auto intro: exI [of _ "[]"])
qed

section \<open>Properties\<close>

text \<open>
  Printing is all that the messages do. Take the operations of the class with every line they
  write to the console, and forget the console: they are the operations of the model, with the same result, on the
  same SDK, the same counters and the same world. The same holds for the guards, so none of the properties
  proved without the console depends on what is printed.
\<close>

lemma console_changes_nothing:
  "sdk_initialize os (hush kw) = map_option (apsnd hush) (sdk_initialize_says os errno kw)
   \<and> sdk_shutdown os (hush kw) = hush (sdk_shutdown_says os kw)
   \<and> sdk_start os (hush kw) = apsnd hush (sdk_start_says os kw)
   \<and> apfst sdk_stop (hush kw) = hush (sdk_stop_says kw)
   \<and> run_command os cmd (hush kw) = map_option (apsnd hush) (command_says os errno cmd kw)
   \<and> calibrate_all os (hush kw) = map_option (apsnd hush) (calibrate_all_says os errno kw)
   \<and> calibrate_encoders os (hush kw) = map_option (apsnd hush) (calibrate_encoders_says os errno kw)
   \<and> calibrate_imu os (hush kw) = map_option (apsnd hush) (calibrate_imu_says os errno kw)
   \<and> map_option (\<lambda>angles. (angles, hush kw)) (get_encoder_angles (fst kw))
       = map_option (apsnd hush) (get_encoder_angles_says kw)
   \<and> map_option (\<lambda>d. (d, hush kw)) (get_imu_orientation (fst kw))
       = map_option (apsnd hush) (get_imu_orientation_says kw)
   \<and> unified_update_loop os seg loads (hush kw) = map_option (apsnd hush) (unified_loop_says os errno seg loads kw)"
proof -
  have angles: "map_option (\<lambda>angles. (angles, hush kw)) (get_encoder_angles (fst kw))
      = map_option (apsnd hush) (get_encoder_angles_says kw)"
    by (auto simp: get_encoder_angles_def get_encoder_angles_says_def ensure_initialized_says_def
        ensure_initialized_def split: Option.bind_splits)
  have orientation: "map_option (\<lambda>d. (d, hush kw)) (get_imu_orientation (fst kw))
      = map_option (apsnd hush) (get_imu_orientation_says kw)"
    by (auto simp: get_imu_orientation_def get_imu_orientation_says_def ensure_initialized_says_def
        ensure_initialized_def split: Option.bind_splits)
  show ?thesis
    by (intro conjI erased_initialize erased_shutdown erased_start erased_stop erased_command erased_calibrate_all
        erased_calibrate_encoders erased_calibrate_imu angles orientation erased_unified_loop)
qed

text \<open>
  C24. What is on the console after \<open>initialize\<close>, from every state that satisfies the invariant. On an SDK that is not
  initialised: a call that returns true has announced every step in
  order, from the initialisation over the connection and the three components to the completion and, when
  configured, the thread, and has printed no error, but for one line on the error stream if \<open>SO_REUSEADDR\<close> could not be set, which
  \<open>connect\<close> reports and goes on.
  A call that returns false has announced the steps it got through, and its last line says whether it
  was the connection, the motors, the encoders or the IMU. When the thread cannot be created, an exception
  leaves the call after it has announced that the initialisation is complete. On an SDK that is initialised the call returns true and
  prints the one line that says so.
\<close>

theorem initialize_transcript:
  assumes "sdk_initialize_says os errno kw = Some (r, kw')" and "sdk_inv (fst kw)"
  shows "\<exists>new. lines kw' = lines kw @ new
    \<and> (if sdk_initialized (fst kw) then r = Inr True \<and> new = [Already_Initialized]
       else initialize_log (sdk_config (fst kw)) r new)"
proof (cases "sdk_initialized (fst kw)")
  case True
  then show ?thesis using assms(1) by (auto simp: sdk_initialize_says_def)
next
  case down: False
  obtain k w where kw: "kw = (k, w)" by (cases kw)
  let ?client = "UdpClient_new (sdk_udp_config (sdk_config k))"
  obtain ok c w1 where con: "connect_says os errno (?client, say (Initializing Sdk) w) = (ok, c, w1)"
    by (metis prod_cases3)
  let ?kw1 = "(k\<lparr>sdk_udp_client := Some c\<rparr>, w1)"
  have empty: "sdk_empty k" using assms(2) down by (simp add: kw sdk_inv_def)
  then have idle: "idle (k\<lparr>sdk_udp_client := Some c\<rparr>)" by (simp add: sdk_empty_def idle_def)
  have "\<not> uc_connected ?client" by (simp add: UdpClient_new_def)
  from connect_says_lines [OF con this] obtain new where
    new: "lines ?kw1 = lines kw @ Initializing Sdk # new"
    and out: "filter on_cout new
      = (if ok then [Connected_To (gc_server_ip (sdk_config k)) (gc_server_port (sdk_config k))] else [])"
    and errs: "ok \<longrightarrow> (\<forall>m \<in> set new. on_cout m \<or> (\<exists>e. m = Reuseaddr_Failed e))"
    by (auto simp: kw UdpClient_new_def sdk_udp_config_def)
  have still: "\<not> thread_running (sdk_worker k)" using empty by (simp add: sdk_empty_def worker_new_def)
  show ?thesis
  proof (cases ok)
    case False
    then have "kw' = cleanup_says os (tell Connection_Failed ?kw1)" and "r = Inr False"
      using assms(1) down con by (simp_all add: kw sdk_initialize_says_def tell_def)
    with False out new idle down show ?thesis
      using cleanup_lines [of "tell Connection_Failed ?kw1" os]
      by (auto simp: kw initialize_log_def gave_up_def startup_def)
  next
    case True
    then have "init_motor_says os errno ?kw1 = Some (r, kw')"
      using assms(1) down con by (simp add: kw sdk_initialize_says_def tell_def)
    moreover have "on_track (sdk_config k) 2 (Initializing Sdk # new)"
      using out errs True by (simp add: on_track_def startup_def)
    ultimately show ?thesis
      using init_motor_lines [of os errno ?kw1 r kw' "lines kw" "Initializing Sdk # new"] new idle still down
      by (simp add: kw)
  qed
qed

text \<open>
  C27. A motor command of the SDK says why it failed. One that returns true has printed nothing; one
  that returns false, whether the SDK is not initialised, an argument is out of range, or the glove did not
  acknowledge, has printed at least one line, and only to the error stream. In a batch the same holds for the
  whole: it returns true exactly when nothing was printed.
\<close>

theorem commands_speak:
  assumes "command_says os errno cmd kw = Some (ok, kw')"
  shows "\<exists>ms. lines kw' = lines kw @ ms \<and> (\<forall>m \<in> set ms. \<not> on_cout m) \<and> (ok \<longleftrightarrow> ms = [])"
proof -
  have "\<exists>ms. lines kw' = lines kw @ ms \<and> (\<forall>m \<in> set ms. \<not> on_cout m) \<and> (ok \<longleftrightarrow> ms = [])"
    if run: "motor_command_says f kw = Some (ok, kw')" and "outspoken f" for f
  proof (cases "sdk_initialized (fst kw)")
    case True
    obtain k w where kw: "kw = (k, w)" by (cases kw)
    obtain m c c' w' where f: "f (c, w) = Some (ok, c', w')" and w': "snd kw' = w'"
      using run True by (auto simp: kw motor_command_says_def ensure_initialized_says_def via_motor_def
          Option.bind_eq_Some_conv)
    from outspokenD [OF that(2) f] w' show ?thesis by (auto simp: kw lines_def)
  qed (use run in \<open>auto simp: motor_command_says_def ensure_initialized_says_def\<close>)
  then show ?thesis
    using assms outspoken_commands [of os errno] outspoken_batches [of os errno] by (cases cmd) auto
qed

text \<open>The counters of what went wrong, other than a timeout.\<close>

definition errors_counted :: "UdpClient \<Rightarrow> u64" where
  "errors_counted c = send_errors (uc_stats c) + receive_errors (uc_stats c) + checksum_errors (uc_stats c)"

text \<open>What a step leaves behind: how many timeouts and errors it counts, and which lines it prints.\<close>

definition leaves :: "u64 \<Rightarrow> u64 \<Rightarrow> message list \<Rightarrow> 'w console link \<Rightarrow> 'w console link \<Rightarrow> bool" where
  "leaves t e ms s s' \<longleftrightarrow> timeouts (uc_stats (fst s')) = timeouts (uc_stats (fst s)) + t
     \<and> errors_counted (fst s') = errors_counted (fst s) + e \<and> lines s' = lines s @ ms"

lemma stats_leave:
  "leaves 0 0 ms (c, w) (update_send_stats True c, w') \<longleftrightarrow> snd w' = snd w @ ms"
  "leaves 0 1 ms (c, w) (update_send_stats False c, w') \<longleftrightarrow> snd w' = snd w @ ms"
  "leaves 0 0 ms (c, w) (update_receive_stats True False False c, w') \<longleftrightarrow> snd w' = snd w @ ms"
  "leaves 1 0 ms (c, w) (update_receive_stats False True False c, w') \<longleftrightarrow> snd w' = snd w @ ms"
  "leaves 0 1 ms (c, w) (update_receive_stats False False b c, w') \<longleftrightarrow> snd w' = snd w @ ms"
  by (auto simp: leaves_def errors_counted_def update_send_stats_def update_receive_stats_def Let_def)

lemma send_trace:
  assumes "send_packet_says os errno p s = (b, s')"
  shows "if b then leaves 0 0 [] s s' else \<exists>m. \<not> on_cout m \<and> leaves 0 1 [m] s s'"
proof -
  obtain c w where s: "s = (c, w)" by (cases s)
  note run = assms [unfolded s send_packet_says_def]
  show ?thesis
  proof (cases "uc_connected c")
    case True
    with run show ?thesis
      by (cases "errno (snd (os_send os (uc_socket_fd c) (serialize p) (fst w)))")
        (auto simp: s Let_def case_prod_beta stats_leave split: if_splits)
  qed (use run in \<open>auto simp: s stats_leave\<close>)
qed

lemma receive_trace:
  assumes "receive_packet_says os errno s = Some (r, s')"
  shows "case r of Some q \<Rightarrow> leaves 0 0 [] s s'
    | None \<Rightarrow> leaves 1 0 [] s s' \<or> (\<exists>m. \<not> on_cout m \<and> leaves 0 1 [m] s s')"
proof -
  obtain c w where s: "s = (c, w)" by (cases s)
  note run = assms [unfolded s receive_packet_says_def]
  show ?thesis
  proof (cases "uc_connected c")
    case True
    show ?thesis
    proof (cases "fst (os_recv os (uc_socket_fd c) 1024 (fst w))")
      case (Recv_Data bytes)
      with run True obtain d where "deserialize (take 1024 bytes) = Some d"
        by (cases "deserialize (take 1024 bytes)") (auto simp: case_prod_beta Let_def)
      with run True Recv_Data show ?thesis
        by (cases d) (auto simp: s case_prod_beta Let_def stats_leave)
    qed (use run True in \<open>auto simp: s case_prod_beta Let_def stats_leave\<close>)
  qed (use run in \<open>auto simp: s case_prod_beta Let_def stats_leave\<close>)
qed

text \<open>
  C23. The trace a failed exchange leaves. An exchange that returns a response prints nothing and counts
  no failure. One that returns nothing leaves exactly one trace: either one line on the error stream and one count
  among the send, receive and checksum errors, or, when the answer did not come in time, one count of a
  timeout and no line.
\<close>

theorem exchange_trace:
  assumes "exchange_says os errno p s = Some (r, s')"
  shows "(case r of
      Some q \<Rightarrow> lines s' = lines s \<and> timeouts (uc_stats (fst s')) = timeouts (uc_stats (fst s))
        \<and> errors_counted (fst s') = errors_counted (fst s)
    | None \<Rightarrow>
        (lines s' = lines s \<and> timeouts (uc_stats (fst s')) = timeouts (uc_stats (fst s)) + 1
          \<and> errors_counted (fst s') = errors_counted (fst s))
      \<or> (\<exists>m. lines s' = lines s @ [m] \<and> \<not> on_cout m \<and> timeouts (uc_stats (fst s')) = timeouts (uc_stats (fst s))
          \<and> errors_counted (fst s') = errors_counted (fst s) + 1))"
proof -
  obtain b s1 where send: "send_packet_says os errno p s = (b, s1)" by (cases "send_packet_says os errno p s")
  show ?thesis
  proof (cases b)
    case True
    with assms send have "receive_packet_says os errno s1 = Some (r, s')" by (simp add: exchange_says_def)
    from receive_trace [OF this] send_trace [OF send] True show ?thesis
      by (cases r) (auto simp: leaves_def)
  next
    case False
    with assms send have "r = None" "s' = s1" by (simp_all add: exchange_says_def)
    with send_trace [OF send] False show ?thesis by (auto simp: leaves_def)
  qed
qed

text \<open>
  C36. A glove that has stopped answering shows up in the output only when the components run their own
  threads. The network takes every request and no answer comes. The reader's own loop, after \<open>n\<close> rounds, has
  counted \<open>n\<close> failures and printed its warnings exactly at the tenth and at every hundredth of them. The
  unified thread of the SDK, which by default does the same updates, prints no warning and no error however long it
  runs, and nothing at all but that a round took too long.
\<close>

theorem silence_warned_of_by_own_loops_only:
  assumes "silent os" and "uc_connected c" and "int n \<le> INT_MAX" and "sdk_udp_client k = Some c"
  shows "(\<exists>s'. encoder_loop_says (exchange_says os errno) (link_now (on_console os)) (link_sleep (on_console os))
           (replicate n True) (r, c, w) = Some (False, int n, r, s')
         \<and> lines s' = snd w @ map (Consecutive_Failures Encoders) (filter warns (map int [1..<n + 1])))
    \<and> (\<exists>s'. imu_loop_says (exchange_says os errno) (link_now (on_console os)) (link_sleep (on_console os))
           (replicate n True) (i, c, w) = Some (False, int n, i, s')
         \<and> lines s' = snd w @ map (Consecutive_Failures Imu) (filter warns (map int [1..<n + 1])))
    \<and> (\<exists>q kw' ms. unified_loop_says os errno Motor_Segment loads (k, w) = Some (q, kw')
         \<and> lines kw' = snd w @ map Overrun ms)"
proof (intro conjI)
  have start: "unheard (snd w) (c, w)" using assms(2) by (simp add: unheard_def)
  have sleeps: "unheard l (link_sleep (on_console os) t s)" if "unheard l s" for l t and s :: "'a console link"
    using that by (simp add: unheard_def link_sleep_def lines_def)
  have rounds: "\<exists>s'. worker_loop (loop_body_says part (\<lambda>rs. link_now (on_console os) (snd rs))
      (\<lambda>t rs. (fst rs, link_sleep (on_console os) t (snd rs))) update interval) (replicate n True) (0, q, c, w)
        = Some (False, int n, q, s') \<and> unheard (snd w @ warnings part 0 n) s'"
    if "\<And>l s. unheard l s \<Longrightarrow> \<exists>s'. update (q, s) = Some (False, q, s') \<and> unheard l s'"
    for update and q :: 'q and part interval
    using failing_rounds [where f = 0 and r = q and update = update and now = "link_now (on_console os)"
        and sleep = "link_sleep (on_console os)" and n = n and part = part and interval = interval, OF that sleeps start]
      assms(3) by simp
  have warned: "lines s' = snd w @ map (Consecutive_Failures part) (filter warns (map int [1..<n + 1]))"
    if "unheard (snd w @ warnings part 0 n) s'" for part and s' :: "'a console link"
    using that by (simp add: unheard_def warnings_def)
  show "\<exists>s'. encoder_loop_says (exchange_says os errno) (link_now (on_console os)) (link_sleep (on_console os))
      (replicate n True) (r, c, w) = Some (False, int n, r, s')
      \<and> lines s' = snd w @ map (Consecutive_Failures Encoders) (filter warns (map int [1..<n + 1]))"
    using rounds [of "encoder_update_once (exchange_says os errno) (link_now (on_console os))" r
        Encoders "erc_update_interval (er_config r)"] silent_encoder_update [OF assms(1)] warned
    unfolding encoder_loop_says_def fst_conv by blast
  show "\<exists>s'. imu_loop_says (exchange_says os errno) (link_now (on_console os)) (link_sleep (on_console os))
      (replicate n True) (i, c, w) = Some (False, int n, i, s')
      \<and> lines s' = snd w @ map (Consecutive_Failures Imu) (filter warns (map int [1..<n + 1]))"
    using rounds [of "imu_update_once (exchange_says os errno) (link_now (on_console os))" i
        Imu "irc_update_interval (ir_config i)"] silent_imu_update [OF assms(1)] warned
    unfolding imu_loop_says_def fst_conv by blast
  show "\<exists>q kw' ms. unified_loop_says os errno Motor_Segment loads (k, w) = Some (q, kw')
      \<and> lines kw' = snd w @ map Overrun ms"
    using silent_unified_loop [OF assms(1), of "(k, w)" errno Motor_Segment loads] assms(2,4)
    by (simp add: unheard_sdk_def)
qed

section \<open>Runs\<close>

text \<open>An initialisation in front of the answering device, and one that finds no device.\<close>

lemma demo_initialize_says:
  "map_option (\<lambda>(r, kw). (r, lines kw)) (sdk_initialize_says (device_os demo_reply) (\<lambda>w. Errno 0)
      (GloveSDK_new GloveConfig_default, sim_init [], []))
    = Some (Inr True, startup GloveConfig_default @ [Thread_Started Sdk])"
  by code_simp

text \<open>An SDK whose glove has stopped answering: every receive waits its hundred milliseconds.\<close>

definition mute_os :: "sim os" where
  "mute_os = sim_os\<lparr>os_recv := (\<lambda>fd n w. (Recv_Again, w\<lparr>sim_clock := sim_clock w + 100000000\<rparr>))\<rparr>"

definition mute_client :: UdpClient where
  "mute_client = (UdpClient_new UdpConfig_default)\<lparr>uc_socket_fd := 3, uc_connected := True\<rparr>"

definition mute_sdk :: GloveSDK where
  "mute_sdk = (GloveSDK_new GloveConfig_default)\<lparr>sdk_initialized := True, sdk_udp_client := Some mute_client,
     sdk_motor_controller := Some (MotorController_new MotorControllerConfig_default 0),
     sdk_encoder_reader := Some (EncoderReader_new EncoderReaderConfig_default 0),
     sdk_imu_reader := Some (ImuReader_new ImuReaderConfig_default 0)\<rparr>"

lemma silent_mute: "silent mute_os" "uc_connected mute_client" "sdk_udp_client mute_sdk = Some mute_client"
  by (simp_all add: silent_def mute_os_def sim_os_def mute_client_def mute_sdk_def)

theorem silence_warned_of_by_own_loops_only_witness:
  "(\<exists>s'. encoder_loop_says (exchange_says mute_os (\<lambda>w. Errno 0)) (link_now (on_console mute_os))
       (link_sleep (on_console mute_os)) (replicate 100 True)
       (EncoderReader_new EncoderReaderConfig_default 0, mute_client, sim_init [], [])
       = Some (False, 100, EncoderReader_new EncoderReaderConfig_default 0, s')
     \<and> lines s' = [Consecutive_Failures Encoders 10, Consecutive_Failures Encoders 100])
   \<and> (\<exists>q kw' ms. unified_loop_says mute_os (\<lambda>w. Errno 0) Motor_Segment (replicate 300 True)
       (mute_sdk, sim_init [], []) = Some (q, kw') \<and> lines kw' = map Overrun ms)"
proof -
  have warned: "filter warns (map int [1..<100 + 1]) = [10, 100]" by code_simp
  have "int 100 \<le> INT_MAX" by (simp add: INT_MAX_def)
  from silence_warned_of_by_own_loops_only [OF silent_mute(1,2) this silent_mute(3), of "\<lambda>w. Errno 0"
      "EncoderReader_new EncoderReaderConfig_default 0" "(sim_init [], [])" _ "replicate 300 True"]
  show ?thesis unfolding warned by simp
qed

theorem initialize_transcript_witness:
  "\<exists>kw'. sdk_initialize_says (device_os demo_reply) (\<lambda>w. Errno 0)
      (GloveSDK_new GloveConfig_default, sim_init [], []) = Some (Inr True, kw')
    \<and> initialize_log GloveConfig_default (Inr True) (lines kw')"
proof -
  let ?kw = "(GloveSDK_new GloveConfig_default, sim_init [], [])"
  obtain kw' where run: "sdk_initialize_says (device_os demo_reply) (\<lambda>w. Errno 0) ?kw = Some (Inr True, kw')"
    using demo_initialize_says by auto
  from initialize_transcript [OF run] show ?thesis
    using run sdk_inv_new [of GloveConfig_default]
    by (auto simp: GloveSDK_new_def worker_new_def)
qed

theorem commands_speak_witness:
  "\<exists>kw' ms. command_says (device_os demo_reply) (\<lambda>w. Errno 0) (Motor_Position 1 100)
      (GloveSDK_new GloveConfig_default, sim_init [], []) = Some (False, kw')
    \<and> lines kw' = ms \<and> ms \<noteq> [] \<and> (\<forall>m \<in> set ms. \<not> on_cout m)"
proof -
  let ?kw = "(GloveSDK_new GloveConfig_default, sim_init [], [])"
  obtain kw' where run: "command_says (device_os demo_reply) (\<lambda>w. Errno 0) (Motor_Position 1 100) ?kw
      = Some (False, kw')"
    by (simp add: motor_command_says_def ensure_initialized_says_def GloveSDK_new_def)
  from commands_speak [OF run] run show ?thesis by auto
qed

theorem exchange_trace_witness:
  "\<exists>s'. exchange_says sim_os (\<lambda>w. Errno 0) (plain_packet TARGET_IMU [])
      (UdpClient_new UdpConfig_default, sim_init [], []) = Some (None, s') \<and> length (lines s') = 1"
proof -
  let ?s = "(UdpClient_new UdpConfig_default, sim_init [], [])"
  obtain s' where run: "exchange_says sim_os (\<lambda>w. Errno 0) (plain_packet TARGET_IMU []) ?s = Some (None, s')"
    and said: "lines s' = [Not_Connected]"
    by (simp add: exchange_says_def send_packet_says_def UdpClient_new_def)
  from exchange_trace [OF run] run said show ?thesis by auto
qed

end
