(* ===== verification/Unit_Tests.thy ===== *)
theory Unit_Tests
  imports Imu_Reader Concurrency
begin

unbundle bit_operations_syntax

text \<open>
  The repository's own unit tests (\<open>src/tests/test_protocol.cpp\<close>, \<open>src/tests/test_udp_client.cpp\<close>), run on the
  model: a test is the conjunction of what it expects, its printing left out. The protocol tests are closed
  and evaluate to \<open>True\<close>. The client tests hold on every operating system, under one hypothesis about it where
  the test relies on one (an address refused, nothing ever received and how long \<open>recv\<close> waits before it gives up,
  datagrams sent in one piece); the disconnecting that ends some of them is left out. The thread safety test runs
  its four threads on a schedule and passes on every one.
\<close>

section \<open>Protocol tests\<close>

definition test_packet_serialize_deserialize :: "bool ub" where
  "test_packet_serialize_deserialize = do {
     let packet = Packet_default\<lparr>pkt_header := PACKET_HEADER, pkt_module_id := MODULE_ID,
       pkt_target := TARGET_IMU, pkt_command := 0x00, pkt_body := [], pkt_tail := PACKET_TAIL, pkt_length := 2\<rparr>;
     checksum \<leftarrow> calculate_checksum (serialize packet);
     let packet = packet\<lparr>pkt_checksum := checksum\<rparr>;
     let serialized = serialize packet;
     deserialized \<leftarrow> deserialize serialized;
     Some (length serialized = 7 \<and> serialized ! 0 = PACKET_HEADER
       \<and> serialized ! (length serialized - 1) = PACKET_TAIL
       \<and> (case deserialized of None \<Rightarrow> False | Some d \<Rightarrow>
           pkt_header d = pkt_header packet \<and> pkt_length d = pkt_length packet
         \<and> pkt_module_id d = pkt_module_id packet \<and> pkt_target d = pkt_target packet
         \<and> pkt_command d = pkt_command packet \<and> pkt_checksum d = pkt_checksum packet
         \<and> pkt_tail d = pkt_tail packet)) }"

definition test_checksum_calculation :: "bool ub" where
  "test_checksum_calculation = do {
     let data = [0xEE, 0x02, 0x01, 0x03, 0x00, 0x00, 0x7E :: u8];
     checksum \<leftarrow> calculate_checksum data;
     let expected_sum = sum_list (map (\<lambda>b. ucast b :: u32) (take (length data - 2) data));
     Some (checksum = ucast (expected_sum AND 0xFF)) }"

definition test_motor_packet_roundtrip :: "bool ub" where
  "test_motor_packet_roundtrip = do {
     let motor_id = 3;
     packet \<leftarrow> encode_read_motor_status motor_id;
     let serialized = serialize packet;
     deserialized \<leftarrow> deserialize serialized;
     Some (length serialized = 15
       \<and> take 5 serialized = [PACKET_HEADER, 10, MODULE_ID, TARGET_MOTOR, CMD_READ_STATUS]
       \<and> serialized ! 14 = PACKET_TAIL
       \<and> take 7 (drop 5 serialized) =
           [MOTOR_HEADER_REQ_1, MOTOR_HEADER_REQ_2, 0x03, motor_id, MOTOR_INSTR_HOST_CMD, 0x00, 0x00]
       \<and> serialized ! 12 = 0x03 + motor_id + 0x30 + 0x00 + 0x00
       \<and> deserialized = Some packet) }"

definition test_invalid_packets :: "bool ub" where
  "test_invalid_packets = do {
     short_data \<leftarrow> deserialize [0xEE, 0x05, 0x00];
     wrong_header \<leftarrow> deserialize [0xFF, 0x0F, 0x00, 0x01, 0x01, 0x00, 0x00, 0x00, 0x7E];
     wrong_tail \<leftarrow> deserialize [0xEE, 0x09, 0x00, 0x01, 0x01, 0x00, 0x00, 0x00, 0xFF];
     Some (short_data = None \<and> wrong_header = None \<and> wrong_tail = None) }"

text \<open>The tests of the encoders differ in the request, its target, command and size.\<close>

definition expect_encoded :: "Packet ub \<Rightarrow> u8 \<Rightarrow> u8 \<Rightarrow> (nat \<Rightarrow> bool) \<Rightarrow> nat option \<Rightarrow> bool ub" where
  "expect_encoded encoded target command body_size wire = do {
     packet \<leftarrow> encoded;
     Some (pkt_module_id packet = MODULE_ID \<and> pkt_target packet = target \<and> pkt_command packet = command
       \<and> body_size (length (pkt_body packet))
       \<and> (case wire of None \<Rightarrow> True | Some n \<Rightarrow> length (serialize packet) = n)) }"

definition test_encoders :: "bool ub list" where
  "test_encoders = [
     expect_encoded (encode_read_motor_status 1) TARGET_MOTOR CMD_READ_STATUS ((<) 0) (Some 15),
     expect_encoded (encode_set_motor_mode 2 MODE_SERVO) TARGET_MOTOR CMD_SET_MODE ((<) 0) (Some 17),
     expect_encoded (encode_set_motor_position 3 1500) TARGET_MOTOR CMD_SET_POSITION ((<) 0) (Some 17),
     expect_encoded (encode_set_motor_force 4 2048) TARGET_MOTOR CMD_SET_FORCE ((<) 0) (Some 17),
     expect_encoded (encode_set_motor_speed 5 1000 1800) TARGET_MOTOR CMD_SET_SPEED ((<) 0) (Some 19),
     expect_encoded encode_read_all_encoders TARGET_ENCODER 0x00 ((=) 2) None,
     expect_encoded encode_read_imu TARGET_IMU 0x00 ((=) 0) None]"

definition test_parse_motor_status :: "bool ub" where
  "test_parse_motor_status = do {
     let body = [MOTOR_HEADER_RESP_1, MOTOR_HEADER_RESP_2, 0x0F, 1, MOTOR_INSTR_HOST_CMD, 0x00, 0x00]
       @ concat (map le_bytes [1000, 1234, 567, 890, 900]) @ [45, 0x00, 0x00];
     status \<leftarrow> parse_motor_status (Packet_default\<lparr>pkt_module_id := MODULE_ID, pkt_target := TARGET_MOTOR,
       pkt_command := CMD_READ_STATUS, pkt_body := body\<rparr>) 0;
     Some (length body = 20 \<and> status = Some \<lparr>ms_motor_id = 1, ms_target_position = 1000,
       ms_actual_position = 1234, ms_actual_current = 567, ms_force_value = 890, ms_force_raw = 900,
       ms_temperature = 45, ms_fault_code = 0x00, ms_timestamp = 0\<rparr>) }"

definition test_parse_encoder_data :: "bool ub" where
  "test_parse_encoder_data = do {
     let values = map (\<lambda>i. word_of_int (int i * 256) :: u16) [0..<NUM_ENCODER_CHANNELS];
     data \<leftarrow> parse_encoder_data (Packet_default\<lparr>pkt_module_id := MODULE_ID, pkt_target := TARGET_ENCODER,
       pkt_command := 0x00, pkt_body := concat (map be_bytes values)\<rparr>) 0;
     Some (map_option ed_adc_values data = Some values) }"

text \<open>\<open>10.5f\<close>, \<open>-20.3f\<close> and \<open>180.0f\<close> as bit patterns.\<close>

definition test_parse_imu_data :: "bool ub" where
  "test_parse_imu_data = do {
     data \<leftarrow> parse_imu_data (Packet_default\<lparr>pkt_module_id := MODULE_ID, pkt_target := 0x00,
       pkt_command := 0x00, pkt_body := float_bytes 0x41280000 @ float_bytes 0xC1A26666 @ float_bytes 0x43340000\<rparr>) 0;
     Some (data = Some \<lparr>imu_roll = 0x41280000, imu_pitch = 0xC1A26666, imu_yaw = 0x43340000, imu_timestamp = 0\<rparr>) }"

lemma test_packet_serialize_deserialize_passes: "test_packet_serialize_deserialize = Some True"
  by code_simp

lemma test_checksum_calculation_passes: "test_checksum_calculation = Some True"
  by code_simp

lemma test_motor_packet_roundtrip_passes: "test_motor_packet_roundtrip = Some True"
  by code_simp

lemma test_invalid_packets_passes: "test_invalid_packets = Some True"
  by code_simp

lemma test_parse_motor_status_passes: "test_parse_motor_status = Some True"
  by code_simp

lemma test_parse_encoder_data_passes: "test_parse_encoder_data = Some True"
  by code_simp

lemma test_parse_imu_data_passes: "test_parse_imu_data = Some True"
  by code_simp

lemma test_encoders_pass: "list_all ((=) (Some True)) test_encoders"
  by code_simp

section \<open>Client tests\<close>

definition test_config :: "string \<Rightarrow> u16 \<Rightarrow> int \<Rightarrow> int \<Rightarrow> UdpConfig" where
  "test_config ip port send_ms receive_ms = UdpConfig_default\<lparr>cfg_server_ip := ip, cfg_server_port := port,
     cfg_send_timeout := send_ms, cfg_receive_timeout := receive_ms\<rparr>"

definition test_construction :: bool where
  "test_construction =
     (let client = UdpClient_new (test_config ''127.0.0.1'' 9999 100 100)
      in \<not> is_connected client \<and> cfg_server_ip (get_config client) = ''127.0.0.1''
         \<and> cfg_server_port (get_config client) = 9999)"

definition test_move :: "string \<Rightarrow> bool" where
  "test_move rest =
     (let client1 = UdpClient_new (test_config ''127.0.0.1'' 9999 100 100);
          (client2, client1) = move_construct rest client1
      in cfg_server_ip (get_config client2) = ''127.0.0.1'' \<and> cfg_server_port (get_config client2) = 9999)"

definition test_statistics :: bool where
  "test_statistics =
     (let client = UdpClient_new UdpConfig_default
      in get_statistics client = NetworkStatistics_default
         \<and> get_statistics (reset_statistics client) = NetworkStatistics_default)"

definition test_configuration_getters :: bool where
  "test_configuration_getters =
     (let client = UdpClient_new (test_config ''192.168.1.100'' 12345 200 300);
          retrieved_config = get_config client
      in cfg_server_ip retrieved_config = ''192.168.1.100'' \<and> cfg_server_port retrieved_config = 12345
         \<and> cfg_send_timeout retrieved_config = 200 \<and> cfg_receive_timeout retrieved_config = 300)"

definition test_invalid_address :: "'w os \<Rightarrow> 'w \<Rightarrow> bool" where
  "test_invalid_address os w =
     (let (connected, client, w) = connect os (UdpClient_new (test_config ''999.999.999.999'' 8080 100 100), w)
      in \<not> connected \<and> \<not> is_connected client)"

text \<open>One round of connecting and disconnecting; the loopback test makes one, the cycles test three.\<close>

definition connect_cycle :: "'w os \<Rightarrow> 'w link \<Rightarrow> bool \<times> 'w link" where
  "connect_cycle os s =
     (let (connected, s) = connect os s
      in if connected then
           let up = is_connected (fst s); s = disconnect os s in (up \<and> \<not> is_connected (fst s), s)
         else (True, s))"

definition test_connect_cycles :: "'w os \<Rightarrow> 'w \<Rightarrow> bool" where
  "test_connect_cycles os w =
     (let (ok1, s) = connect_cycle os (UdpClient_new (test_config ''127.0.0.1'' 8080 100 100), w);
          (ok2, s) = connect_cycle os s;
          (ok3, s) = connect_cycle os s
      in ok1 \<and> ok2 \<and> ok3)"

definition test_packet :: "Packet ub" where
  "test_packet = do {
     let packet = Packet_default\<lparr>pkt_header := PACKET_HEADER, pkt_length := 9, pkt_module_id := MODULE_ID,
       pkt_target := 1, pkt_command := CMD_READ_STATUS, pkt_tail := PACKET_TAIL\<rparr>;
     checksum \<leftarrow> calculate_checksum (serialize packet);
     Some (packet\<lparr>pkt_checksum := checksum\<rparr>) }"

definition test_send_without_server :: "'w os \<Rightarrow> 'w \<Rightarrow> bool ub" where
  "test_send_without_server os w =
     (let (connected, s) = connect os (UdpClient_new (test_config ''127.0.0.1'' 9999 50 100), w)
      in if connected then do {
           packet \<leftarrow> test_packet;
           let (sent, s) = send_packet os packet s;
           Some (sent \<longrightarrow> packets_sent (get_statistics (fst s)) > 0) }
         else Some True)"

definition test_receive_timeout :: "'w os \<Rightarrow> 'w \<Rightarrow> bool ub" where
  "test_receive_timeout os w =
     (let (connected, s) = connect os (UdpClient_new (test_config ''127.0.0.1'' 9999 100 50), w)
      in if connected then do {
           let start = os_now os (snd s);
           (packet, s) \<leftarrow> receive_packet os s;
           let elapsed_ms = (os_now os (snd s) - start) sdiv 1000000;
           Some (packet = None \<and> elapsed_ms \<ge> 40 \<and> elapsed_ms \<le> 200 \<and> timeouts (get_statistics (fst s)) > 0) }
         else Some True)"

definition test_exchange_timeout :: "'w os \<Rightarrow> 'w \<Rightarrow> bool ub" where
  "test_exchange_timeout os w =
     (let (connected, s) = connect os (UdpClient_new (test_config ''127.0.0.1'' 9999 50 50), w)
      in if connected then do {
           packet \<leftarrow> test_packet;
           (response, s) \<leftarrow> send_and_receive os packet s;
           Some (response = None) }
         else Some True)"

lemma closed_client_tests_pass: "test_construction \<and> test_move rest \<and> test_statistics \<and> test_configuration_getters"
  by (simp add: test_construction_def test_move_def test_statistics_def test_configuration_getters_def
      test_config_def is_connected_def get_config_def UdpClient_new_def move_construct_def get_statistics_def reset_statistics_def)

lemma fresh_connect:
  assumes "connect os (UdpClient_new cfg, w) = (b, c, w')"
  shows "uc_connected c = b" and "uc_stats c = NetworkStatistics_default"
proof -
  have "\<not> uc_connected (UdpClient_new cfg)" by (simp add: UdpClient_new_def)
  from connect_result(1) [OF assms this]
  have c: "c = (UdpClient_new cfg)\<lparr>uc_socket_fd := uc_socket_fd c, uc_connected := b\<rparr>" .
  show "uc_connected c = b" by (subst c) simp
  show "uc_stats c = NetworkStatistics_default" by (subst c) (simp add: UdpClient_new_def)
qed

text \<open>An address that \<open>inet_pton\<close> refuses is never connected to, whatever the other calls do.\<close>

lemma test_invalid_address_passes:
  assumes "os_inet_pton os ''999.999.999.999'' = None"
  shows "test_invalid_address os w"
proof -
  let ?client = "UdpClient_new (test_config ''999.999.999.999'' 8080 100 100)"
  obtain b c w' where cn: "connect os (?client, w) = (b, c, w')" by (metis prod_cases3)
  have ip: "cfg_server_ip (uc_config ?client) = ''999.999.999.999''"
    by (simp add: UdpClient_new_def test_config_def)
  have "\<not> b"
    using cn ip assms by (auto simp: connect_def configure_socket_defs UdpClient_new_def split: if_splits)
  with fresh_connect(1) [OF cn] cn show ?thesis by (simp add: test_invalid_address_def is_connected_def)
qed

lemma connect_cycle_ok:
  assumes "udp_inv (fst s)"
  shows "fst (connect_cycle os s)" and "udp_inv (fst (snd (connect_cycle os s)))"
proof -
  obtain b c w where cn: "connect os s = (b, c, w)" by (metis prod_cases3)
  obtain c0 w0 where s: "s = (c0, w0)" by (cases s)
  from connect_inv [OF cn [unfolded s]] assms s have "udp_inv c" and "b = uc_connected c" by auto
  moreover have "\<not> uc_connected (fst (disconnect os (c, w)))" by (simp add: disconnect_eq)
  ultimately show "fst (connect_cycle os s)" and "udp_inv (fst (snd (connect_cycle os s)))"
    using disconnect_inv [of os "(c, w)"] by (simp_all add: connect_cycle_def cn is_connected_def Let_def)
qed

lemma test_connect_cycles_passes: "test_connect_cycles os w"
proof -
  let ?s0 = "(UdpClient_new (test_config ''127.0.0.1'' 8080 100 100), w)"
  have 0: "udp_inv (fst ?s0)" by simp
  note 1 = connect_cycle_ok [OF 0, of os]
  note 2 = connect_cycle_ok [OF 1(2), of os]
  note 3 = connect_cycle_ok(1) [OF 2(2), of os]
  show ?thesis using 1(1) 2(1) 3 by (simp add: test_connect_cycles_def case_prod_beta Let_def)
qed

lemma test_packet_defined: "test_packet \<noteq> None"
  by code_simp

lemma test_send_without_server_passes: "test_send_without_server os w = Some True"
proof -
  obtain b c w' where cn: "connect os (UdpClient_new (test_config ''127.0.0.1'' 9999 50 100), w) = (b, c, w')"
    by (metis prod_cases3)
  obtain p where p: "test_packet = Some p" using test_packet_defined by blast
  obtain b' c' w'' where sp: "send_packet os p (c, w') = (b', c', w'')" by (metis prod_cases3)
  have "b' \<Longrightarrow> packets_sent (uc_stats c') > 0"
    using send_packet_outcome(1) [OF sp] fresh_connect(2) [OF cn]
    by (simp add: update_send_stats_def NetworkStatistics_default_def)
  then show ?thesis by (simp add: test_send_without_server_def cn p sp get_statistics_def Let_def)
qed

text \<open>The timeout tests rely on nothing arriving: every \<open>recv\<close> gives up, after the configured 50 ms or so.\<close>

lemma sdiv_nonneg: "0 \<le> (t :: int) \<Longrightarrow> t sdiv 1000000 = t div 1000000"
  by (simp add: signed_divide_int_def sgn_if)

lemma test_receive_timeout_passes:
  assumes "\<And>fd n w. fst (os_recv os fd n w) = Recv_Again"
    and "\<And>fd n w. os_now os (snd (os_recv os fd n w)) - os_now os w \<in> {40000000..200000000}"
  shows "test_receive_timeout os w = Some True"
proof -
  obtain b c w' where cn: "connect os (UdpClient_new (test_config ''127.0.0.1'' 9999 100 50), w) = (b, c, w')"
    by (metis prod_cases3)
  obtain w'' where rv: "os_recv os (uc_socket_fd c) 1024 w' = (Recv_Again, w'')"
    using assms(1) by (metis prod.collapse)
  let ?t = "os_now os w'' - os_now os w'"
  have "40000000 \<le> ?t" "?t \<le> 200000000" using assms(2) [of "uc_socket_fd c" 1024 w'] rv by simp_all
  then have "40 \<le> ?t sdiv 1000000" "?t sdiv 1000000 \<le> 200"
    using sdiv_nonneg [of ?t] by linarith+
  then show ?thesis
    using fresh_connect [OF cn]
    by (simp add: test_receive_timeout_def cn receive_packet_eq rv get_statistics_def Let_def
        update_receive_stats_def NetworkStatistics_default_def)
qed

lemma test_exchange_timeout_passes:
  assumes "\<And>fd n w. fst (os_recv os fd n w) = Recv_Again"
  shows "test_exchange_timeout os w = Some True"
proof -
  obtain b c w' where cn: "connect os (UdpClient_new (test_config ''127.0.0.1'' 9999 50 50), w) = (b, c, w')"
    by (metis prod_cases3)
  obtain p where p: "test_packet = Some p" using test_packet_defined by blast
  obtain b' c' w'' where sp: "send_packet os p (c, w') = (b', c', w'')" by (metis prod_cases3)
  obtain w3 where rv: "os_recv os (uc_socket_fd c') 1024 w'' = (Recv_Again, w3)"
    using assms by (metis prod.collapse)
  show ?thesis
    by (simp add: test_exchange_timeout_def cn p send_and_receive_def sp receive_packet_eq rv Let_def)
qed

section \<open>The thread safety test\<close>

text \<open>
  Four threads that each send ten packets with a pause of a millisecond after each. A thread is what it still
  has to do; \<open>send_packet\<close> holds its mutex throughout and is one step.
\<close>

datatype sender_action = Send_Packet Packet | Pause

definition sender_step :: "'w os \<Rightarrow> sender_action list \<times> 'w link \<Rightarrow> (sender_action list \<times> 'w link) option" where
  "sender_step os ts = (case ts of
     ([], s) \<Rightarrow> None
   | (Send_Packet p # rest, s) \<Rightarrow> Some (rest, snd (send_packet os p s))
   | (Pause # rest, s) \<Rightarrow> Some (rest, link_sleep os 1000000 s))"

definition sender_packet :: "nat \<Rightarrow> Packet ub" where
  "sender_packet i = do {
     let packet = Packet_default\<lparr>pkt_header := PACKET_HEADER, pkt_length := 9, pkt_module_id := MODULE_ID,
       pkt_target := of_nat (i + 1), pkt_command := CMD_READ_STATUS, pkt_tail := PACKET_TAIL\<rparr>;
     checksum \<leftarrow> calculate_checksum (serialize packet);
     Some (packet\<lparr>pkt_checksum := checksum\<rparr>) }"

definition sender_thread :: "nat \<Rightarrow> sender_action list ub" where
  "sender_thread i = do { p \<leftarrow> sender_packet i; Some (concat (replicate 10 [Send_Packet p, Pause])) }"

text \<open>The verdict after \<open>n\<close> turns of the schedule; \<open>main\<close> checks once it has joined all four threads.\<close>

definition test_thread_safety :: "'w os \<Rightarrow> (nat \<Rightarrow> nat) \<Rightarrow> nat \<Rightarrow> 'w \<Rightarrow> bool ub" where
  "test_thread_safety os sched n w =
     (let (connected, s) = connect os (UdpClient_new (test_config ''127.0.0.1'' 9999 10 10), w)
      in if connected then do {
           threads \<leftarrow> traverse sender_thread [0..<4];
           let (threads, s) = run_turns (sender_step os) sched (threads, s) n;
           Some (concat threads = [] \<longrightarrow> packets_sent (get_statistics (fst s)) > 0) }
         else Some True)"

definition pending :: "sender_action list \<Rightarrow> u64" where
  "pending as = of_nat (length (filter (\<lambda>a. a \<noteq> Pause) as))"

interpretation sender: ledger "\<lambda>x y. sender_step os x = Some y" pending "\<lambda>s. sends_counted (fst s)" for os :: "'w os"
proof
  fix t t' :: "sender_action list" and s s' :: "'w link"
  assume step: "sender_step os (t, s) = Some (t', s')"
  show "pending t' + sends_counted (fst s') = pending t + sends_counted (fst s)"
  proof (cases t)
    case (Cons a rest)
    show ?thesis
    proof (cases a)
      case (Send_Packet p)
      obtain b c w where "send_packet os p s = (b, c, w)" by (metis prod_cases3)
      then show ?thesis
        using step Cons Send_Packet send_packet_outcome(1) [of os p "fst s" "snd s" b c w]
        by (auto simp: sender_step_def pending_def update_stats_counted)
    qed (use step Cons in \<open>auto simp: sender_step_def pending_def\<close>)
  qed (use step in \<open>simp add: sender_step_def\<close>)
qed

lemma replicate_10: "replicate 10 x = [x, x, x, x, x, x, x, x, x, x]"
  by (simp add: numeral_eq_Suc)

lemma sender_threads:
  obtains ts where "traverse sender_thread [0..<4] = Some ts" and "sum_list (map pending ts) = 40"
proof -
  have "\<exists>as. sender_thread i = Some as \<and> pending as = 10" for i
    by (simp add: sender_thread_def sender_packet_def calculate_checksum_serialize pending_def Let_def replicate_10)
  then obtain f where f: "\<And>i. sender_thread i = Some (f i)" "\<And>i. pending (f i) = 10" by metis
  have "traverse sender_thread [0..<4] = Some (map f [0..<4])" by (rule traverse_total) (rule f(1))
  moreover have "sum_list (map pending (map f [0..<4])) = 40" by (simp add: f(2) comp_def upt_rec)
  ultimately show thesis by (rule that)
qed

text \<open>Sends that always leave in one piece: nothing but \<open>packets_sent\<close> is counted, whoever sends.\<close>

lemma sending_keeps:
  assumes "\<And>fd d w. fst (os_send os fd d w) = int (length d)"
  shows "uc_connected (fst (snd S)) \<and> send_errors (uc_stats (fst (snd S))) = 0 \<Longrightarrow>
    uc_connected (fst (snd (turn (sender_step os) i S))) \<and> send_errors (uc_stats (fst (snd (turn (sender_step os) i S)))) = 0"
proof -
  obtain ts c w where S: "S = (ts, c, w)" by (metis prod_cases3)
  have "send_packet os p (c, w) = (True, update_send_stats True c, snd (os_send os (uc_socket_fd c) (serialize p) w))"
    if "uc_connected c" for p
    using that assms [of "uc_socket_fd c" "serialize p" w] by (simp add: send_packet_def case_prod_beta Let_def)
  then show "uc_connected (fst (snd S)) \<and> send_errors (uc_stats (fst (snd S))) = 0 \<Longrightarrow> ?thesis"
    by (auto simp: S sender_step_def update_send_stats_def Let_def split: list.splits sender_action.splits)
qed

lemma test_thread_safety_passes:
  assumes "\<And>fd d w. fst (os_send os fd d w) = int (length d)"
  shows "test_thread_safety os sched n w = Some True"
proof -
  obtain b c w' where cn: "connect os (UdpClient_new (test_config ''127.0.0.1'' 9999 10 10), w) = (b, c, w')"
    by (metis prod_cases3)
  obtain ts where ts: "traverse sender_thread [0..<4] = Some ts" "sum_list (map pending ts) = 40" by (rule sender_threads)
  obtain ts' c' w'' where run: "run_turns (sender_step os) sched (ts, c, w') n = (ts', c', w'')" by (metis prod_cases3)
  have "packets_sent (uc_stats c') > 0" if "b" and "concat ts' = []"
  proof -
    have "uc_connected c" "send_errors (uc_stats c) = 0"
      using fresh_connect [OF cn] that(1) by (simp_all add: NetworkStatistics_default_def)
    then have errors: "send_errors (uc_stats c') = 0"
      using run_turns_invariant [of "\<lambda>S. uc_connected (fst (snd S)) \<and> send_errors (uc_stats (fst (snd S))) = 0",
          OF sending_keeps [OF assms], where S = "(ts, c, w')" and sched = sched and n = n] run by simp
    have "sends_counted c = 0" using fresh_connect(2) [OF cn] by (simp add: sends_counted_def NetworkStatistics_default_def)
    then have "sum_list (map pending ts') + sends_counted c' = 40"
      using sender.run_balance [OF run_turns_interleaves [of "sender_step os" "(ts, c, w')" sched n, unfolded run]] ts(2)
      by simp
    moreover have "sum_list (map pending ts') = 0"
      using that(2) by (induction ts') (simp_all add: pending_def)
    ultimately show ?thesis using errors by (simp add: sends_counted_def)
  qed
  then show ?thesis by (cases b) (simp_all add: test_thread_safety_def cn ts(1) run get_statistics_def Let_def)
qed

end
